(* ===== verification/QRM_Prelude.thy ===== *)
theory QRM_Prelude
  imports Main "HOL-Library.Word" "HOL-Library.List_Lexorder" "HOL-Library.Char_ord"
    "HOL-Library.Monad_Syntax"
begin

text \<open>
  The vocabulary every other theory of the development shares:
  \<^item> \<open>expected\<close>, the model of \<open>std::expected<T, E>\<close> (\<open>Inl\<close> carries the error), with the
    combinators \<open>and_then\<close> and \<open>transform\<close> the code uses on it;
  \<^item> decimal printing (\<open>std::to_string\<close>) and parsing (\<open>std::from_chars\<close> into an \<open>int\<close>);
  \<^item> \<open>wrap64\<close>, the two's complement reading of an \<open>int64_t\<close> result, used where
    \<open>std::chrono\<close> multiplies a tick count while converting between units;
  \<^item> strictly sorted association lists, the model of \<open>std::map\<close>.
  Strings are byte strings; \<open><\<close> on them is the bytewise lexicographic order of
  \<open>std::string\<close> (theories \<open>List_Lexorder\<close> and \<open>Char_ord\<close>).
\<close>

section \<open>Collections of facts\<close>

named_theorems expected_simps \<open>computation rules of the combinators on std::expected\<close>
named_theorems registry_simps \<open>how the registry's operations act on its lookup\<close>
named_theorems io_simps \<open>how an external call acts on the world, the trace and the rest of the state\<close>
named_theorems config_simps \<open>the field readers of the configuration loader\<close>

section \<open>std::expected\<close>

type_synonym ('e, 'a) expected = "'e + 'a"

definition and_then :: "('e, 'a) expected \<Rightarrow> ('a \<Rightarrow> ('e, 'b) expected) \<Rightarrow> ('e, 'b) expected" where
  "and_then m f = (case m of Inl e \<Rightarrow> Inl e | Inr a \<Rightarrow> f a)"

definition transform :: "('e, 'a) expected \<Rightarrow> ('a \<Rightarrow> 'b) \<Rightarrow> ('e, 'b) expected" where
  "transform m f = (case m of Inl e \<Rightarrow> Inl e | Inr a \<Rightarrow> Inr (f a))"

definition transform_error :: "('e, 'a) expected \<Rightarrow> ('e \<Rightarrow> 'd) \<Rightarrow> ('d, 'a) expected" where
  "transform_error m f = (case m of Inl e \<Rightarrow> Inl (f e) | Inr a \<Rightarrow> Inr a)"

definition has_value :: "('e, 'a) expected \<Rightarrow> bool" where
  "has_value m = (case m of Inl _ \<Rightarrow> False | Inr _ \<Rightarrow> True)"

lemma and_then_simps [simp, expected_simps]:
  "and_then (Inl e) f = Inl e"
  "and_then (Inr a) f = f a"
  by (simp_all add: and_then_def)

lemma transform_simps [simp, expected_simps]:
  "transform (Inl e) f = Inl e"
  "transform (Inr a) f = Inr (f a)"
  by (simp_all add: transform_def)

lemma transform_error_simps [simp, expected_simps]:
  "transform_error (Inl e) h = Inl (h e)"
  "transform_error (Inr a) h = Inr a"
  by (simp_all add: transform_error_def)

lemma has_value_simps [simp, expected_simps]:
  "has_value (Inl e) = False"
  "has_value (Inr a) = True"
  by (simp_all add: has_value_def)

lemma and_then_Inr_iff [expected_simps]:
  "and_then m f = Inr b \<longleftrightarrow> (\<exists>a. m = Inr a \<and> f a = Inr b)"
  by (cases m) simp_all

lemma and_then_Inl_iff:
  "and_then m f = Inl e \<longleftrightarrow> m = Inl e \<or> (\<exists>a. m = Inr a \<and> f a = Inl e)"
  by (cases m) simp_all

lemma transform_Inr_iff [expected_simps]:
  "transform m f = Inr b \<longleftrightarrow> (\<exists>a. m = Inr a \<and> b = f a)"
  by (cases m) auto

lemma transform_Inl_iff:
  "transform m f = Inl e \<longleftrightarrow> m = Inl e"
  by (cases m) auto

lemma has_value_iff: "has_value m \<longleftrightarrow> (\<exists>a. m = Inr a)"
  by (cases m) simp_all

lemma and_then_assoc: "and_then (and_then m f) g = and_then m (\<lambda>a. and_then (f a) g)"
  by (cases m) simp_all

section \<open>Machine integers\<close>

text \<open>The ranges of \<open>int\<close> and \<open>std::int64_t\<close>.\<close>

definition fits32 :: "int \<Rightarrow> bool" where
  "fits32 i = (- (2 ^ 31) \<le> i \<and> i < 2 ^ 31)"

definition fits64 :: "int \<Rightarrow> bool" where
  "fits64 i = (- (2 ^ 63) \<le> i \<and> i < 2 ^ 63)"

definition wrap64 :: "int \<Rightarrow> int" where
  "wrap64 i = signed_take_bit 63 i"

lemma wrap64_fits: "fits64 (wrap64 i)"
  unfolding wrap64_def fits64_def
  by (intro conjI signed_take_bit_int_less_exp signed_take_bit_int_greater_eq_minus_exp)

lemma wrap64_id: "fits64 i \<Longrightarrow> wrap64 i = i"
  unfolding wrap64_def fits64_def
  by (rule signed_take_bit_int_eq_self) simp_all

lemma wrap64_eq_iff: "wrap64 i = i \<longleftrightarrow> fits64 i"
  using wrap64_fits wrap64_id by metis

text \<open>
  The conversion of a \<open>std::chrono::seconds\<close> value to nanoseconds, which every comparison with a
  steady-clock duration makes. Its count is an \<open>int64\<close>; a product outside the range is written as
  the two's complement result.
\<close>

definition nanoseconds :: "int \<Rightarrow> int" where
  "nanoseconds secs = wrap64 (secs * 1000000000)"

text \<open>The same for a \<open>std::chrono::milliseconds\<close> value.\<close>

definition nanoseconds_of_ms :: "int \<Rightarrow> int" where
  "nanoseconds_of_ms ms = wrap64 (ms * 1000000)"

lemma nanoseconds_of_ms_exact: "fits64 (ms * 1000000) \<Longrightarrow> nanoseconds_of_ms ms = ms * 1000000"
  by (simp add: nanoseconds_of_ms_def wrap64_id)

lemma nanoseconds_exact: "fits64 (secs * 1000000000) \<Longrightarrow> nanoseconds secs = secs * 1000000000"
  by (simp add: nanoseconds_def wrap64_id)

section \<open>Text\<close>

text \<open>A piece of a message between single quotes.\<close>

definition quoted :: "string \<Rightarrow> string" where
  "quoted s = CHR 0x27 # s @ [CHR 0x27]"

section \<open>Decimal numerals\<close>

text \<open>\<open>std::to_string\<close> on an integer.\<close>

definition digit_char :: "nat \<Rightarrow> char" where
  "digit_char n = (''0123456789'' ! n)"

fun string_of_nat :: "nat \<Rightarrow> string" where
  "string_of_nat n =
     (if n < 10 then [digit_char n] else string_of_nat (n div 10) @ [digit_char (n mod 10)])"

declare string_of_nat.simps [simp del]

definition string_of_int :: "int \<Rightarrow> string" where
  "string_of_int i = (if i < 0 then CHR ''-'' # string_of_nat (nat (- i)) else string_of_nat (nat i))"

text \<open>
  \<open>std::from_chars\<close> into an \<open>int\<close>, base ten: an optional minus sign, then the longest run
  of digits. \<open>None\<close> is a conversion error (no digit, or a value outside \<open>int\<close>); otherwise
  the value and the unread rest of the input.
\<close>

definition is_digit :: "char \<Rightarrow> bool" where
  "is_digit c = (c \<in> set ''0123456789'')"

definition digit_val :: "char \<Rightarrow> int" where
  "digit_val c = of_char c - 48"

definition digits_val :: "string \<Rightarrow> int" where
  "digits_val ds = foldl (\<lambda>a c. a * 10 + digit_val c) 0 ds"

definition from_chars :: "string \<Rightarrow> (int \<times> string) option" where
  "from_chars s =
     (let neg = (s \<noteq> [] \<and> hd s = CHR ''-'');
          body = (if neg then tl s else s);
          ds = takeWhile is_digit body;
          v = (if neg then - digits_val ds else digits_val ds)
      in if ds = [] \<or> \<not> fits32 v then None else Some (v, dropWhile is_digit body))"

lemma less_10_cases:
  fixes n :: nat
  shows "n < 10 \<Longrightarrow> n \<in> {0, 1, 2, 3, 4, 5, 6, 7, 8, 9}"
  by auto

lemma digit_char_props:
  assumes "n < 10"
  shows "is_digit (digit_char n)" "digit_val (digit_char n) = int n"
  using less_10_cases [OF assms] by (auto simp: digit_char_def is_digit_def digit_val_def)

lemma string_of_nat_nonempty [simp]: "string_of_nat n \<noteq> []"
  by (subst string_of_nat.simps) simp

lemma string_of_nat_digits: "c \<in> set (string_of_nat n) \<Longrightarrow> is_digit c"
proof (induction n arbitrary: c rule: string_of_nat.induct)
  case (1 n)
  then show ?case
    by (subst (asm) (2) string_of_nat.simps) (auto simp: digit_char_props split: if_splits)
qed

lemma digits_val_snoc: "digits_val (ds @ [c]) = digits_val ds * 10 + digit_val c"
  by (simp add: digits_val_def)

lemma digits_val_string_of_nat: "digits_val (string_of_nat n) = int n"
proof (induction n rule: string_of_nat.induct)
  case (1 n)
  show ?case
  proof (cases "n < 10")
    case True
    then show ?thesis
      by (subst string_of_nat.simps) (simp add: digits_val_def digit_char_props)
  next
    case False
    with 1 have "digits_val (string_of_nat (n div 10)) = int (n div 10)" by simp
    with False show ?thesis
      by (subst string_of_nat.simps) (simp add: digits_val_snoc digit_char_props, presburger)
  qed
qed

lemma string_of_nat_no_minus: "hd (string_of_nat n) \<noteq> CHR ''-''"
proof -
  have "is_digit (hd (string_of_nat n))" by (rule string_of_nat_digits [of _ n]) simp
  then show ?thesis by (auto simp: is_digit_def)
qed

lemma span_string_of_nat:
  "takeWhile is_digit (string_of_nat n) = string_of_nat n"
  "dropWhile is_digit (string_of_nat n) = []"
  using string_of_nat_digits by (auto simp: takeWhile_eq_all_conv dropWhile_eq_Nil_conv)

text \<open>Printing then parsing gives the number back, for every value an \<open>int\<close> holds.\<close>

lemma from_chars_string_of_int:
  assumes "fits32 i"
  shows "from_chars (string_of_int i) = Some (i, [])"
proof (cases "i < 0")
  case True
  with assms show ?thesis
    by (simp add: from_chars_def string_of_int_def span_string_of_nat digits_val_string_of_nat Let_def)
next
  case False
  with assms show ?thesis
    by (simp add: from_chars_def string_of_int_def span_string_of_nat digits_val_string_of_nat
        string_of_nat_no_minus Let_def)
qed

lemma from_chars_fits: "from_chars s = Some (v, rest) \<Longrightarrow> fits32 v"
  by (auto simp: from_chars_def Let_def split: if_splits)

section \<open>Strictly sorted association lists: std::map\<close>

definition strictly_sorted :: "('k::linorder) list \<Rightarrow> bool" where
  "strictly_sorted ks = sorted_wrt (<) ks"

fun map_insert :: "'k::linorder \<Rightarrow> 'v \<Rightarrow> ('k \<times> 'v) list \<Rightarrow> ('k \<times> 'v) list" where
  "map_insert k v [] = [(k, v)]"
| "map_insert k v ((k', v') # m) =
     (if k < k' then (k, v) # (k', v') # m
      else if k = k' then (k, v) # m
      else (k', v') # map_insert k v m)"

lemma map_of_map_insert [simp]: "map_of (map_insert k v m) = (map_of m)(k \<mapsto> v)"
  by (induction k v m rule: map_insert.induct) auto

lemma set_fst_map_insert [simp]: "fst ` set (map_insert k v m) = insert k (fst ` set m)"
  by (induction k v m rule: map_insert.induct) auto

lemma set_map_insert: "x \<in> set (map_insert k v m) \<Longrightarrow> x = (k, v) \<or> x \<in> set m"
  by (induction k v m rule: map_insert.induct) (auto split: if_splits)

lemma strictly_sorted_map_insert:
  "strictly_sorted (map fst m) \<Longrightarrow> strictly_sorted (map fst (map_insert k v m))"
proof (induction k v m rule: map_insert.induct)
  case (1 k v)
  then show ?case by (simp add: strictly_sorted_def)
next
  case (2 k v k' v' m)
  then show ?case
    by (auto simp: strictly_sorted_def image_iff dest!: set_map_insert)
qed

lemma strictly_sorted_distinct: "strictly_sorted ks \<Longrightarrow> distinct ks"
  by (simp add: strictly_sorted_def strict_sorted_iff)

lemma strictly_sorted_filter:
  "strictly_sorted (map fst m) \<Longrightarrow> strictly_sorted (map fst (filter P m))"
  by (induction m) (auto simp: strictly_sorted_def)

lemma map_of_filter_distinct:
  "distinct (map fst m) \<Longrightarrow>
   map_of (filter P m) k = (case map_of m k of None \<Rightarrow> None | Some v \<Rightarrow> if P (k, v) then Some v else None)"
  by (induction m) (auto split: option.splits dest: map_of_SomeD simp: image_iff)

lemma sorted_alist_unique:
  assumes "strictly_sorted (map fst m)" and "strictly_sorted (map fst m')" and "map_of m = map_of m'"
  shows "m = m'"
proof -
  have d: "distinct (map fst m)" "distinct (map fst m')"
    using assms(1,2) by (simp_all add: strictly_sorted_distinct)
  have "set m = set m'"
    using d assms(3) by (simp add: map_of_inject_set)
  moreover from d(1) have "inj_on fst (set m)" by (simp add: distinct_map)
  ultimately show ?thesis
    using assms(1,2) by (intro map_sorted_distinct_set_unique [of fst m m'])
      (simp_all add: strictly_sorted_def strict_sorted_iff)
qed

end
