(* ===== verification/QRM_Error.thy ===== *)
theory QRM_Error
  imports QRM_Prelude
begin

text \<open>
  The error vocabulary: \<open>Error\<close> and its \<open>Kind\<close> (\<open>include/qrmci/Error.h\<close>,
  \<open>src/Error.cpp\<close>), the submitter's own error as QRM&CI sees it, and the translation of the
  second into the first (\<open>toQrmciError\<close>, \<open>src/ConstantsMapping.cpp\<close>).
\<close>

section \<open>QRM&CI errors\<close>

datatype Kind =
    NoBackendAvailable
  | UnsupportedFormat
  | CompilationFailed
  | SubmissionFailed
  | DeviceError
  | MessagingFailed
  | Internal
  | ConfigError
  | DriverUnavailable
  | ShutdownRequested

record Error =
  kind :: Kind
  detail :: string

abbreviation mk_error :: "Kind \<Rightarrow> string \<Rightarrow> Error" where
  "mk_error k d \<equiv> \<lparr>kind = k, detail = d\<rparr>"

type_synonym 'a result = "(Error, 'a) expected"

definition toString :: "Kind \<Rightarrow> string" where
  "toString k = (case k of
     NoBackendAvailable \<Rightarrow> ''NoBackendAvailable''
   | UnsupportedFormat \<Rightarrow> ''UnsupportedFormat''
   | CompilationFailed \<Rightarrow> ''CompilationFailed''
   | SubmissionFailed \<Rightarrow> ''SubmissionFailed''
   | DeviceError \<Rightarrow> ''DeviceError''
   | MessagingFailed \<Rightarrow> ''MessagingFailed''
   | Internal \<Rightarrow> ''Internal''
   | ConfigError \<Rightarrow> ''ConfigError''
   | DriverUnavailable \<Rightarrow> ''DriverUnavailable''
   | ShutdownRequested \<Rightarrow> ''ShutdownRequested'')"

section \<open>Errors of the submitter library\<close>

text \<open>
  \<open>mqss::submitter::ErrorCode\<close> has the twelve enumerators the code names;
  \<open>ErrorCode_outside\<close> stands for a value outside the enumeration, the case the comment after
  the switch of \<open>submitterErrorCodeName\<close> describes.
\<close>

datatype ErrorCode =
    Fatal | OutOfMem | NotImplemented | LibNotFound | NotFound | OutOfRange
  | InvalidArgument | PermissionDenied | NotSupported | BadState | Timeout | WarnGeneral
  | ErrorCode_outside int

record SubmitterError =
  code :: ErrorCode
  message :: string

definition submitterErrorCodeName :: "ErrorCode \<Rightarrow> string" where
  "submitterErrorCodeName c = (case c of
     Fatal \<Rightarrow> ''Fatal''
   | OutOfMem \<Rightarrow> ''OutOfMem''
   | NotImplemented \<Rightarrow> ''NotImplemented''
   | LibNotFound \<Rightarrow> ''LibNotFound''
   | NotFound \<Rightarrow> ''NotFound''
   | OutOfRange \<Rightarrow> ''OutOfRange''
   | InvalidArgument \<Rightarrow> ''InvalidArgument''
   | PermissionDenied \<Rightarrow> ''PermissionDenied''
   | NotSupported \<Rightarrow> ''NotSupported''
   | BadState \<Rightarrow> ''BadState''
   | Timeout \<Rightarrow> ''Timeout''
   | WarnGeneral \<Rightarrow> ''WarnGeneral''
   | ErrorCode_outside _ \<Rightarrow> ''Unknown'')"

definition toQrmciError :: "Kind \<Rightarrow> SubmitterError \<Rightarrow> Error" where
  "toQrmciError k e = mk_error k (submitterErrorCodeName (code e) @ '': '' @ message e)"

section \<open>Lemmas\<close>

lemma toQrmciError_kind [simp]: "kind (toQrmciError k e) = k"
  by (simp add: toQrmciError_def)

lemma toString_inject: "toString k = toString k' \<Longrightarrow> k = k'"
  by (cases k; cases k') (simp_all add: toString_def)

lemma submitterErrorCodeName_no_colon: "CHR '':'' \<notin> set (submitterErrorCodeName c)"
  by (cases c) (simp_all add: submitterErrorCodeName_def)

lemma submitterErrorCodeName_inject:
  "\<lbrakk>submitterErrorCodeName c = submitterErrorCodeName c'; \<forall>i. c \<noteq> ErrorCode_outside i\<rbrakk> \<Longrightarrow> c = c'"
  by (cases c; cases c') (simp_all add: submitterErrorCodeName_def)

text \<open>Two strings split at their first colon agree piecewise.\<close>

lemma split_at_first:
  assumes "xs @ x # ys = xs' @ x # ys'" and "x \<notin> set xs" and "x \<notin> set xs'"
  shows "xs = xs' \<and> ys = ys'"
  using assms
proof (induction xs arbitrary: xs')
  case Nil
  then show ?case by (cases xs') auto
next
  case (Cons a xs)
  then show ?case by (cases xs') auto
qed

end
