(* ===== verification/Protocol_Messages.thy ===== *)
theory Protocol_Messages
  imports QRM_Error
begin

text \<open>
  The messages and enumerations of the \<open>mqss\<close> protocol that the code reads and writes. The
  protocol itself (its \<open>.proto\<close> files and the generated classes) is not part of the repository:
  the records below hold exactly the fields the code accesses, the enumerations the enumerators it
  or its tests name plus one constructor for any further value, and what the generated code
  decides (which numbers are known enumerators, how they are numbered and named) is the parameter
  \<open>protocol\<close>.

  Field types: an \<open>int32\<close> field whose sign or width matters is a \<open>32 word\<close> read with \<open>sint\<close>;
  \<open>task_id\<close> and \<open>priority\<close> are only copied and printed, hence \<open>int\<close>; \<open>current_load\<close> is a
  \<open>float\<close> that is only copied, kept as its 32 bits.
\<close>

section \<open>Enumerations\<close>

datatype CircuitFormat =
    CIRCUIT_FORMAT_UNSPECIFIED
  | CIRCUIT_FORMAT_IQMJSON
  | CIRCUIT_FORMAT_QASM2
  | CIRCUIT_FORMAT_QASM3
  | CIRCUIT_FORMAT_QIRBASESTRING
  | CIRCUIT_FORMAT_QIRBASEMODULE
  | CIRCUIT_FORMAT_QIRADAPTIVESTRING
  | CIRCUIT_FORMAT_QIRADAPTIVEMODULE
  | CIRCUIT_FORMAT_other int

datatype BackendType =
    BACKEND_TYPE_UNSPECIFIED
  | BACKEND_TYPE_other int

datatype BackendStatus =
    BACKEND_STATUS_UNSPECIFIED
  | BACKEND_STATUS_IDLE
  | BACKEND_STATUS_BUSY
  | BACKEND_STATUS_OFFLINE
  | BACKEND_STATUS_ERROR
  | BACKEND_STATUS_MAINTENANCE
  | BACKEND_STATUS_CALIBRATION
  | BACKEND_STATUS_other int

text \<open>
  What the generated protobuf code provides for one enumeration: \<open>X_IsValid\<close>, the two
  \<open>static_cast\<close>s between the enumeration and its number, and \<open>X_Name\<close>.
\<close>

record 'e proto_enum =
  IsValid :: "int \<Rightarrow> bool"
  of_number :: "int \<Rightarrow> 'e"
  number :: "'e \<Rightarrow> int"
  Name :: "'e \<Rightarrow> string"

record protocol =
  CircuitFormat_enum :: "CircuitFormat proto_enum"
  BackendType_enum :: "BackendType proto_enum"
  BackendStatus_enum :: "BackendStatus proto_enum"

text \<open>
  Documented protobuf behaviour: zero is an enumerator (proto3 requires it to be the first, here the
  \<open>UNSPECIFIED\<close> one), and casting a known number to the enumeration and back is the identity.
\<close>

definition proto_enum_ok :: "'e proto_enum \<Rightarrow> 'e \<Rightarrow> bool" where
  "proto_enum_ok E unspecified \<longleftrightarrow>
     IsValid E 0 \<and> of_number E 0 = unspecified \<and> (\<forall>i. IsValid E i \<longrightarrow> number E (of_number E i) = i)"

definition protocol_ok :: "protocol \<Rightarrow> bool" where
  "protocol_ok P \<longleftrightarrow>
     proto_enum_ok (CircuitFormat_enum P) CIRCUIT_FORMAT_UNSPECIFIED \<and>
     proto_enum_ok (BackendType_enum P) BACKEND_TYPE_UNSPECIFIED \<and>
     proto_enum_ok (BackendStatus_enum P) BACKEND_STATUS_UNSPECIFIED"

text \<open>A value of the enumeration that survives a trip over the wire.\<close>

definition wire_known :: "'e proto_enum \<Rightarrow> 'e \<Rightarrow> bool" where
  "wire_known E e \<longleftrightarrow> IsValid E (number E e) \<and> of_number E (number E e) = e"

lemma wire_known_of_number: "proto_enum_ok E u \<Longrightarrow> IsValid E i \<Longrightarrow> wire_known E (of_number E i)"
  by (simp add: proto_enum_ok_def wire_known_def)

lemma wire_known_unspecified: "proto_enum_ok E u \<Longrightarrow> wire_known E u"
  by (auto simp: proto_enum_ok_def wire_known_def)

section \<open>Messages\<close>

record QuantumTask =
  task_id :: int
  n_qbits :: "32 word"
  n_shots :: "32 word"
  circuit_files :: "string list"
  circuit_file_type :: string
  result_destination :: string
  preferred_qpu :: string
  scheduled_qpu :: string
  restricted_resource_names :: "string list"
  no_modify :: bool
  optimisation_level :: "32 word"
  priority :: int

record QuantumResult =
  res_task_id :: int
  destination :: string
  executed_qpu :: string
  execution_status :: bool
  additional_information :: string
  results :: "(string \<rightharpoonup> 32 word) list"

record Backend =
  pb_name :: string
  pb_num_qubits :: "32 word"
  pb_type :: int
  pb_status :: int
  pb_queue_length :: "32 word"
  pb_current_load :: "32 word"
  pb_queue_name :: string
  pb_instructions :: "string list"
  pb_connectivity :: "(32 word \<times> 32 word) list"
  pb_supported_circuit_formats :: "int list"

section \<open>A concrete numbering\<close>

text \<open>
  One instance of the parameter \<open>protocol\<close>, used only to evaluate witnesses: it shows that the
  documented behaviour above can hold together with every enumerator being known.
\<close>

definition sample_format_of_number :: "int \<Rightarrow> CircuitFormat" where
  "sample_format_of_number i =
     (if i = 0 then CIRCUIT_FORMAT_UNSPECIFIED else if i = 1 then CIRCUIT_FORMAT_IQMJSON
      else if i = 2 then CIRCUIT_FORMAT_QASM2 else if i = 3 then CIRCUIT_FORMAT_QASM3
      else if i = 4 then CIRCUIT_FORMAT_QIRBASESTRING else if i = 5 then CIRCUIT_FORMAT_QIRBASEMODULE
      else if i = 6 then CIRCUIT_FORMAT_QIRADAPTIVESTRING
      else if i = 7 then CIRCUIT_FORMAT_QIRADAPTIVEMODULE else CIRCUIT_FORMAT_other i)"

fun sample_format_number :: "CircuitFormat \<Rightarrow> int" where
  "sample_format_number CIRCUIT_FORMAT_UNSPECIFIED = 0"
| "sample_format_number CIRCUIT_FORMAT_IQMJSON = 1"
| "sample_format_number CIRCUIT_FORMAT_QASM2 = 2"
| "sample_format_number CIRCUIT_FORMAT_QASM3 = 3"
| "sample_format_number CIRCUIT_FORMAT_QIRBASESTRING = 4"
| "sample_format_number CIRCUIT_FORMAT_QIRBASEMODULE = 5"
| "sample_format_number CIRCUIT_FORMAT_QIRADAPTIVESTRING = 6"
| "sample_format_number CIRCUIT_FORMAT_QIRADAPTIVEMODULE = 7"
| "sample_format_number (CIRCUIT_FORMAT_other i) = i"

definition sample_status_of_number :: "int \<Rightarrow> BackendStatus" where
  "sample_status_of_number i =
     (if i = 0 then BACKEND_STATUS_UNSPECIFIED else if i = 1 then BACKEND_STATUS_IDLE
      else if i = 2 then BACKEND_STATUS_BUSY else if i = 3 then BACKEND_STATUS_OFFLINE
      else if i = 4 then BACKEND_STATUS_ERROR else if i = 5 then BACKEND_STATUS_MAINTENANCE
      else if i = 6 then BACKEND_STATUS_CALIBRATION else BACKEND_STATUS_other i)"

fun sample_status_number :: "BackendStatus \<Rightarrow> int" where
  "sample_status_number BACKEND_STATUS_UNSPECIFIED = 0"
| "sample_status_number BACKEND_STATUS_IDLE = 1"
| "sample_status_number BACKEND_STATUS_BUSY = 2"
| "sample_status_number BACKEND_STATUS_OFFLINE = 3"
| "sample_status_number BACKEND_STATUS_ERROR = 4"
| "sample_status_number BACKEND_STATUS_MAINTENANCE = 5"
| "sample_status_number BACKEND_STATUS_CALIBRATION = 6"
| "sample_status_number (BACKEND_STATUS_other i) = i"

fun sample_type_number :: "BackendType \<Rightarrow> int" where
  "sample_type_number BACKEND_TYPE_UNSPECIFIED = 0"
| "sample_type_number (BACKEND_TYPE_other i) = i"

definition sample_protocol :: protocol where
  "sample_protocol =
     \<lparr>CircuitFormat_enum = \<lparr>IsValid = (\<lambda>i. 0 \<le> i \<and> i \<le> 7), of_number = sample_format_of_number,
        number = sample_format_number, Name = (\<lambda>f. ''CIRCUIT_FORMAT'')\<rparr>,
      BackendType_enum = \<lparr>IsValid = (\<lambda>i. i = 0),
        of_number = (\<lambda>i. if i = 0 then BACKEND_TYPE_UNSPECIFIED else BACKEND_TYPE_other i),
        number = sample_type_number, Name = (\<lambda>t. ''BACKEND_TYPE'')\<rparr>,
      BackendStatus_enum = \<lparr>IsValid = (\<lambda>i. 0 \<le> i \<and> i \<le> 6), of_number = sample_status_of_number,
        number = sample_status_number, Name = (\<lambda>s. ''BACKEND_STATUS'')\<rparr>\<rparr>"

lemma sample_protocol_ok: "protocol_ok sample_protocol"
  by (auto simp: protocol_ok_def proto_enum_ok_def sample_protocol_def sample_format_of_number_def
      sample_status_of_number_def)

end
