(* ===== verification/Constants_Mapping.thy ===== *)
theory Constants_Mapping
  imports Protocol_Messages
begin

text \<open>
  \<open>src/ConstantsMapping.cpp\<close>: the translations of wire enumerations, optimisation levels and
  backend statuses, and the labels of log lines. \<open>toQrmciError\<close> is in theory \<open>QRM_Error\<close>.
\<close>

section \<open>Translations\<close>

definition mapProtoCircuitFormat :: "protocol \<Rightarrow> int \<Rightarrow> CircuitFormat" where
  "mapProtoCircuitFormat P format =
     (if \<not> IsValid (CircuitFormat_enum P) format then CIRCUIT_FORMAT_UNSPECIFIED
      else of_number (CircuitFormat_enum P) format)"

definition mapProtoBackendType :: "protocol \<Rightarrow> int \<Rightarrow> BackendType" where
  "mapProtoBackendType P type =
     (if \<not> IsValid (BackendType_enum P) type then BACKEND_TYPE_UNSPECIFIED
      else of_number (BackendType_enum P) type)"

definition mapProtoBackendStatus :: "protocol \<Rightarrow> int \<Rightarrow> BackendStatus" where
  "mapProtoBackendStatus P status =
     (if \<not> IsValid (BackendStatus_enum P) status then BACKEND_STATUS_UNSPECIFIED
      else of_number (BackendStatus_enum P) status)"

datatype OptLevel = O1 | O2 | O3

definition getCompilerOptimizationLevel :: "int \<Rightarrow> OptLevel result" where
  "getCompilerOptimizationLevel level =
     (if level = 0 \<or> level = 1 then Inr O1
      else if level = 2 then Inr O2
      else if level = 3 then Inr O3
      else Inl (mk_error CompilationFailed
             (''Invalid optimisation level '' @ string_of_int level @ ''; expected 0-3.'')))"

definition isOnlineBackendStatus :: "BackendStatus \<Rightarrow> bool" where
  "isOnlineBackendStatus status =
     (status = BACKEND_STATUS_IDLE \<or> status = BACKEND_STATUS_BUSY)"

definition circuitFormatLabel :: "protocol \<Rightarrow> CircuitFormat \<Rightarrow> string" where
  "circuitFormatLabel P format =
     (if IsValid (CircuitFormat_enum P) (number (CircuitFormat_enum P) format)
      then Name (CircuitFormat_enum P) format
      else ''UNKNOWN('' @ string_of_int (number (CircuitFormat_enum P) format) @ '')'')"

definition backendStatusLabel :: "protocol \<Rightarrow> BackendStatus \<Rightarrow> string" where
  "backendStatusLabel P status =
     (if IsValid (BackendStatus_enum P) (number (BackendStatus_enum P) status)
      then Name (BackendStatus_enum P) status
      else ''UNKNOWN('' @ string_of_int (number (BackendStatus_enum P) status) @ '')'')"

section \<open>Lemmas\<close>

lemma mapProto_wire_known:
  assumes "protocol_ok P"
  shows "wire_known (CircuitFormat_enum P) (mapProtoCircuitFormat P i)"
    and "wire_known (BackendType_enum P) (mapProtoBackendType P i)"
    and "wire_known (BackendStatus_enum P) (mapProtoBackendStatus P i)"
  using assms
  by (auto simp: protocol_ok_def mapProtoCircuitFormat_def mapProtoBackendType_def
      mapProtoBackendStatus_def intro: wire_known_of_number wire_known_unspecified)

lemma mapProto_number:
  "wire_known (CircuitFormat_enum P) f \<Longrightarrow> mapProtoCircuitFormat P (number (CircuitFormat_enum P) f) = f"
  "wire_known (BackendType_enum P) t \<Longrightarrow> mapProtoBackendType P (number (BackendType_enum P) t) = t"
  "wire_known (BackendStatus_enum P) s \<Longrightarrow> mapProtoBackendStatus P (number (BackendStatus_enum P) s) = s"
  by (simp_all add: wire_known_def mapProtoCircuitFormat_def mapProtoBackendType_def
      mapProtoBackendStatus_def)

lemma offline_unspecified [simp]: "\<not> isOnlineBackendStatus BACKEND_STATUS_UNSPECIFIED"
  by (simp add: isOnlineBackendStatus_def)

lemma getCompilerOptimizationLevel_Inr_iff:
  "(\<exists>l. getCompilerOptimizationLevel level = Inr l) \<longleftrightarrow> 0 \<le> level \<and> level \<le> 3"
  by (auto simp: getCompilerOptimizationLevel_def)

lemma getCompilerOptimizationLevel_error_kind:
  "getCompilerOptimizationLevel level = Inl e \<Longrightarrow> kind e = CompilationFailed"
  by (auto simp: getCompilerOptimizationLevel_def split: if_splits)

end
