(* ===== verification/Circuit_Format_Policy.thy ===== *)
theory Circuit_Format_Policy
  imports Constants_Mapping
begin

text \<open>
  \<open>src/CircuitFormatPolicy.cpp\<close>: which circuit format a task's circuit type means, which compiler
  target a backend's formats allow, and whether a task can be prepared for a backend at all. The
  compiler's list of input formats (\<open>MQSSCompiler::getSupportedInputFormats()\<close>, a library
  function) is the argument \<open>supportedInputFormats\<close>.
\<close>

section \<open>Definitions\<close>

datatype ResultFormat = IQMJSON | OPENQASM2 | QIRBASE | QIRADAPTIVE

record CompilerTarget =
  compilerFormat :: ResultFormat
  circuitFormat :: CircuitFormat
  taskCircuitType :: string

definition CompilerTargetPriority :: "CompilerTarget list" where
  "CompilerTargetPriority =
     [\<lparr>compilerFormat = IQMJSON, circuitFormat = CIRCUIT_FORMAT_IQMJSON, taskCircuitType = ''iqmjson''\<rparr>,
      \<lparr>compilerFormat = OPENQASM2, circuitFormat = CIRCUIT_FORMAT_QASM2, taskCircuitType = ''qasm2''\<rparr>,
      \<lparr>compilerFormat = QIRBASE, circuitFormat = CIRCUIT_FORMAT_QIRBASESTRING,
       taskCircuitType = ''qirbase''\<rparr>,
      \<lparr>compilerFormat = QIRADAPTIVE, circuitFormat = CIRCUIT_FORMAT_QIRADAPTIVESTRING,
       taskCircuitType = ''qiradaptive''\<rparr>]"

definition TaskCircuitTypeToCompilerInputFormatMapping :: "(string \<times> string) list" where
  "TaskCircuitTypeToCompilerInputFormatMapping =
     [(''quake'', ''cudaq-quake''), (''catalyst'', ''catalyst-quantum'')]"

definition mapTaskCircuitTypeToCircuitFormat :: "string \<Rightarrow> CircuitFormat" where
  "mapTaskCircuitTypeToCircuitFormat format =
     (if format = ''iqmjson'' then CIRCUIT_FORMAT_IQMJSON
      else if format = ''qasm'' \<or> format = ''qasm2'' then CIRCUIT_FORMAT_QASM2
      else if format = ''qasm3'' then CIRCUIT_FORMAT_QASM3
      else if format = ''qir'' \<or> format = ''qirbase'' \<or> format = ''quake'' \<or> format = ''catalyst''
      then CIRCUIT_FORMAT_QIRBASESTRING
      else if format = ''qiradaptive'' then CIRCUIT_FORMAT_QIRADAPTIVESTRING
      else CIRCUIT_FORMAT_UNSPECIFIED)"

fun firstTarget :: "CompilerTarget list \<Rightarrow> CircuitFormat list \<Rightarrow> CompilerTarget result" where
  "firstTarget [] backendFormats =
     Inl (mk_error UnsupportedFormat ''No compatible result format found'')"
| "firstTarget (target # targets) backendFormats =
     (if circuitFormat target \<in> set backendFormats then Inr target
      else firstTarget targets backendFormats)"

definition chooseCompilerTarget :: "CircuitFormat list \<Rightarrow> CompilerTarget result" where
  "chooseCompilerTarget backendFormats = firstTarget CompilerTargetPriority backendFormats"

definition validateInputFormatIsSupportedCircuitFormat :: "string \<Rightarrow> string list \<Rightarrow> unit result" where
  "validateInputFormatIsSupportedCircuitFormat circuitFileFormat supportedInputFormats =
     (case find (\<lambda>mapping. fst mapping = circuitFileFormat)
             TaskCircuitTypeToCompilerInputFormatMapping of
        Some inputFormat \<Rightarrow>
          (if snd inputFormat \<in> set supportedInputFormats then Inr ()
           else Inl (mk_error UnsupportedFormat
                  (''Unsupported circuit file format: '' @ circuitFileFormat)))
      | None \<Rightarrow>
          Inl (mk_error UnsupportedFormat
                  (''Unsupported circuit file format: '' @ circuitFileFormat)))"

definition canPrepareTaskForBackend :: "string list \<Rightarrow> QuantumTask \<Rightarrow> CircuitFormat list \<Rightarrow> bool" where
  "canPrepareTaskForBackend supportedInputFormats task backendFormats =
     (if no_modify task
      then (let directFormat = mapTaskCircuitTypeToCircuitFormat (circuit_file_type task)
            in directFormat \<noteq> CIRCUIT_FORMAT_UNSPECIFIED \<and> directFormat \<in> set backendFormats)
      else has_value (validateInputFormatIsSupportedCircuitFormat (circuit_file_type task)
             supportedInputFormats) \<and>
           has_value (chooseCompilerTarget backendFormats))"

section \<open>Lemmas\<close>

text \<open>The loop over the priority table returns the first supported entry.\<close>

lemma firstTarget_find:
  "firstTarget targets fs =
     (case find (\<lambda>t. circuitFormat t \<in> set fs) targets of
        Some t \<Rightarrow> Inr t
      | None \<Rightarrow> Inl (mk_error UnsupportedFormat ''No compatible result format found''))"
  by (induction targets) simp_all

lemma firstTarget_Inr_iff:
  "firstTarget targets fs = Inr t \<longleftrightarrow>
     (\<exists>i < length targets. t = targets ! i \<and> circuitFormat t \<in> set fs \<and>
        (\<forall>j < i. circuitFormat (targets ! j) \<notin> set fs))"
proof -
  have "firstTarget targets fs = Inr t \<longleftrightarrow> find (\<lambda>t. circuitFormat t \<in> set fs) targets = Some t"
    by (simp add: firstTarget_find split: option.split)
  then show ?thesis by (auto simp: find_Some_iff)
qed

lemma firstTarget_cases:
  "(\<exists>t. firstTarget targets fs = Inr t) \<longleftrightarrow> (\<exists>t \<in> set targets. circuitFormat t \<in> set fs)"
  by (induction targets) auto

lemma firstTarget_cong: "set fs = set fs' \<Longrightarrow> firstTarget targets fs = firstTarget targets fs'"
  by (induction targets) simp_all

lemma firstTarget_error:
  "firstTarget targets fs = Inl e \<Longrightarrow> e = mk_error UnsupportedFormat ''No compatible result format found''"
  by (induction targets) (auto split: if_splits)

lemma chooseCompilerTarget_in_table:
  "chooseCompilerTarget fs = Inr t \<Longrightarrow> t \<in> set CompilerTargetPriority \<and> circuitFormat t \<in> set fs"
  by (auto simp: chooseCompilerTarget_def firstTarget_Inr_iff)

text \<open>Every target's canonical label maps back to the format the target is submitted as.\<close>

lemma canonical_label:
  "t \<in> set CompilerTargetPriority \<Longrightarrow>
   mapTaskCircuitTypeToCircuitFormat (taskCircuitType t) = circuitFormat t \<and>
   circuitFormat t \<noteq> CIRCUIT_FORMAT_UNSPECIFIED"
  by (auto simp: CompilerTargetPriority_def mapTaskCircuitTypeToCircuitFormat_def)

lemma chooseCompilerTarget_label:
  assumes "chooseCompilerTarget fs = Inr t"
  shows "mapTaskCircuitTypeToCircuitFormat (taskCircuitType t) \<in> set fs"
    and "mapTaskCircuitTypeToCircuitFormat (taskCircuitType t) \<noteq> CIRCUIT_FORMAT_UNSPECIFIED"
  using chooseCompilerTarget_in_table [OF assms] canonical_label by auto

lemma validateInputFormat_Inr_iff:
  "validateInputFormatIsSupportedCircuitFormat f sif = Inr () \<longleftrightarrow>
     f = ''quake'' \<and> ''cudaq-quake'' \<in> set sif \<or> f = ''catalyst'' \<and> ''catalyst-quantum'' \<in> set sif"
  by (auto simp: validateInputFormatIsSupportedCircuitFormat_def
      TaskCircuitTypeToCompilerInputFormatMapping_def split: if_splits)

lemma validateInputFormat_error:
  "validateInputFormatIsSupportedCircuitFormat f sif = Inl e \<Longrightarrow> kind e = UnsupportedFormat"
  by (auto simp: validateInputFormatIsSupportedCircuitFormat_def split: option.splits if_splits)

section \<open>Properties\<close>

text \<open>The compiler target a backend gets is decided by the fixed priority table alone: the
  chosen target is the first entry of the table whose circuit format the backend lists, a target
  exists exactly when the backend lists one of the table's formats, and two backends that list the
  same formats, in any order and with any repetition, get the same answer.\<close>

theorem chooseCompilerTarget_priority:
  "(chooseCompilerTarget fs = Inr t \<longleftrightarrow>
      (\<exists>i < length CompilerTargetPriority. t = CompilerTargetPriority ! i \<and>
         circuitFormat t \<in> set fs \<and>
         (\<forall>j < i. circuitFormat (CompilerTargetPriority ! j) \<notin> set fs))) \<and>
   (has_value (chooseCompilerTarget fs) \<longleftrightarrow>
      (\<exists>u \<in> set CompilerTargetPriority. circuitFormat u \<in> set fs)) \<and>
   (set fs = set fs' \<longrightarrow> chooseCompilerTarget fs = chooseCompilerTarget fs')"
  unfolding chooseCompilerTarget_def has_value_iff firstTarget_cases
  by (intro conjI firstTarget_Inr_iff impI firstTarget_cong refl)

theorem chooseCompilerTarget_priority_witness:
  "chooseCompilerTarget [CIRCUIT_FORMAT_QIRBASESTRING, CIRCUIT_FORMAT_QASM2] =
   chooseCompilerTarget [CIRCUIT_FORMAT_QASM2, CIRCUIT_FORMAT_QIRBASESTRING] \<and>
   has_value (chooseCompilerTarget [CIRCUIT_FORMAT_QASM2, CIRCUIT_FORMAT_QIRBASESTRING])"
  using chooseCompilerTarget_priority
    [of "[CIRCUIT_FORMAT_QIRBASESTRING, CIRCUIT_FORMAT_QASM2]" _
      "[CIRCUIT_FORMAT_QASM2, CIRCUIT_FORMAT_QIRBASESTRING]"]
  by (auto simp: chooseCompilerTarget_def CompilerTargetPriority_def)

end
