(* ===== verification/External_Env.thy ===== *)
theory External_Env
  imports Circuit_Format_Policy
begin

text \<open>
  The boundary of the program. The quantum device (\<open>mqss::submitter::Device\<close> and \<open>Job\<close>), the
  broker (\<open>mqss::Messenger\<close>), the steady clock, the signals and the log files are not code of this
  repository. They are the fields of a record \<open>environment\<close>, functions on an arbitrary
  world type \<open>'w\<close>: a call may answer anything and change the world in any way. A program of the
  model takes and returns the state \<open>io\<close>, which pairs the world with a trace of the external
  calls made so far and their answers; the trace is bookkeeping of the model (the code keeps no
  such list) and is what statements about the order and the number of external calls refer to.
  Later theories extend \<open>io\<close> with the daemon's own variables.

  A device child and a job are opaque handles, numbered by \<open>nat\<close>. A \<open>steady_clock\<close> reading is an
  \<open>int\<close> count of nanoseconds. Opening a device yields the one device of the environment.
\<close>

section \<open>Types of the submitter and messenger libraries\<close>

datatype JobStatus = Done | Canceled | JobStatus_other int

record JobRequest =
  req_format :: CircuitFormat
  req_payload :: "8 word list"
  req_numShots :: "64 word"

datatype Placement = Self | On nat

type_synonym Counts = "(string \<times> 64 word) list"

datatype StatusCode = StatusTimeout | StatusCode_other int

record MessengerError =
  status_code :: StatusCode
  reason :: string

datatype Message =
    TaskMessage QuantumTask
  | ResultMessage QuantumResult
  | BackendMessage Backend

text \<open>The signals of \<open>csignal\<close>: the two the program names, and any other.\<close>

datatype signal = SIGINT | SIGTERM | Signal_other int

type_synonym 'a submitter_result = "(SubmitterError, 'a) expected"

record 'w environment =
  env_terminationRequested :: "'w \<Rightarrow> bool \<times> 'w"
  env_now :: "'w \<Rightarrow> int \<times> 'w"
  env_openDevice :: "string \<Rightarrow> string \<Rightarrow> string option \<Rightarrow> string option \<Rightarrow> 'w \<Rightarrow> unit submitter_result \<times> 'w"
  env_deviceId :: string
  env_qubitsNum :: "'w \<Rightarrow> 64 word submitter_result \<times> 'w"
  env_status :: "'w \<Rightarrow> BackendStatus submitter_result \<times> 'w"
  env_operationNames :: "'w \<Rightarrow> string list submitter_result \<times> 'w"
  env_couplingMap :: "'w \<Rightarrow> (64 word \<times> 64 word) list submitter_result \<times> 'w"
  env_supportedPayloadFormats :: "'w \<Rightarrow> CircuitFormat list submitter_result \<times> 'w"
  env_children :: "'w \<Rightarrow> nat list submitter_result \<times> 'w"
  env_submitJob :: "JobRequest \<Rightarrow> Placement \<Rightarrow> 'w \<Rightarrow> nat submitter_result \<times> 'w"
  env_wait :: "nat \<Rightarrow> int \<Rightarrow> 'w \<Rightarrow> JobStatus submitter_result \<times> 'w"
  env_counts :: "nat \<Rightarrow> 'w \<Rightarrow> Counts submitter_result \<times> 'w"
  env_cancel :: "nat \<Rightarrow> 'w \<Rightarrow> unit submitter_result \<times> 'w"
  env_send :: "string \<Rightarrow> Message \<Rightarrow> 'w \<Rightarrow> (string, unit) expected \<times> 'w"
  env_receiveTask :: "string \<Rightarrow> int \<Rightarrow> 'w \<Rightarrow> (MessengerError, QuantumTask \<times> nat) expected \<times> 'w"
  env_receiveBackend :: "string \<Rightarrow> int \<Rightarrow> 'w \<Rightarrow> (MessengerError, Backend \<times> nat) expected \<times> 'w"
  env_ack :: "nat \<Rightarrow> 'w \<Rightarrow> (string, unit) expected \<times> 'w"
  env_sleep :: "int \<Rightarrow> 'w \<Rightarrow> unit \<times> 'w"
  env_signal :: "signal \<Rightarrow> 'w \<Rightarrow> unit \<times> 'w"
  env_openLogFile :: "string \<Rightarrow> 64 word \<Rightarrow> 64 word \<Rightarrow> 'w \<Rightarrow> (string, unit) expected \<times> 'w"

section \<open>Programs: world and trace\<close>

datatype event =
    FlagRead bool
  | ClockRead int
  | DeviceOpened string string "string option" "string option" "unit submitter_result"
  | QubitsNumRead
  | StatusRead
  | OperationNamesRead
  | CouplingMapRead
  | PayloadFormatsRead
  | ChildrenRead
  | JobSubmitted JobRequest Placement "nat submitter_result"
  | JobWaited nat "JobStatus submitter_result"
  | CountsRead nat "Counts submitter_result"
  | JobCancelled nat "unit submitter_result"
  | MessageSent string Message "(string, unit) expected"
  | TaskPolled string int "(MessengerError, QuantumTask \<times> nat) expected"
  | BackendPolled string int "(MessengerError, Backend \<times> nat) expected"
  | DeliveryAcked nat "(string, unit) expected"
  | Slept int
  | HandlerInstalled signal
  | LogFileOpened string "64 word" "64 word" "(string, unit) expected"

record 'w io =
  world :: 'w
  trace :: "event list"

definition ext_call ::
  "('w \<Rightarrow> 'a \<times> 'w) \<Rightarrow> ('a \<Rightarrow> event) \<Rightarrow> ('w, 'z) io_scheme \<Rightarrow> 'a \<times> ('w, 'z) io_scheme" where
  "ext_call f ev s =
     (let (a, w) = f (world s) in (a, s\<lparr>world := w, trace := trace s @ [ev a]\<rparr>))"

text \<open>
  The termination flag is a parameter of the interruptible functions; a flag is a program that
  reads a Boolean. \<open>terminationRequested\<close> (\<open>Daemon.h\<close>) is set by a signal handler at any time,
  so reading it asks the environment; \<open>NeverTerminates\<close> is the constant the uninterruptible
  overloads pass.
\<close>

type_synonym ('w, 'z) flag = "('w, 'z) io_scheme \<Rightarrow> bool \<times> ('w, 'z) io_scheme"

definition terminationRequested :: "'w environment \<Rightarrow> ('w, 'z) flag" where
  "terminationRequested E s = ext_call (env_terminationRequested E) FlagRead s"

definition NeverTerminates :: "('w, 'z) flag" where
  "NeverTerminates s = (False, s)"

definition Clock_now :: "'w environment \<Rightarrow> ('w, 'z) io_scheme \<Rightarrow> int \<times> ('w, 'z) io_scheme" where
  "Clock_now E s = ext_call (env_now E) ClockRead s"

section \<open>Frame of a program\<close>

text \<open>
  A program extends the trace and leaves everything but the world and the trace alone.
\<close>

definition io_extends :: "('w, 'z) io_scheme \<Rightarrow> ('w, 'z) io_scheme \<Rightarrow> bool" where
  "io_extends s t \<longleftrightarrow> (\<exists>es. trace t = trace s @ es) \<and> io.more t = io.more s"

definition new_events :: "('w, 'z) io_scheme \<Rightarrow> ('w, 'z) io_scheme \<Rightarrow> event list" where
  "new_events s t = drop (length (trace s)) (trace t)"

lemma io_extends_refl [simp, intro]: "io_extends s s"
  by (simp add: io_extends_def)

lemma io_extends_trans [trans]: "io_extends s t \<Longrightarrow> io_extends t u \<Longrightarrow> io_extends s u"
  by (auto simp: io_extends_def)

lemma io_extends_trace: "io_extends s t \<Longrightarrow> trace t = trace s @ new_events s t"
  by (auto simp: io_extends_def new_events_def)

lemma io_extends_more: "io_extends s t \<Longrightarrow> io.more t = io.more s"
  by (simp add: io_extends_def)

lemma new_events_refl [simp]: "new_events s s = []"
  by (simp add: new_events_def)

lemma new_events_eq: "trace t = trace s @ es \<Longrightarrow> new_events s t = es"
  by (simp add: new_events_def)

lemma new_events_trans:
  "io_extends s t \<Longrightarrow> io_extends t u \<Longrightarrow> new_events s u = new_events s t @ new_events t u"
  by (auto simp: io_extends_def new_events_def)

lemma extends_then:
  assumes "io_extends s t" and "io_extends t u"
  shows "io_extends s u" and "new_events s u = new_events s t @ new_events t u"
  using assms io_extends_trans new_events_trans by blast+

lemma ext_call_simps [io_simps]:
  "fst (ext_call f ev s) = fst (f (world s))"
  "world (snd (ext_call f ev s)) = snd (f (world s))"
  "trace (snd (ext_call f ev s)) = trace s @ [ev (fst (f (world s)))]"
  "io.more (snd (ext_call f ev s)) = io.more s"
  by (simp_all add: ext_call_def split: prod.splits)

lemma ext_call_extends: "ext_call f ev s = (a, t) \<Longrightarrow> io_extends s t \<and> new_events s t = [ev a]"
  by (auto simp: ext_call_def io_extends_def new_events_def split: prod.splits)

lemma Clock_now_extends: "Clock_now E s = (a, t) \<Longrightarrow> io_extends s t \<and> new_events s t = [ClockRead a]"
  by (auto simp: Clock_now_def dest: ext_call_extends)

text \<open>A flag that only reads: it adds at most its own reading to the trace.\<close>

definition flag_ok :: "('w, 'z) flag \<Rightarrow> bool" where
  "flag_ok flag \<longleftrightarrow>
     (\<forall>s b t. flag s = (b, t) \<longrightarrow> io_extends s t \<and> (new_events s t = [] \<or> new_events s t = [FlagRead b]))"

lemma flag_okD:
  assumes "flag_ok flag" and "flag s = (b, t)"
  shows "io_extends s t" and "new_events s t = [] \<or> new_events s t = [FlagRead b]"
  using assms unfolding flag_ok_def by blast+

lemma flag_ok_terminationRequested [simp, intro]: "flag_ok (terminationRequested E)"
  by (auto simp: flag_ok_def terminationRequested_def dest: ext_call_extends)

lemma flag_ok_NeverTerminates [simp, intro]: "flag_ok NeverTerminates"
  by (auto simp: flag_ok_def NeverTerminates_def)

section \<open>Programs that make only calls of some kind\<close>

definition emits :: "(event \<Rightarrow> bool) \<Rightarrow> ('w, 'z) io_scheme \<Rightarrow> ('w, 'z) io_scheme \<Rightarrow> bool" where
  "emits A s t \<longleftrightarrow> io_extends s t \<and> list_all A (new_events s t)"

lemma emits_refl [simp, intro]: "emits A s s"
  by (simp add: emits_def)

lemma emits_trans [trans]: "emits A s t \<Longrightarrow> emits A t u \<Longrightarrow> emits A s u"
  using io_extends_trans [of s t u] new_events_trans [of s t u] by (auto simp: emits_def)

lemma emits_mono: "emits A s t \<Longrightarrow> (\<And>e. A e \<Longrightarrow> B e) \<Longrightarrow> emits B s t"
  by (auto simp: emits_def list_all_iff)

lemma emits_trace: "emits A s t \<Longrightarrow> \<exists>es. trace t = trace s @ es \<and> list_all A es"
  using io_extends_trace by (auto simp: emits_def)

lemma emits_ext_call: "ext_call f ev s = (a, t) \<Longrightarrow> A (ev a) \<Longrightarrow> emits A s t"
  by (auto simp: emits_def dest: ext_call_extends)

lemma emits_Clock_now: "Clock_now E s = (now, t) \<Longrightarrow> A (ClockRead now) \<Longrightarrow> emits A s t"
  by (auto simp: Clock_now_def intro: emits_ext_call)

lemma emits_flag:
  assumes "flag_ok flag" and "flag s = (b, t)" and "A (FlagRead b)"
  shows "emits A s t"
proof -
  from assms(1,2) have "io_extends s t" "new_events s t = [] \<or> new_events s t = [FlagRead b]"
    unfolding flag_ok_def by blast+
  with assms(3) show ?thesis by (auto simp: emits_def)
qed

section \<open>Programs that do not use the broker\<close>

fun broker_event :: "event \<Rightarrow> bool" where
  "broker_event (MessageSent _ _ _) = True"
| "broker_event (TaskPolled _ _ _) = True"
| "broker_event (BackendPolled _ _ _) = True"
| "broker_event (DeliveryAcked _ _) = True"
| "broker_event _ = False"

definition silent :: "('w, 'z) io_scheme \<Rightarrow> ('w, 'z) io_scheme \<Rightarrow> bool" where
  "silent s t \<longleftrightarrow> io_extends s t \<and> (\<forall>e \<in> set (new_events s t). \<not> broker_event e)"

lemma silent_emits: "emits A s t \<Longrightarrow> (\<And>e. A e \<Longrightarrow> \<not> broker_event e) \<Longrightarrow> silent s t"
  by (auto simp: emits_def silent_def list_all_iff)

lemma silent_refl [simp, intro]: "silent s s"
  by (simp add: silent_def)

lemma silent_extends: "silent s t \<Longrightarrow> io_extends s t"
  by (simp add: silent_def)

lemma silent_trans [trans]: "silent s t \<Longrightarrow> silent t u \<Longrightarrow> silent s u"
  using io_extends_trans [of s t u] new_events_trans [of s t u] by (auto simp: silent_def)

lemma silent_ext_call: "ext_call f ev s = (a, t) \<Longrightarrow> \<not> broker_event (ev a) \<Longrightarrow> silent s t"
  by (auto simp: silent_def dest: ext_call_extends)

lemma silent_Clock_now: "Clock_now E s = (now, t) \<Longrightarrow> silent s t"
  by (auto simp: Clock_now_def intro: silent_ext_call)

lemma silent_flag:
  assumes "flag_ok flag" and "flag s = (b, t)"
  shows "silent s t"
proof -
  from assms have "io_extends s t" "new_events s t = [] \<or> new_events s t = [FlagRead b]"
    unfolding flag_ok_def by blast+
  then show ?thesis by (auto simp: silent_def)
qed

section \<open>A concrete environment\<close>

text \<open>
  One instance of the parameter \<open>environment\<close>, used only to evaluate witnesses: a world that counts
  external calls that take time, a device that answers every query, accepts every job and finishes
  it at once, and a broker whose queues are empty and that accepts every message.
\<close>

definition sample_env :: "nat environment" where
  "sample_env =
     \<lparr>env_terminationRequested = (\<lambda>w. (False, w)),
      env_now = (\<lambda>w. (int w * 1000000000, Suc w)),
      env_openDevice = (\<lambda>_ _ _ _ w. (Inr (), w)),
      env_deviceId = ''cxxdevice5q'',
      env_qubitsNum = (\<lambda>w. (Inr 5, w)),
      env_status = (\<lambda>w. (Inr BACKEND_STATUS_IDLE, w)),
      env_operationNames = (\<lambda>w. (Inr [''r'', ''cz'', ''measure''], w)),
      env_couplingMap = (\<lambda>w. (Inl \<lparr>code = NotSupported, message = ''coupling map''\<rparr>, w)),
      env_supportedPayloadFormats =
        (\<lambda>w. (Inr [CIRCUIT_FORMAT_QASM2, CIRCUIT_FORMAT_QIRBASESTRING], w)),
      env_children = (\<lambda>w. (Inl \<lparr>code = NotSupported, message = ''children''\<rparr>, w)),
      env_submitJob = (\<lambda>_ _ w. (Inr w, Suc w)),
      env_wait = (\<lambda>_ _ w. (Inr Done, w)),
      env_counts = (\<lambda>_ w. (Inr [(''00'', 6), (''11'', 4)], w)),
      env_cancel = (\<lambda>_ w. (Inr (), w)),
      env_send = (\<lambda>_ _ w. (Inr (), w)),
      env_receiveTask = (\<lambda>_ _ w. (Inl \<lparr>status_code = StatusTimeout, reason = ''empty''\<rparr>, w)),
      env_receiveBackend = (\<lambda>_ _ w. (Inl \<lparr>status_code = StatusTimeout, reason = ''empty''\<rparr>, w)),
      env_ack = (\<lambda>_ w. (Inr (), w)),
      env_sleep = (\<lambda>_ w. ((), Suc w)),
      env_signal = (\<lambda>_ w. ((), w)),
      env_openLogFile = (\<lambda>_ _ _ w. (Inr (), w))\<rparr>"

definition sample_io :: "nat io" where
  "sample_io = \<lparr>world = 0, trace = []\<rparr>"

end
