(* ===== verification/Backend_Wrapper.thy ===== *)
theory Backend_Wrapper
  imports External_Env
begin

text \<open>
  \<open>BackendWrapper\<close> (\<open>include/qrmci/BackendWrapper.h\<close>, \<open>src/BackendWrapper.cpp\<close>): a snapshot of
  one backend, read from the live device or from a published status message, and the questions
  the pipeline asks of it.
\<close>

section \<open>The snapshot\<close>

record BackendWrapper =
  bw_name :: string
  bw_realdevicename :: string
  bw_numQubits :: "32 word"
  bw_type :: BackendType
  bw_status :: BackendStatus
  bw_queueLength :: "32 word"
  bw_currentLoad :: "32 word"
  bw_queueName :: string
  bw_instructions :: "string list"
  bw_qubitConnectivity :: "(32 word \<times> 32 word) list"
  bw_supportedCircuitFormats :: "CircuitFormat list"

text \<open>
  The factory reads five properties of the device in a fixed order. A coupling map the device does
  not support counts as empty; every other failure ends the reading.
\<close>

definition readCouplingMap ::
  "(64 word \<times> 64 word) list submitter_result \<Rightarrow> (64 word \<times> 64 word) list result" where
  "readCouplingMap connectivity =
     (case connectivity of
        Inr couplingMap \<Rightarrow> Inr couplingMap
      | Inl e \<Rightarrow> if code e \<noteq> NotSupported then Inl (toQrmciError DeviceError e) else Inr [])"

definition populateBackend ::
  "string \<Rightarrow> string \<Rightarrow> 64 word \<Rightarrow> BackendStatus \<Rightarrow> string list \<Rightarrow> (64 word \<times> 64 word) list \<Rightarrow>
   CircuitFormat list \<Rightarrow> BackendWrapper" where
  "populateBackend deviceId dispatchQueue numQubits status instructions couplingMap formats =
     \<lparr>bw_name = deviceId, bw_realdevicename = '''', bw_numQubits = ucast numQubits,
      bw_type = BACKEND_TYPE_UNSPECIFIED, bw_status = status, bw_queueLength = 0,
      bw_currentLoad = 0, bw_queueName = dispatchQueue, bw_instructions = instructions,
      bw_qubitConnectivity = map (\<lambda>(firstQubit, secondQubit). (ucast firstQubit, ucast secondQubit)) couplingMap,
      bw_supportedCircuitFormats = formats\<rparr>"

definition fromSubmitter ::
  "'w environment \<Rightarrow> string \<Rightarrow> ('w, 'z) io_scheme \<Rightarrow> BackendWrapper result \<times> ('w, 'z) io_scheme" where
  "fromSubmitter E dispatchQueue s =
     (let (qubits, s) = ext_call (env_qubitsNum E) (\<lambda>_. QubitsNumRead) s in
      case transform_error qubits (toQrmciError DeviceError) of Inl e \<Rightarrow> (Inl e, s) | Inr numQubits \<Rightarrow>
      let (st, s) = ext_call (env_status E) (\<lambda>_. StatusRead) s in
      case transform_error st (toQrmciError DeviceError) of Inl e \<Rightarrow> (Inl e, s) | Inr status \<Rightarrow>
      let (ops, s) = ext_call (env_operationNames E) (\<lambda>_. OperationNamesRead) s in
      case transform_error ops (toQrmciError DeviceError) of Inl e \<Rightarrow> (Inl e, s) | Inr instructions \<Rightarrow>
      let (connectivity, s) = ext_call (env_couplingMap E) (\<lambda>_. CouplingMapRead) s in
      case readCouplingMap connectivity of Inl e \<Rightarrow> (Inl e, s) | Inr couplingMap \<Rightarrow>
      let (fs, s) = ext_call (env_supportedPayloadFormats E) (\<lambda>_. PayloadFormatsRead) s in
      case transform_error fs (toQrmciError DeviceError) of Inl e \<Rightarrow> (Inl e, s) | Inr formats \<Rightarrow>
      (Inr (populateBackend (env_deviceId E) dispatchQueue numQubits status instructions couplingMap formats), s))"

section \<open>Published status messages\<close>

text \<open>The private constructor \<open>BackendWrapper(const mqss::Backend &)\<close>.\<close>

definition BackendWrapper_of :: "protocol \<Rightarrow> Backend \<Rightarrow> BackendWrapper" where
  "BackendWrapper_of P b =
     \<lparr>bw_name = pb_name b, bw_realdevicename = '''', bw_numQubits = pb_num_qubits b,
      bw_type = mapProtoBackendType P (pb_type b),
      bw_status = mapProtoBackendStatus P (pb_status b),
      bw_queueLength = pb_queue_length b, bw_currentLoad = pb_current_load b,
      bw_queueName = pb_queue_name b, bw_instructions = pb_instructions b,
      bw_qubitConnectivity = pb_connectivity b,
      bw_supportedCircuitFormats = map (mapProtoCircuitFormat P) (pb_supported_circuit_formats b)\<rparr>"

definition fromPublishedStatus :: "protocol \<Rightarrow> Backend \<Rightarrow> BackendWrapper result" where
  "fromPublishedStatus P b =
     (if pb_name b = '''' then
        Inl (mk_error MessagingFailed ''Published backend status has an empty name.'')
      else if pb_queue_name b = '''' then
        Inl (mk_error MessagingFailed
          (''Published backend status for '' @ quoted (pb_name b) @ '' has an empty queue_name.''))
      else Inr (BackendWrapper_of P b))"

definition toBackend :: "protocol \<Rightarrow> BackendWrapper \<Rightarrow> Backend" where
  "toBackend P w =
     \<lparr>pb_name = bw_name w, pb_num_qubits = bw_numQubits w,
      pb_type = number (BackendType_enum P) (bw_type w),
      pb_status = number (BackendStatus_enum P) (bw_status w),
      pb_queue_length = bw_queueLength w, pb_current_load = bw_currentLoad w,
      pb_queue_name = bw_queueName w, pb_instructions = bw_instructions w,
      pb_connectivity = bw_qubitConnectivity w,
      pb_supported_circuit_formats = map (number (CircuitFormat_enum P)) (bw_supportedCircuitFormats w)\<rparr>"

section \<open>Questions\<close>

definition isOnline :: "BackendWrapper \<Rightarrow> bool" where
  "isOnline b = isOnlineBackendStatus (bw_status b)"

definition canRun :: "string list \<Rightarrow> BackendWrapper \<Rightarrow> QuantumTask \<Rightarrow> bool" where
  "canRun supportedInputFormats b task =
     (if sint (n_qbits task) < 0 \<or> n_qbits task > bw_numQubits b then False
      else if restricted_resource_names task \<noteq> [] \<and> bw_name b \<notin> set (restricted_resource_names task)
      then False
      else canPrepareTaskForBackend supportedInputFormats task (bw_supportedCircuitFormats b))"

definition compilerTarget :: "BackendWrapper \<Rightarrow> CompilerTarget result" where
  "compilerTarget b = chooseCompilerTarget (bw_supportedCircuitFormats b)"

section \<open>Lemmas\<close>

text \<open>A snapshot whose enumerations all survive the wire.\<close>

definition wrapper_known :: "protocol \<Rightarrow> BackendWrapper \<Rightarrow> bool" where
  "wrapper_known P w \<longleftrightarrow>
     wire_known (BackendType_enum P) (bw_type w) \<and>
     wire_known (BackendStatus_enum P) (bw_status w) \<and>
     list_all (wire_known (CircuitFormat_enum P)) (bw_supportedCircuitFormats w) \<and>
     bw_realdevicename w = ''''"

lemma BackendWrapper_of_known: "protocol_ok P \<Longrightarrow> wrapper_known P (BackendWrapper_of P b)"
  by (simp add: wrapper_known_def BackendWrapper_of_def mapProto_wire_known list_all_iff)

lemma BackendWrapper_of_toBackend: "wrapper_known P w \<Longrightarrow> BackendWrapper_of P (toBackend P w) = w"
  by (cases w) (auto simp: wrapper_known_def BackendWrapper_of_def toBackend_def mapProto_number
      list_all_iff intro: map_idI)

lemma fromPublishedStatus_Inr_iff:
  "fromPublishedStatus P b = Inr w \<longleftrightarrow>
     pb_name b \<noteq> '''' \<and> pb_queue_name b \<noteq> '''' \<and> w = BackendWrapper_of P b"
  by (auto simp: fromPublishedStatus_def)

lemma fromPublishedStatus_routing:
  "fromPublishedStatus P b = Inr w \<Longrightarrow> bw_name w \<noteq> '''' \<and> bw_queueName w \<noteq> ''''"
  by (auto simp: fromPublishedStatus_Inr_iff BackendWrapper_of_def)

lemma fromPublishedStatus_error_kind: "fromPublishedStatus P b = Inl e \<Longrightarrow> kind e = MessagingFailed"
  by (auto simp: fromPublishedStatus_def split: if_splits)

lemma nonneg_sint_uint:
  fixes x :: "32 word"
  assumes "0 \<le> sint x"
  shows "sint x = uint x"
proof -
  have "sint x < 2 ^ 31" using sint_lt [of x] by simp
  then have "take_bit 32 (sint x) = sint x" using assms by (simp add: take_bit_int_eq_self)
  then show ?thesis by (simp add: uint_sint)
qed

text \<open>The reads of \<open>fromSubmitter\<close>, in order.\<close>

definition device_reads :: "event list" where
  "device_reads = [QubitsNumRead, StatusRead, OperationNamesRead, CouplingMapRead, PayloadFormatsRead]"

lemma readCouplingMap_error: "readCouplingMap c = Inl e \<Longrightarrow> kind e = DeviceError"
  by (auto simp: readCouplingMap_def split: sum.splits if_splits)

lemma transform_error_kind: "transform_error m (toQrmciError k) = Inl e \<Longrightarrow> kind e = k"
  by (cases m) auto

lemma fromSubmitter_extends: "fromSubmitter E q s = (r, t) \<Longrightarrow> io_extends s t"
  unfolding fromSubmitter_def Let_def ext_call_def io_extends_def
  by (auto split: prod.splits sum.splits)

lemma fromSubmitter_error_kind: "fromSubmitter E q s = (Inl e, t) \<Longrightarrow> kind e = DeviceError"
  unfolding fromSubmitter_def Let_def
  by (auto split: prod.splits sum.splits dest: transform_error_kind readCouplingMap_error)

lemma fromSubmitter_reads:
  "fromSubmitter E q s = (r, t) \<Longrightarrow>
     (\<exists>n. 0 < n \<and> n \<le> 5 \<and> new_events s t = take n device_reads) \<and>
     (has_value r \<longrightarrow> new_events s t = device_reads)"
  unfolding fromSubmitter_def Let_def ext_call_def new_events_def device_reads_def
  by (auto split: prod.splits sum.splits intro: exI [of _ 1] exI [of _ 2] exI [of _ 3] exI [of _ 4] exI [of _ 5])

lemma fromSubmitter_fields:
  "fromSubmitter E q s = (Inr b, t) \<Longrightarrow>
     bw_name b = env_deviceId E \<and> bw_queueName b = q \<and> bw_realdevicename b = '''' \<and>
     bw_type b = BACKEND_TYPE_UNSPECIFIED \<and> bw_queueLength b = 0 \<and> bw_currentLoad b = 0"
  unfolding fromSubmitter_def Let_def
  by (auto simp: populateBackend_def split: prod.splits sum.splits)

text \<open>A device that reports only enumerators the protocol knows.\<close>

definition device_known :: "protocol \<Rightarrow> 'w environment \<Rightarrow> bool" where
  "device_known P E \<longleftrightarrow>
     (\<forall>w st. fst (env_status E w) = Inr st \<longrightarrow> wire_known (BackendStatus_enum P) st) \<and>
     (\<forall>w fs. fst (env_supportedPayloadFormats E w) = Inr fs \<longrightarrow> list_all (wire_known (CircuitFormat_enum P)) fs)"

lemma fromSubmitter_known:
  assumes "protocol_ok P" and "device_known P E" and "fromSubmitter E q s = (Inr b, t)"
  shows "wrapper_known P b"
proof -
  from assms(3) obtain n st ops cm fs where b: "b = populateBackend (env_deviceId E) q n st ops cm fs"
    and st: "\<exists>w. fst (env_status E w) = Inr st" and fs: "\<exists>w. fst (env_supportedPayloadFormats E w) = Inr fs"
    unfolding fromSubmitter_def Let_def ext_call_def
    by (auto split: prod.splits sum.splits simp: transform_error_def) (metis fst_conv)+
  from st fs assms(2) have "wire_known (BackendStatus_enum P) st" "list_all (wire_known (CircuitFormat_enum P)) fs"
    unfolding device_known_def by blast+
  moreover have "wire_known (BackendType_enum P) BACKEND_TYPE_UNSPECIFIED"
    using assms(1) wire_known_unspecified by (auto simp: protocol_ok_def)
  ultimately show ?thesis by (simp add: b wrapper_known_def populateBackend_def)
qed

lemma canRun_scheduled_qpu [simp]: "canRun sif b (task\<lparr>scheduled_qpu := n\<rparr>) = canRun sif b task"
  unfolding canRun_def canPrepareTaskForBackend_def by simp

section \<open>Properties\<close>

text \<open>A backend admits a task exactly when the requested qubit count, read as a signed number,
  lies between zero and the backend's unsigned qubit count, the task's allow-list is empty or names
  the backend, and the task's circuit can be prepared for one of the backend's formats. In
  particular the unsigned comparison in the code never lets a negative request through.\<close>

theorem canRun_iff:
  "canRun sif b task \<longleftrightarrow>
     0 \<le> sint (n_qbits task) \<and> sint (n_qbits task) \<le> uint (bw_numQubits b) \<and>
     (restricted_resource_names task = [] \<or> bw_name b \<in> set (restricted_resource_names task)) \<and>
     canPrepareTaskForBackend sif task (bw_supportedCircuitFormats b)"
proof (cases "0 \<le> sint (n_qbits task)")
  case True
  then show ?thesis
    by (auto simp: canRun_def word_less_def nonneg_sint_uint)
next
  case False
  then show ?thesis by (simp add: canRun_def)
qed

text \<open>C37: Publishing and reading back a backend status is lossless: a snapshot with a name, a
  dispatch queue and only enumerators the protocol knows is the same snapshot after \<open>toBackend\<close> and
  \<open>fromPublishedStatus\<close>; and every snapshot that \<open>fromPublishedStatus\<close> accepts from any message,
  whatever raw enumeration numbers it carries, is such a snapshot.\<close>

theorem published_status_roundtrip:
  assumes "protocol_ok P"
  shows "(wrapper_known P w \<and> bw_name w \<noteq> '''' \<and> bw_queueName w \<noteq> '''' \<longrightarrow>
            fromPublishedStatus P (toBackend P w) = Inr w) \<and>
         (fromPublishedStatus P b = Inr v \<longrightarrow>
            wrapper_known P v \<and> bw_name v \<noteq> '''' \<and> bw_queueName v \<noteq> '''')"
proof (intro conjI impI)
  assume "wrapper_known P w \<and> bw_name w \<noteq> '''' \<and> bw_queueName w \<noteq> ''''"
  then show "fromPublishedStatus P (toBackend P w) = Inr w"
    by (simp add: fromPublishedStatus_Inr_iff BackendWrapper_of_toBackend) (simp add: toBackend_def)
next
  assume v: "fromPublishedStatus P b = Inr v"
  then show "wrapper_known P v"
    using assms by (simp add: fromPublishedStatus_Inr_iff BackendWrapper_of_known)
  from v show "bw_name v \<noteq> ''''" and "bw_queueName v \<noteq> ''''"
    using fromPublishedStatus_routing by blast+
qed

definition sample_backend :: BackendWrapper where
  "sample_backend =
     \<lparr>bw_name = ''alpha'', bw_realdevicename = '''', bw_numQubits = 5,
      bw_type = BACKEND_TYPE_UNSPECIFIED, bw_status = BACKEND_STATUS_IDLE, bw_queueLength = 0,
      bw_currentLoad = 0, bw_queueName = ''compiler.alpha'', bw_instructions = [''r'', ''cz'', ''measure''],
      bw_qubitConnectivity = [(0, 1), (1, 2)],
      bw_supportedCircuitFormats = [CIRCUIT_FORMAT_QASM2, CIRCUIT_FORMAT_QIRBASESTRING]\<rparr>"

theorem published_status_roundtrip_witness:
  "fromPublishedStatus sample_protocol (toBackend sample_protocol sample_backend) = Inr sample_backend \<and>
   wrapper_known sample_protocol sample_backend"
proof -
  have "wrapper_known sample_protocol sample_backend \<and> bw_name sample_backend \<noteq> '''' \<and>
        bw_queueName sample_backend \<noteq> ''''"
    by (simp add: wrapper_known_def sample_backend_def wire_known_def sample_protocol_def
        sample_status_of_number_def sample_format_of_number_def)
  then show ?thesis
    using published_status_roundtrip [OF sample_protocol_ok, of sample_backend] by blast
qed

text \<open>A half-read device never becomes a backend. Reading a device asks for its five properties
  in a fixed order and stops at the first one that fails; a snapshot is returned only after all five
  reads, it carries the device's identifier and the given dispatch queue, and any failure is reported
  as a \<open>DeviceError\<close>.\<close>

theorem fromSubmitter_all_or_nothing:
  assumes "fromSubmitter E dispatchQueue s = (r, t)"
  shows "io_extends s t \<and>
         (\<exists>n. 0 < n \<and> n \<le> 5 \<and> new_events s t = take n device_reads) \<and>
         (case r of
            Inl e \<Rightarrow> kind e = DeviceError
          | Inr b \<Rightarrow> new_events s t = device_reads \<and> bw_name b = env_deviceId E \<and>
                      bw_queueName b = dispatchQueue)"
proof (cases r)
  case (Inl e)
  with assms show ?thesis
    using fromSubmitter_extends fromSubmitter_reads fromSubmitter_error_kind by fastforce
next
  case (Inr b)
  with assms show ?thesis
    using fromSubmitter_extends fromSubmitter_reads fromSubmitter_fields by fastforce
qed

theorem fromSubmitter_all_or_nothing_witness:
  "\<exists>b t. fromSubmitter sample_env ''compiler.q'' sample_io = (Inr b, t) \<and>
     new_events sample_io t = device_reads \<and> bw_name b = ''cxxdevice5q''"
proof -
  obtain r t where rt: "fromSubmitter sample_env ''compiler.q'' sample_io = (r, t)"
    by (cases "fromSubmitter sample_env ''compiler.q'' sample_io")
  moreover from rt obtain b where "r = Inr b"
    by (auto simp: fromSubmitter_def ext_call_def sample_env_def readCouplingMap_def)
  ultimately show ?thesis
    using fromSubmitter_all_or_nothing [OF rt] by (simp add: sample_env_def)
qed

end
