(* ===== verification/Backend_Registry.thy ===== *)
theory Backend_Registry
  imports Backend_Wrapper
begin

text \<open>
  \<open>BackendRegistry\<close> (\<open>include/qrmci/BackendRegistry.h\<close>, \<open>src/BackendRegistry.cpp\<close>): the backends
  a process knows, keyed and iterated by name, each stamped with the time of its last refresh. The
  \<open>std::map\<close> is a strictly sorted association list; a time point and the time-to-live are counts of
  the steady clock's nanoseconds.
\<close>

section \<open>State and operations\<close>

datatype BackendSelectionPolicy = LowestName | SmallestSufficient

record Entry =
  entry_backend :: BackendWrapper
  lastRefreshed :: int

record BackendRegistry =
  entries :: "(string \<times> Entry) list"
  entryTimeToLive :: int

definition DefaultTimeToLive :: int where
  "DefaultTimeToLive = 30 * 1000000000"

definition BackendRegistry_new :: "int \<Rightarrow> BackendRegistry" where
  "BackendRegistry_new timeToLive = \<lparr>entries = [], entryTimeToLive = timeToLive\<rparr>"

definition insertOrRefresh :: "BackendWrapper \<Rightarrow> int \<Rightarrow> BackendRegistry \<Rightarrow> bool \<times> BackendRegistry" where
  "insertOrRefresh b now r =
     (let n = bw_name b;
          conflict = (case map_of (entries r) n of
            None \<Rightarrow> False
          | Some e \<Rightarrow> bw_queueName (entry_backend e) \<noteq> '''' \<and> bw_queueName b \<noteq> '''' \<and>
              bw_queueName (entry_backend e) \<noteq> bw_queueName b)
      in if conflict then (False, r)
         else (True, r\<lparr>entries := map_insert n \<lparr>entry_backend = b, lastRefreshed = now\<rparr> (entries r)\<rparr>))"

definition expire :: "int \<Rightarrow> BackendRegistry \<Rightarrow> nat \<times> BackendRegistry" where
  "expire now r =
     (let kept = filter (\<lambda>(_, e). \<not> (now - lastRefreshed e > entryTimeToLive r)) (entries r)
      in (length (entries r) - length kept, r\<lparr>entries := kept\<rparr>))"

definition registry_find :: "BackendRegistry \<Rightarrow> string \<Rightarrow> BackendWrapper option" where
  "registry_find r backendName = map_option entry_backend (map_of (entries r) backendName)"

definition registry_contains :: "BackendRegistry \<Rightarrow> string \<Rightarrow> bool" where
  "registry_contains r backendName = (map_of (entries r) backendName \<noteq> None)"

definition registry_size :: "BackendRegistry \<Rightarrow> nat" where
  "registry_size r = length (entries r)"

definition registry_empty :: "BackendRegistry \<Rightarrow> bool" where
  "registry_empty r = (entries r = [])"

definition forEachBackend :: "('a \<Rightarrow> string \<Rightarrow> BackendWrapper \<Rightarrow> 'a) \<Rightarrow> 'a \<Rightarrow> BackendRegistry \<Rightarrow> 'a" where
  "forEachBackend fn a r = foldl (\<lambda>a (backendName, e). fn a backendName (entry_backend e)) a (entries r)"

section \<open>The interface other components rely on\<close>

text \<open>
  What the selection and the daemons use of a registry: a lookup, the sequence of backends a
  traversal visits, and the laws between the two. Clients are proved against this interface.
\<close>

locale backend_directory =
  fixes invar :: "'r \<Rightarrow> bool"
    and lookup :: "'r \<Rightarrow> string \<Rightarrow> BackendWrapper option"
    and visits :: "'r \<Rightarrow> (string \<times> BackendWrapper) list"
  assumes lookup_visits: "invar r \<Longrightarrow> lookup r n = map_of (visits r) n"
    and visits_sorted: "invar r \<Longrightarrow> strictly_sorted (map fst (visits r))"
    and visits_named: "invar r \<Longrightarrow> (n, b) \<in> set (visits r) \<Longrightarrow> bw_name b = n"
begin

lemma visits_distinct: "invar r \<Longrightarrow> distinct (map fst (visits r))"
  by (rule strictly_sorted_distinct [OF visits_sorted])

lemma lookup_Some_iff: "invar r \<Longrightarrow> lookup r n = Some b \<longleftrightarrow> (n, b) \<in> set (visits r)"
  by (simp add: lookup_visits visits_distinct)

lemma lookup_named: "invar r \<Longrightarrow> lookup r n = Some b \<Longrightarrow> bw_name b = n"
  using visits_named by (simp add: lookup_Some_iff)

lemma visited_lookup: "invar r \<Longrightarrow> b \<in> snd ` set (visits r) \<Longrightarrow> lookup r (bw_name b) = Some b"
  using visits_named by (auto simp: lookup_Some_iff)

lemma visited_unique:
  "invar r \<Longrightarrow> b \<in> snd ` set (visits r) \<Longrightarrow> c \<in> snd ` set (visits r) \<Longrightarrow> bw_name b = bw_name c \<Longrightarrow> b = c"
  using visited_lookup by (metis option.inject)

text \<open>A traversal depends on the contents only, not on how they were inserted.\<close>

lemma visits_determined:
  assumes "invar r" and "invar r'" and "lookup r = lookup r'"
  shows "visits r = visits r'"
  using assms by (intro sorted_alist_unique) (auto simp: visits_sorted fun_eq_iff lookup_visits)

end

section \<open>The registry provides the interface\<close>

definition registry_wf :: "BackendRegistry \<Rightarrow> bool" where
  "registry_wf r \<longleftrightarrow>
     strictly_sorted (map fst (entries r)) \<and> (\<forall>(n, e) \<in> set (entries r). bw_name (entry_backend e) = n)"

definition registry_visits :: "BackendRegistry \<Rightarrow> (string \<times> BackendWrapper) list" where
  "registry_visits r = map (\<lambda>(n, e). (n, entry_backend e)) (entries r)"

lemma map_of_registry_visits: "map_of (registry_visits r) n = registry_find r n"
  by (simp add: registry_visits_def registry_find_def map_of_map)

lemma map_fst_registry_visits: "map fst (registry_visits r) = map fst (entries r)"
  by (simp add: registry_visits_def split_def)

lemma forEachBackend_visits:
  "forEachBackend fn a r = foldl (\<lambda>a (n, b). fn a n b) a (registry_visits r)"
proof -
  have "foldl (\<lambda>a (n, e). fn a n (entry_backend e)) a es =
        foldl (\<lambda>a (n, b). fn a n b) a (map (\<lambda>(n, e). (n, entry_backend e)) es)" for es
    by (induction es arbitrary: a) (auto split: prod.splits)
  then show ?thesis by (simp add: forEachBackend_def registry_visits_def)
qed

interpretation registry: backend_directory registry_wf registry_find registry_visits
proof unfold_locales
  fix r n
  show "registry_find r n = map_of (registry_visits r) n"
    by (simp add: map_of_registry_visits)
next
  fix r
  assume "registry_wf r"
  then show "strictly_sorted (map fst (registry_visits r))"
    by (simp add: registry_wf_def map_fst_registry_visits)
next
  fix r n b
  assume "registry_wf r" and "(n, b) \<in> set (registry_visits r)"
  then show "bw_name b = n"
    by (auto simp: registry_wf_def registry_visits_def)
qed

section \<open>The abstract view: a map from names to stamped backends\<close>

definition registry_abs :: "BackendRegistry \<Rightarrow> (string \<rightharpoonup> BackendWrapper \<times> int)" where
  "registry_abs r = (\<lambda>n. map_option (\<lambda>e. (entry_backend e, lastRefreshed e)) (map_of (entries r) n))"

definition queue_conflict :: "BackendWrapper \<Rightarrow> BackendWrapper \<Rightarrow> bool" where
  "queue_conflict old new \<longleftrightarrow>
     bw_queueName old \<noteq> '''' \<and> bw_queueName new \<noteq> '''' \<and> bw_queueName old \<noteq> bw_queueName new"

definition spec_insert ::
  "BackendWrapper \<Rightarrow> int \<Rightarrow> (string \<rightharpoonup> BackendWrapper \<times> int) \<Rightarrow> (string \<rightharpoonup> BackendWrapper \<times> int)" where
  "spec_insert b now m =
     (case m (bw_name b) of
        Some (old, _) \<Rightarrow> if queue_conflict old b then m else m(bw_name b \<mapsto> (b, now))
      | None \<Rightarrow> m(bw_name b \<mapsto> (b, now)))"

definition spec_expire ::
  "int \<Rightarrow> int \<Rightarrow> (string \<rightharpoonup> BackendWrapper \<times> int) \<Rightarrow> (string \<rightharpoonup> BackendWrapper \<times> int)" where
  "spec_expire ttl now m =
     (\<lambda>n. case m n of None \<Rightarrow> None | Some (b, t) \<Rightarrow> if now - t > ttl then None else Some (b, t))"

lemma registry_find_abs [registry_simps]: "registry_find r n = map_option fst (registry_abs r n)"
  by (simp add: registry_find_def registry_abs_def option.map_comp comp_def)

lemma registry_contains_abs [registry_simps]: "registry_contains r n \<longleftrightarrow> registry_abs r n \<noteq> None"
  by (simp add: registry_contains_def registry_abs_def)

lemma registry_abs_new [registry_simps]: "registry_abs (BackendRegistry_new ttl) = Map.empty"
  by (simp add: registry_abs_def BackendRegistry_new_def)

lemma registry_abs_insert [registry_simps]:
  "registry_abs (snd (insertOrRefresh b now r)) = spec_insert b now (registry_abs r)"
  by (auto simp: insertOrRefresh_def registry_abs_def spec_insert_def queue_conflict_def Let_def fun_eq_iff
      split: option.splits)

lemma insertOrRefresh_accepts [registry_simps]:
  "fst (insertOrRefresh b now r) \<longleftrightarrow>
     (\<forall>old. registry_find r (bw_name b) = Some old \<longrightarrow> \<not> queue_conflict old b)"
  by (auto simp: insertOrRefresh_def registry_find_def queue_conflict_def Let_def split: option.splits)

lemma registry_abs_expire [registry_simps]:
  assumes "registry_wf r"
  shows "registry_abs (snd (expire now r)) = spec_expire (entryTimeToLive r) now (registry_abs r)"
  using assms strictly_sorted_distinct [of "map fst (entries r)"]
  by (auto simp: expire_def registry_abs_def spec_expire_def Let_def fun_eq_iff registry_wf_def
      map_of_filter_distinct split: option.splits)

lemma timeToLive_ops [simp]:
  "entryTimeToLive (snd (insertOrRefresh b now r)) = entryTimeToLive r"
  "entryTimeToLive (snd (expire now r)) = entryTimeToLive r"
  by (simp_all add: insertOrRefresh_def expire_def Let_def)

lemma registry_wf_new [simp, intro]: "registry_wf (BackendRegistry_new ttl)"
  by (simp add: registry_wf_def BackendRegistry_new_def strictly_sorted_def)

lemma registry_wf_insert [intro]: "registry_wf r \<Longrightarrow> registry_wf (snd (insertOrRefresh b now r))"
  by (auto simp: insertOrRefresh_def registry_wf_def Let_def strictly_sorted_map_insert
      dest!: set_map_insert split: if_splits)

lemma registry_wf_expire [intro]: "registry_wf r \<Longrightarrow> registry_wf (snd (expire now r))"
  by (auto simp: expire_def registry_wf_def Let_def strictly_sorted_filter)

section \<open>Runs of operations\<close>

datatype registry_op = InsertOrRefresh BackendWrapper int | Expire int

fun run_op :: "registry_op \<Rightarrow> BackendRegistry \<Rightarrow> BackendRegistry" where
  "run_op (InsertOrRefresh b now) r = snd (insertOrRefresh b now r)"
| "run_op (Expire now) r = snd (expire now r)"

fun spec_op ::
  "int \<Rightarrow> registry_op \<Rightarrow> (string \<rightharpoonup> BackendWrapper \<times> int) \<Rightarrow> (string \<rightharpoonup> BackendWrapper \<times> int)" where
  "spec_op ttl (InsertOrRefresh b now) m = spec_insert b now m"
| "spec_op ttl (Expire now) m = spec_expire ttl now m"

lemma run_op_wf: "registry_wf r \<Longrightarrow> registry_wf (run_op op r)"
  by (cases op) auto

lemma run_op_ttl [simp]: "entryTimeToLive (run_op op r) = entryTimeToLive r"
  by (cases op) simp_all

lemma run_op_abs: "registry_wf r \<Longrightarrow> registry_abs (run_op op r) = spec_op (entryTimeToLive r) op (registry_abs r)"
  by (cases op) (simp_all add: registry_simps)

text \<open>
  One update of a selector's registry: a published status that passed validation is applied, or
  stale entries are dropped.
\<close>

inductive published_step :: "protocol \<Rightarrow> BackendRegistry \<Rightarrow> BackendRegistry \<Rightarrow> bool" for P where
  status: "fromPublishedStatus P msg = Inr b \<Longrightarrow> published_step P r (snd (insertOrRefresh b now r))"
| stale: "published_step P r (snd (expire now r))"

inductive_cases published_stepE: "published_step P r r'"

text \<open>A sequence of updates during which a name stays registered.\<close>

inductive registered_throughout :: "protocol \<Rightarrow> string \<Rightarrow> BackendRegistry \<Rightarrow> BackendRegistry \<Rightarrow> bool" for P n where
  here: "registry_contains r n \<Longrightarrow> registered_throughout P n r r"
| update: "registered_throughout P n r r' \<Longrightarrow> published_step P r' r'' \<Longrightarrow> registry_contains r'' n \<Longrightarrow>
     registered_throughout P n r r''"

definition all_queued :: "BackendRegistry \<Rightarrow> bool" where
  "all_queued r \<longleftrightarrow> (\<forall>n b. registry_find r n = Some b \<longrightarrow> bw_queueName b \<noteq> '''')"

definition dispatch_queue :: "BackendRegistry \<Rightarrow> string \<Rightarrow> string option" where
  "dispatch_queue r n = map_option bw_queueName (registry_find r n)"

lemma spec_insert_apply:
  "spec_insert b now m n =
     (if n = bw_name b \<and> (\<forall>old t. m n = Some (old, t) \<longrightarrow> \<not> queue_conflict old b)
      then Some (b, now) else m n)"
  by (auto simp: spec_insert_def split: option.splits)

lemma published_step_wf: "published_step P r r' \<Longrightarrow> registry_wf r \<Longrightarrow> registry_wf r'"
  by (auto elim: published_stepE)

lemma published_step_all_queued:
  assumes "published_step P r r'" and "registry_wf r" and "all_queued r"
  shows "all_queued r'"
  using assms
proof (cases rule: published_step.cases)
  case (status msg b now)
  then have "bw_queueName b \<noteq> ''''" using fromPublishedStatus_routing by blast
  with status assms(3) show ?thesis
    by (auto simp: all_queued_def registry_simps spec_insert_apply split: if_splits)
next
  case (stale now)
  with assms(2,3) show ?thesis
    by (auto simp: all_queued_def registry_simps spec_expire_def split: option.splits if_splits)
qed

lemma published_step_queue:
  assumes "published_step P r r'" and "registry_wf r" and "all_queued r"
    and "registry_contains r n" and "registry_contains r' n"
  shows "dispatch_queue r' n = dispatch_queue r n"
  using assms(1)
proof (cases rule: published_step.cases)
  case (status msg b now)
  then have "bw_queueName b \<noteq> ''''" using fromPublishedStatus_routing by blast
  with status assms(3,4) show ?thesis
    by (auto simp: dispatch_queue_def all_queued_def registry_simps spec_insert_apply queue_conflict_def)
next
  case (stale now)
  with assms(2,5) show ?thesis
    by (auto simp: dispatch_queue_def registry_simps spec_expire_def split: option.splits if_splits)
qed

section \<open>Properties\<close>

text \<open>C20: The registry refines a map from names to stamped backends: starting from a well-formed
  registry, any sequence of insertions and expirations keeps the \<open>std::map\<close> sorted by name and
  consistent with the names of the backends it holds, and acts on its contents as the abstract
  operations do (insert unless the dispatch queue conflicts, drop what is older than the
  time-to-live).\<close>

theorem registry_refines_map:
  assumes "registry_wf r"
  shows "registry_wf (fold run_op ops r) \<and>
         registry_abs (fold run_op ops r) = fold (spec_op (entryTimeToLive r)) ops (registry_abs r)"
  using assms
proof (induction ops arbitrary: r)
  case Nil
  then show ?case by simp
next
  case (Cons op ops)
  from Cons.IH [of "run_op op r"] Cons.prems show ?case
    by (simp add: run_op_wf run_op_abs)
qed

theorem registry_refines_map_witness:
  "registry_wf (fold run_op [InsertOrRefresh sample_backend 5, Expire 20] (BackendRegistry_new 10)) \<and>
   registry_abs (fold run_op [InsertOrRefresh sample_backend 5, Expire 20] (BackendRegistry_new 10)) ''alpha'' = None"
  using registry_refines_map [of "BackendRegistry_new 10" "[InsertOrRefresh sample_backend 5, Expire 20]"]
  by (simp add: registry_abs_new spec_insert_def spec_expire_def sample_backend_def)
    (simp add: BackendRegistry_new_def)

text \<open>Expiry is exact: after \<open>expire\<close> at a time, a name is still registered if and only if its
  entry was refreshed no longer ago than the time-to-live, the surviving backends are unchanged, and
  the returned number is the number of entries dropped.\<close>

theorem expire_exact:
  assumes "registry_wf r" and "expire now r = (dropped, r')"
  shows "(registry_find r' n = Some b \<longleftrightarrow>
            (\<exists>t. registry_abs r n = Some (b, t) \<and> now - t \<le> entryTimeToLive r)) \<and>
         registry_size r = registry_size r' + dropped"
proof -
  from assms(2) have r': "r' = snd (expire now r)" by simp
  have "registry_find r' n = Some b \<longleftrightarrow>
          (\<exists>t. registry_abs r n = Some (b, t) \<and> now - t \<le> entryTimeToLive r)"
    unfolding r' using assms(1)
    by (auto simp: registry_find_abs registry_abs_expire spec_expire_def split: option.splits if_splits)
  moreover have "registry_size r = registry_size r' + dropped"
    using assms(2) by (auto simp: expire_def registry_size_def Let_def)
  ultimately show ?thesis by blast
qed

definition sample_registry :: BackendRegistry where
  "sample_registry = snd (insertOrRefresh sample_backend 0 (BackendRegistry_new DefaultTimeToLive))"

lemma sample_registry_wf: "registry_wf sample_registry"
  by (auto simp: sample_registry_def)

theorem expire_exact_witness:
  "registry_find (snd (expire 30000000000 sample_registry)) ''alpha'' = Some sample_backend \<and>
   registry_find (snd (expire 30000000001 sample_registry)) ''alpha'' = None"
proof -
  have abs: "registry_abs sample_registry ''alpha'' = Some (sample_backend, 0)"
    by (simp add: sample_registry_def registry_simps spec_insert_def) (simp add: sample_backend_def)
  have ttl: "entryTimeToLive sample_registry = 30000000000"
    by (simp add: sample_registry_def) (simp add: BackendRegistry_new_def DefaultTimeToLive_def)
  show ?thesis
    using expire_exact [OF sample_registry_wf, of 30000000000 _ _ "''alpha''" sample_backend, OF prod.collapse [symmetric]]
      expire_exact [OF sample_registry_wf, of 30000000001 _ _ "''alpha''", OF prod.collapse [symmetric]]
    by (cases "registry_find (snd (expire 30000000001 sample_registry)) ''alpha''") (auto simp: abs ttl)
qed

text \<open>C24: Routing is stable: while a backend name stays registered in a registry that is only
  updated by validated published statuses and by expiry, its dispatch queue never changes, whatever
  the statuses say; a conflicting status is refused rather than applied.\<close>

theorem dispatch_queue_stable:
  assumes "registered_throughout P n r r'" and "registry_wf r" and "all_queued r"
  shows "dispatch_queue r' n = dispatch_queue r n \<and> dispatch_queue r' n \<noteq> None"
proof -
  have "registry_wf r' \<and> all_queued r' \<and> registry_contains r' n \<and> dispatch_queue r' n = dispatch_queue r n"
    using assms
  proof (induction rule: registered_throughout.induct)
    case (here r)
    then show ?case by simp
  next
    case (update r r' r'')
    then show ?case
      by (metis published_step_wf published_step_all_queued published_step_queue)
  qed
  then have "registry_contains r' n" and eq: "dispatch_queue r' n = dispatch_queue r n" by simp_all
  from this(1) have "dispatch_queue r' n \<noteq> None"
    by (auto simp: dispatch_queue_def registry_simps)
  with eq show ?thesis by simp
qed

theorem dispatch_queue_stable_witness:
  "dispatch_queue (snd (insertOrRefresh (BackendWrapper_of sample_protocol
       (toBackend sample_protocol (sample_backend\<lparr>bw_queueName := ''hijack''\<rparr>))) 7 sample_registry)) ''alpha'' =
   Some ''compiler.alpha''"
proof -
  let ?b = "BackendWrapper_of sample_protocol (toBackend sample_protocol (sample_backend\<lparr>bw_queueName := ''hijack''\<rparr>))"
  let ?r = "snd (insertOrRefresh ?b 7 sample_registry)"
  have name: "bw_name ?b = ''alpha''" by (simp add: BackendWrapper_of_def toBackend_def sample_backend_def)
  have abs: "registry_abs sample_registry = [''alpha'' \<mapsto> (sample_backend, 0)]"
    by (simp add: sample_registry_def registry_simps spec_insert_def) (simp add: sample_backend_def)
  have here: "registry_contains sample_registry ''alpha''" by (simp add: registry_simps abs)
  have there: "registry_contains ?r ''alpha''"
    by (simp add: registry_simps spec_insert_apply abs name)
  have pub: "fromPublishedStatus sample_protocol
      (toBackend sample_protocol (sample_backend\<lparr>bw_queueName := ''hijack''\<rparr>)) = Inr ?b"
    by (simp add: fromPublishedStatus_def) (simp add: toBackend_def sample_backend_def)
  have "registered_throughout sample_protocol ''alpha'' sample_registry ?r"
    by (rule registered_throughout.update [OF registered_throughout.here [OF here]
          published_step.status [OF pub] there])
  moreover have "all_queued sample_registry"
    by (auto simp: all_queued_def registry_simps abs) (simp add: sample_backend_def)
  ultimately have "dispatch_queue ?r ''alpha'' = dispatch_queue sample_registry ''alpha''"
    using dispatch_queue_stable [OF _ sample_registry_wf] by blast
  also have "\<dots> = Some ''compiler.alpha''"
    by (simp add: dispatch_queue_def registry_simps abs) (simp add: sample_backend_def)
  finally show ?thesis .
qed

end
