(* ===== verification/Backend_Selection.thy ===== *)
theory Backend_Selection
  imports Backend_Registry "HOL-Library.Product_Lexorder"
begin

text \<open>
  \<open>chooseBackend\<close> and \<open>beatsIncumbent\<close> (\<open>src/Runners.cpp\<close>): the preferred backend if it is
  usable, otherwise the best usable backend of the registry under the configured policy.
\<close>

section \<open>Definitions\<close>

definition beatsIncumbent :: "BackendWrapper \<Rightarrow> BackendWrapper \<Rightarrow> BackendSelectionPolicy \<Rightarrow> bool" where
  "beatsIncumbent candidate incumbent policy =
     (case policy of
        SmallestSufficient \<Rightarrow>
          if bw_numQubits candidate \<noteq> bw_numQubits incumbent
          then bw_numQubits candidate < bw_numQubits incumbent
          else bw_name candidate < bw_name incumbent
      | LowestName \<Rightarrow> bw_name candidate < bw_name incumbent)"

definition considerBackend ::
  "string list \<Rightarrow> QuantumTask \<Rightarrow> BackendSelectionPolicy \<Rightarrow> BackendWrapper option \<Rightarrow> string \<Rightarrow>
   BackendWrapper \<Rightarrow> BackendWrapper option" where
  "considerBackend supportedInputFormats task policy chosen backendName backendInfo =
     (if \<not> isOnline backendInfo \<or> \<not> canRun supportedInputFormats backendInfo task then chosen
      else case chosen of
             None \<Rightarrow> Some backendInfo
           | Some incumbent \<Rightarrow> if beatsIncumbent backendInfo incumbent policy then Some backendInfo else chosen)"

definition usablePreferred :: "string list \<Rightarrow> QuantumTask \<Rightarrow> BackendRegistry \<Rightarrow> BackendWrapper option" where
  "usablePreferred supportedInputFormats task availableBackends =
     (if preferred_qpu task = '''' then None
      else case registry_find availableBackends (preferred_qpu task) of
             None \<Rightarrow> None
           | Some preferred \<Rightarrow>
               if isOnline preferred \<and> canRun supportedInputFormats preferred task
               then Some preferred else None)"

definition chooseBackend ::
  "string list \<Rightarrow> QuantumTask \<Rightarrow> BackendRegistry \<Rightarrow> BackendSelectionPolicy \<Rightarrow> string result" where
  "chooseBackend supportedInputFormats task availableBackends policy =
     (case usablePreferred supportedInputFormats task availableBackends of
        Some preferred \<Rightarrow> Inr (bw_name preferred)
      | None \<Rightarrow>
          (case forEachBackend (considerBackend supportedInputFormats task policy) None availableBackends of
             None \<Rightarrow> Inl (mk_error NoBackendAvailable ''No suitable backend found'')
           | Some chosen \<Rightarrow> Inr (bw_name chosen)))"

section \<open>Scanning for the best element\<close>

text \<open>
  The scan of \<open>chooseBackend\<close> over any strict order: keep the incumbent unless the candidate beats
  it. The three laws are those of a strict weak order.
\<close>

definition scan_step :: "('b \<Rightarrow> 'b \<Rightarrow> bool) \<Rightarrow> ('b \<Rightarrow> bool) \<Rightarrow> 'b option \<Rightarrow> 'b \<Rightarrow> 'b option" where
  "scan_step beats P chosen x =
     (case chosen of
        None \<Rightarrow> if P x then Some x else None
      | Some y \<Rightarrow> if P x \<and> beats x y then Some x else Some y)"

lemma scan_step_simps [simp]:
  "scan_step beats P None x = (if P x then Some x else None)"
  "scan_step beats P (Some y) x = (if P x \<and> beats x y then Some x else Some y)"
  by (simp_all add: scan_step_def)

locale preference =
  fixes beats :: "'b \<Rightarrow> 'b \<Rightarrow> bool"
  assumes beats_irrefl: "\<not> beats a a"
    and beats_trans: "beats a b \<Longrightarrow> beats b c \<Longrightarrow> beats a c"
    and beats_neg_trans: "\<not> beats a b \<Longrightarrow> \<not> beats b c \<Longrightarrow> \<not> beats a c"
begin

lemma scan_from_Some:
  assumes "foldl (scan_step beats P) (Some y) xs = r"
  shows "\<exists>m. r = Some m \<and> (m = y \<or> m \<in> set xs \<and> P m) \<and> \<not> beats y m \<and> (\<forall>x \<in> set xs. P x \<longrightarrow> \<not> beats x m)"
  using assms
proof (induction xs arbitrary: y)
  case Nil
  then show ?case using beats_irrefl by auto
next
  case (Cons x xs)
  show ?case
  proof (cases "P x \<and> beats x y")
    case True
    with Cons.prems Cons.IH [of x] obtain m where m: "r = Some m" "m = x \<or> m \<in> set xs \<and> P m"
      "\<not> beats x m" "\<forall>z \<in> set xs. P z \<longrightarrow> \<not> beats z m" by auto
    moreover have "\<not> beats y m"
      using True m(3) beats_trans by blast
    ultimately show ?thesis using True by auto
  next
    case False
    with Cons.prems Cons.IH [of y] obtain m where m: "r = Some m" "m = y \<or> m \<in> set xs \<and> P m"
      "\<not> beats y m" "\<forall>z \<in> set xs. P z \<longrightarrow> \<not> beats z m" by auto
    moreover have "P x \<longrightarrow> \<not> beats x m"
      using False m(3) beats_neg_trans by blast
    ultimately show ?thesis by auto
  qed
qed

lemma scan_best:
  assumes "foldl (scan_step beats P) None xs = r"
  shows "case r of None \<Rightarrow> (\<forall>x \<in> set xs. \<not> P x)
         | Some m \<Rightarrow> m \<in> set xs \<and> P m \<and> (\<forall>x \<in> set xs. P x \<longrightarrow> \<not> beats x m)"
  using assms
proof (induction xs)
  case Nil
  then show ?case by auto
next
  case (Cons x xs)
  show ?case
  proof (cases "P x")
    case True
    with Cons.prems scan_from_Some [of P x xs r] beats_irrefl show ?thesis by auto
  next
    case False
    with Cons show ?thesis by (auto split: option.splits)
  qed
qed

end

text \<open>Both policies compare a key: the qubit count if it matters, then the name.\<close>

definition policy_key :: "BackendSelectionPolicy \<Rightarrow> BackendWrapper \<Rightarrow> nat \<times> string" where
  "policy_key policy b =
     (case policy of LowestName \<Rightarrow> (0, bw_name b) | SmallestSufficient \<Rightarrow> (unat (bw_numQubits b), bw_name b))"

lemma beatsIncumbent_key: "beatsIncumbent c i policy \<longleftrightarrow> policy_key policy c < policy_key policy i"
  by (auto simp: beatsIncumbent_def policy_key_def less_prod_def' word_less_nat_alt unat_arith_simps
      split: BackendSelectionPolicy.splits)

interpretation policy: preference "\<lambda>c i. beatsIncumbent c i policy" for policy
  by unfold_locales (auto simp: beatsIncumbent_key)

section \<open>Lemmas\<close>

definition usable :: "string list \<Rightarrow> QuantumTask \<Rightarrow> BackendWrapper \<Rightarrow> bool" where
  "usable sif task b \<longleftrightarrow> isOnline b \<and> canRun sif b task"

lemma usablePreferred_Some_iff:
  "usablePreferred sif task r = Some b \<longleftrightarrow>
     preferred_qpu task \<noteq> '''' \<and> registry_find r (preferred_qpu task) = Some b \<and> usable sif task b"
  by (auto simp: usablePreferred_def usable_def split: option.splits)

lemma considerBackend_step:
  "considerBackend sif task policy chosen n b =
   scan_step (\<lambda>c i. beatsIncumbent c i policy) (usable sif task) chosen b"
  by (auto simp: considerBackend_def usable_def split: option.splits)

lemma scan_as_fold:
  "forEachBackend (considerBackend sif task policy) None r =
   foldl (scan_step (\<lambda>c i. beatsIncumbent c i policy) (usable sif task)) None (map snd (registry_visits r))"
  by (simp add: forEachBackend_visits considerBackend_step foldl_map split_def)

text \<open>The scan over a well-formed registry finds the least usable backend, and finds one if there is one.\<close>

lemma scan_registry:
  assumes "registry_wf r"
  shows "case forEachBackend (considerBackend sif task policy) None r of
           None \<Rightarrow> (\<forall>n b. registry_find r n = Some b \<longrightarrow> \<not> usable sif task b)
         | Some m \<Rightarrow> registry_find r (bw_name m) = Some m \<and> usable sif task m \<and>
             (\<forall>n b. registry_find r n = Some b \<and> usable sif task b \<longrightarrow>
                b = m \<or> policy_key policy m < policy_key policy b)"
proof -
  let ?bs = "map snd (registry_visits r)"
  have mem: "b \<in> set ?bs \<longleftrightarrow> (\<exists>n. registry_find r n = Some b)" for b
    using assms by (force simp: registry.lookup_Some_iff)
  have name: "registry_find r n = Some b \<Longrightarrow> bw_name b = n" for n b
    using assms by (rule registry.lookup_named)
  have keys: "policy_key policy b = policy_key policy c \<Longrightarrow> bw_name b = bw_name c" for b c
    by (auto simp: policy_key_def split: BackendSelectionPolicy.splits)
  note best = policy.scan_best [where policy = policy and P = "usable sif task" and xs = ?bs,
      OF refl, folded scan_as_fold]
  show ?thesis
  proof (cases "forEachBackend (considerBackend sif task policy) None r")
    case None
    with best have "\<forall>b \<in> set ?bs. \<not> usable sif task b" by (simp only: option.case)
    then have "\<forall>n b. registry_find r n = Some b \<longrightarrow> \<not> usable sif task b" using mem by blast
    with None show ?thesis by simp
  next
    case (Some m)
    with best have m: "m \<in> set ?bs" "usable sif task m"
      "\<forall>b \<in> set ?bs. usable sif task b \<longrightarrow> \<not> policy_key policy b < policy_key policy m"
      by (simp_all add: beatsIncumbent_key)
    from m(1) mem name have fm: "registry_find r (bw_name m) = Some m" by blast
    have "b = m \<or> policy_key policy m < policy_key policy b"
      if "registry_find r n = Some b" "usable sif task b" for n b
    proof -
      from that(1) mem have "b \<in> set ?bs" by blast
      with that(2) m(3) have "\<not> policy_key policy b < policy_key policy m" by blast
      moreover have "policy_key policy b = policy_key policy m \<Longrightarrow> b = m"
        using keys [of b m] name [OF that(1)] fm that(1) by (metis option.inject)
      ultimately show ?thesis by (meson linorder_cases)
    qed
    with fm m(2) have "registry_find r (bw_name m) = Some m \<and> usable sif task m \<and>
        (\<forall>n b. registry_find r n = Some b \<and> usable sif task b \<longrightarrow>
           b = m \<or> policy_key policy m < policy_key policy b)" by blast
    then show ?thesis unfolding Some option.case .
  qed
qed

lemma chooseBackend_Inr:
  assumes "registry_wf r" and "chooseBackend sif task r policy = Inr n"
  obtains b where "registry_find r n = Some b" "bw_name b = n" "isOnline b" "canRun sif b task"
proof (cases "usablePreferred sif task r")
  case (Some p)
  with assms show thesis
    by (intro that [of p]) (auto simp: chooseBackend_def usablePreferred_Some_iff usable_def
        registry.lookup_named [OF assms(1)])
next
  case None
  with assms(2) obtain m where m: "forEachBackend (considerBackend sif task policy) None r = Some m" "n = bw_name m"
    by (auto simp: chooseBackend_def split: option.splits)
  with scan_registry [OF assms(1), of sif task policy] show thesis by (intro that [of m]) (simp_all add: usable_def)
qed

lemma chooseBackend_error_kind: "chooseBackend sif task r policy = Inl e \<Longrightarrow> kind e = NoBackendAvailable"
  by (auto simp: chooseBackend_def split: option.splits)

section \<open>Properties\<close>

text \<open>C11: Backend selection is correct and complete. On a well-formed registry the choice is the
  preferred backend whenever that one is registered, online and able to run the task; otherwise it is
  the usable backend that comes strictly before every other usable one in the policy's order (name,
  or qubit count then name). The name returned is registered, online and admits the task, and the
  call fails, with \<open>NoBackendAvailable\<close>, only when no registered backend is usable.\<close>

theorem chooseBackend_correct:
  assumes "registry_wf r"
  shows "case chooseBackend sif task r policy of
           Inl e \<Rightarrow> kind e = NoBackendAvailable \<and>
             (\<forall>n b. registry_find r n = Some b \<longrightarrow> \<not> (isOnline b \<and> canRun sif b task))
         | Inr n \<Rightarrow> (\<exists>b. registry_find r n = Some b \<and> isOnline b \<and> canRun sif b task \<and>
             (if (\<exists>p. preferred_qpu task \<noteq> '''' \<and> registry_find r (preferred_qpu task) = Some p \<and>
                   isOnline p \<and> canRun sif p task)
              then n = preferred_qpu task
              else \<forall>n' b'. registry_find r n' = Some b' \<and> isOnline b' \<and> canRun sif b' task \<longrightarrow>
                     n' = n \<or> policy_key policy b < policy_key policy b'))"
proof (cases "usablePreferred sif task r")
  case (Some p)
  then have "preferred_qpu task \<noteq> ''''" "registry_find r (preferred_qpu task) = Some p" "usable sif task p"
    by (simp_all add: usablePreferred_Some_iff)
  moreover from this(2) assms have "bw_name p = preferred_qpu task"
    by (rule registry.lookup_named [rotated])
  ultimately show ?thesis using Some by (auto simp: chooseBackend_def usable_def)
next
  case None
  then have no: "\<not> (\<exists>p. preferred_qpu task \<noteq> '''' \<and> registry_find r (preferred_qpu task) = Some p \<and>
                   isOnline p \<and> canRun sif p task)"
    using usablePreferred_Some_iff [of sif task r] by (auto simp: usable_def)
  show ?thesis
  proof (cases "forEachBackend (considerBackend sif task policy) None r")
    case scan: None
    with scan_registry [OF assms, of sif task policy] None show ?thesis
      by (simp add: chooseBackend_def usable_def)
  next
    case (Some m)
    with scan_registry [OF assms, of sif task policy]
    have "registry_find r (bw_name m) = Some m" "usable sif task m"
      "\<forall>n b. registry_find r n = Some b \<and> usable sif task b \<longrightarrow> b = m \<or> policy_key policy m < policy_key policy b"
      by (simp, simp, auto)
    note m = this
    have "n' = bw_name m \<or> policy_key policy m < policy_key policy b'"
      if "registry_find r n' = Some b' \<and> isOnline b' \<and> canRun sif b' task" for n' b'
      using m(3) that registry.lookup_named [OF assms] by (metis usable_def)
    with m(1,2) have "\<exists>b. registry_find r (bw_name m) = Some b \<and> isOnline b \<and> canRun sif b task \<and>
        (\<forall>n' b'. registry_find r n' = Some b' \<and> isOnline b' \<and> canRun sif b' task \<longrightarrow>
           n' = bw_name m \<or> policy_key policy b < policy_key policy b')"
      by (auto simp: usable_def)
    moreover have "chooseBackend sif task r policy = Inr (bw_name m)"
      using None Some by (simp add: chooseBackend_def)
    ultimately show ?thesis by (simp only: no if_False sum.case)
  qed
qed

definition sample_task :: QuantumTask where
  "sample_task =
     \<lparr>task_id = 7, n_qbits = 2, n_shots = 10, circuit_files = [''OPENQASM 2.0;''],
      circuit_file_type = ''qasm2'', result_destination = ''results-queue'', preferred_qpu = '''',
      scheduled_qpu = '''', restricted_resource_names = [], no_modify = True,
      optimisation_level = 0, priority = 1\<rparr>"

theorem chooseBackend_correct_witness:
  "chooseBackend [''cudaq-quake''] sample_task sample_registry LowestName = Inr ''alpha'' \<and>
   (\<exists>b. registry_find sample_registry ''alpha'' = Some b \<and> isOnline b \<and> canRun [''cudaq-quake''] b sample_task)"
proof -
  have "chooseBackend [''cudaq-quake''] sample_task sample_registry LowestName = Inr ''alpha''"
    by (simp add: chooseBackend_def usablePreferred_def sample_task_def forEachBackend_def sample_registry_def
        insertOrRefresh_def BackendRegistry_new_def considerBackend_def isOnline_def isOnlineBackendStatus_def
        canRun_def canPrepareTaskForBackend_def mapTaskCircuitTypeToCircuitFormat_def sample_backend_def)
  then show ?thesis
    using chooseBackend_correct [OF sample_registry_wf, of "[''cudaq-quake'']" sample_task LowestName] by auto
qed

text \<open>The choice is reproducible: two well-formed registries that hold the same backends under
  the same names, however and in whichever order these were inserted, give the same choice for every
  task and every policy.\<close>

theorem chooseBackend_deterministic:
  assumes "registry_wf r" and "registry_wf r'" and "\<forall>n. registry_find r n = registry_find r' n"
  shows "chooseBackend sif task r policy = chooseBackend sif task r' policy"
proof -
  from assms(3) have eq: "registry_find r = registry_find r'" by (simp add: fun_eq_iff)
  have visits: "registry_visits r = registry_visits r'"
    by (rule registry.visits_determined [OF assms(1,2) eq])
  show ?thesis
    unfolding chooseBackend_def usablePreferred_def forEachBackend_visits eq visits ..
qed

theorem chooseBackend_deterministic_witness:
  "chooseBackend [''cudaq-quake''] sample_task
     (fold run_op [InsertOrRefresh sample_backend 0, InsertOrRefresh (sample_backend\<lparr>bw_name := ''beta''\<rparr>) 1]
        (BackendRegistry_new 10)) SmallestSufficient =
   chooseBackend [''cudaq-quake''] sample_task
     (fold run_op [InsertOrRefresh (sample_backend\<lparr>bw_name := ''beta''\<rparr>) 4, InsertOrRefresh sample_backend 5]
        (BackendRegistry_new 10)) SmallestSufficient"
  (is "chooseBackend _ _ ?r _ = chooseBackend _ _ ?r' _")
proof (rule chooseBackend_deterministic)
  show "registry_wf ?r" and "registry_wf ?r'" by (simp_all add: registry_wf_insert)
  show "\<forall>n. registry_find ?r n = registry_find ?r' n"
    by (simp add: registry_find_abs run_op_abs run_op_wf registry_simps spec_insert_apply sample_backend_def)
qed

end
