(* ===== verification/Task_Compilation.thy ===== *)
theory Task_Compilation
  imports Backend_Selection
begin

text \<open>
  \<open>compileQuantumTask\<close> (\<open>src/Runners.cpp\<close>): every circuit of a task is compiled for the target the
  backend's formats allow, staged, and written back only when all of them compiled. The MQSS
  compiler is a library: it is a record of functions over an arbitrary compiler state \<open>'c\<close>. Its
  \<open>compileSource\<close> returns the compiled text, reports a failure, or throws an exception derived from
  \<open>std::exception\<close>, which the code catches. The task is modified in place, so the model returns it.
\<close>

section \<open>The compiler library\<close>

record CompilerOptions =
  optimization_level :: OptLevel
  result_format :: ResultFormat

datatype CompileOutcome = Compiled string | NotCompiled | CompilerThrew string

record 'c compiler =
  getSupportedInputFormats :: "string list"
  compileSource :: "string \<Rightarrow> string \<Rightarrow> string list \<Rightarrow> (32 word \<times> 32 word) list \<Rightarrow> CompilerOptions \<Rightarrow>
    'c \<Rightarrow> CompileOutcome \<times> 'c"

section \<open>Definitions\<close>

text \<open>The body of the \<open>try\<close> block up to the end of the first loop.\<close>

fun compileCircuits ::
  "'c compiler \<Rightarrow> BackendWrapper \<Rightarrow> CompilerOptions \<Rightarrow> string list \<Rightarrow> string list \<Rightarrow> 'c \<Rightarrow>
   string list result \<times> 'c" where
  "compileCircuits C backendInfo opts [] compiledCircuits c = (Inr compiledCircuits, c)"
| "compileCircuits C backendInfo opts (circuitFile # circuitFiles) compiledCircuits c =
     (let index = length compiledCircuits in
      if circuitFile = '''' then
        (Inl (mk_error CompilationFailed (''Compilation failed for circuit file '' @
           string_of_nat index @ '': circuit is empty.'')), c)
      else
        (case compileSource C circuitFile (bw_name backendInfo) (bw_instructions backendInfo)
                (bw_qubitConnectivity backendInfo) opts c of
           (Compiled compiled, c) \<Rightarrow>
             compileCircuits C backendInfo opts circuitFiles (compiledCircuits @ [compiled]) c
         | (NotCompiled, c) \<Rightarrow>
             (Inl (mk_error CompilationFailed (''Compilation failed for circuit file '' @
                string_of_nat index @ ''.'')), c)
         | (CompilerThrew what, c) \<Rightarrow>
             (Inl (mk_error CompilationFailed (''Compilation failed: '' @ what)), c)))"

text \<open>The loop of \<open>set_circuit_files\<close> calls.\<close>

fun setCircuitFiles :: "nat \<Rightarrow> string list \<Rightarrow> string list \<Rightarrow> string list" where
  "setCircuitFiles index [] circuitFiles = circuitFiles"
| "setCircuitFiles index (compiled # compiledCircuits) circuitFiles =
     setCircuitFiles (Suc index) compiledCircuits (circuitFiles[index := compiled])"

definition compileQuantumTask ::
  "'c compiler \<Rightarrow> QuantumTask \<Rightarrow> BackendWrapper \<Rightarrow> 'c \<Rightarrow> unit result \<times> QuantumTask \<times> 'c" where
  "compileQuantumTask C task backendInfo c =
     (if no_modify task then (Inr (), task, c)
      else case validateInputFormatIsSupportedCircuitFormat (circuit_file_type task)
                  (getSupportedInputFormats C) of
        Inl e \<Rightarrow> (Inl e, task, c)
      | Inr _ \<Rightarrow>
      case compilerTarget backendInfo of
        Inl e \<Rightarrow> (Inl e, task, c)
      | Inr target \<Rightarrow>
      case getCompilerOptimizationLevel (sint (optimisation_level task)) of
        Inl e \<Rightarrow> (Inl e, task, c)
      | Inr optimizationLevel \<Rightarrow>
      let opts = \<lparr>optimization_level = optimizationLevel, result_format = compilerFormat target\<rparr> in
      case compileCircuits C backendInfo opts (circuit_files task) [] c of
        (Inl e, c) \<Rightarrow> (Inl e, task, c)
      | (Inr compiledCircuits, c) \<Rightarrow>
          (Inr (), task\<lparr>circuit_files := setCircuitFiles 0 compiledCircuits (circuit_files task),
                        circuit_file_type := taskCircuitType target\<rparr>, c))"

text \<open>The overload that constructs a compiler of its own; \<open>c\<close> is a freshly constructed one.\<close>

definition compileQuantumTaskOwnCompiler ::
  "'c compiler \<Rightarrow> 'c \<Rightarrow> QuantumTask \<Rightarrow> BackendWrapper \<Rightarrow> unit result \<times> QuantumTask" where
  "compileQuantumTaskOwnCompiler C c task backendInfo =
     (case compileQuantumTask C task backendInfo c of (r, task, _) \<Rightarrow> (r, task))"

section \<open>Lemmas\<close>

text \<open>The outcome of compiling one circuit file in a given compiler state.\<close>

definition compile_one ::
  "'c compiler \<Rightarrow> BackendWrapper \<Rightarrow> CompilerOptions \<Rightarrow> string \<Rightarrow> 'c \<Rightarrow> CompileOutcome \<times> 'c" where
  "compile_one C b opts f c =
     compileSource C f (bw_name b) (bw_instructions b) (bw_qubitConnectivity b) opts c"

text \<open>A run of the compiler over non-empty circuit files that all compile.\<close>

inductive compiles ::
  "'c compiler \<Rightarrow> BackendWrapper \<Rightarrow> CompilerOptions \<Rightarrow> string list \<Rightarrow> 'c \<Rightarrow> string list \<Rightarrow> 'c \<Rightarrow> bool"
  for C b opts where
  nothing: "compiles C b opts [] c [] c"
| one: "f \<noteq> '''' \<Longrightarrow> compile_one C b opts f c = (Compiled out, c') \<Longrightarrow> compiles C b opts fs c' outs c'' \<Longrightarrow>
     compiles C b opts (f # fs) c (out # outs) c''"

inductive_cases compiles_ConsE: "compiles C b opts (f # fs) c outs c'"

lemma compiles_length: "compiles C b opts fs c outs c' \<Longrightarrow> length outs = length fs"
  by (induction rule: compiles.induct) simp_all

lemma setCircuitFiles_all:
  "length fs = index + length compiled \<Longrightarrow> setCircuitFiles index compiled fs = take index fs @ compiled"
proof (induction index compiled fs rule: setCircuitFiles.induct)
  case (1 index fs)
  then show ?case by simp
next
  case (2 index x xs fs)
  then show ?case
    by (simp add: take_Suc_conv_app_nth take_update_cancel)
qed

lemma compileCircuits_Inr_iff:
  "compileCircuits C b opts fs staged c = (Inr r, c') \<longleftrightarrow>
     (\<exists>outs. r = staged @ outs \<and> compiles C b opts fs c outs c')"
proof (induction fs arbitrary: staged c)
  case Nil
  then show ?case by (auto elim: compiles.cases intro: compiles.nothing)
next
  case (Cons f fs)
  obtain oc c1 where one: "compile_one C b opts f c = (oc, c1)" by (cases "compile_one C b opts f c")
  note one' = one [unfolded compile_one_def]
  show ?case
  proof (cases "f = ''''")
    case True
    then show ?thesis by (auto elim: compiles_ConsE)
  next
    case False
    then show ?thesis using one one' Cons.IH
      by (cases oc) (auto elim!: compiles_ConsE intro: compiles.one)
  qed
qed

lemma compileCircuits_error_kind:
  "compileCircuits C b opts fs staged c = (Inl e, c') \<Longrightarrow> kind e = CompilationFailed"
  by (induction fs arbitrary: staged c) (auto simp: Let_def split: if_splits CompileOutcome.splits prod.splits)

text \<open>The first circuit file that does not compile decides the error, which names its index.\<close>

definition compile_failure :: "nat \<Rightarrow> string \<Rightarrow> CompileOutcome \<Rightarrow> Error" where
  "compile_failure index f oc =
     mk_error CompilationFailed
       (if f = '''' then ''Compilation failed for circuit file '' @ string_of_nat index @ '': circuit is empty.''
        else case oc of
          CompilerThrew what \<Rightarrow> ''Compilation failed: '' @ what
        | _ \<Rightarrow> ''Compilation failed for circuit file '' @ string_of_nat index @ ''.'')"

lemma compileCircuits_Inl:
  "compileCircuits C b opts fs staged c = (Inl e, c') \<Longrightarrow>
     \<exists>before f after outs c1 oc.
       fs = before @ f # after \<and> compiles C b opts before c outs c1 \<and>
       (f = '''' \<or> fst (compile_one C b opts f c1) = oc \<and> (\<forall>out. oc \<noteq> Compiled out)) \<and>
       e = compile_failure (length staged + length before) f oc"
proof (induction fs arbitrary: staged c)
  case Nil
  then show ?case by simp
next
  case (Cons f fs)
  obtain oc c1 where one: "compile_one C b opts f c = (oc, c1)" by (cases "compile_one C b opts f c")
  note one' = one [unfolded compile_one_def]
  have first: ?case if "f = '''' \<or> (\<forall>out. oc \<noteq> Compiled out)" "e = compile_failure (length staged) f oc"
    using that one compiles.nothing [of C b opts c]
    by (intro exI [of _ "[]"] exI [of _ f] exI [of _ fs] exI [of _ "[]"] exI [of _ c] exI [of _ oc]) auto
  show ?case
  proof (cases "f = '''' \<or> (\<forall>out. oc \<noteq> Compiled out)")
    case True
    with Cons.prems one' show ?thesis
      by (intro first) (cases "f = ''''"; cases oc; auto simp: compile_failure_def)+
  next
    case False
    then obtain out where ok: "f \<noteq> ''''" "oc = Compiled out" by auto
    with Cons.prems one' have "compileCircuits C b opts fs (staged @ [out]) c1 = (Inl e, c')" by simp
    from Cons.IH [OF this] obtain before g after outs c2 oc' where
      "fs = before @ g # after" "compiles C b opts before c1 outs c2"
      "g = '''' \<or> fst (compile_one C b opts g c2) = oc' \<and> (\<forall>out. oc' \<noteq> Compiled out)"
      "e = compile_failure (length (staged @ [out]) + length before) g oc'" by blast
    with compiles.one [OF ok(1) one [unfolded ok(2)]] show ?thesis
      by (intro exI [of _ "f # before"] exI [of _ g] exI [of _ after] exI [of _ "out # outs"] exI [of _ c2]
          exI [of _ oc']) auto
  qed
qed

lemma compileQuantumTask_Inl: "compileQuantumTask C task b c = (Inl e, task', c') \<Longrightarrow> task' = task"
  by (auto simp: compileQuantumTask_def Let_def split: if_splits sum.splits prod.splits)

lemma compileQuantumTask_no_modify: "no_modify task \<Longrightarrow> compileQuantumTask C task b c = (Inr (), task, c)"
  by (simp add: compileQuantumTask_def)

lemma compileQuantumTask_Inr:
  assumes run: "compileQuantumTask C task b c = (Inr u, task', c')" and "\<not> no_modify task"
  obtains target level outs where
    "compilerTarget b = Inr target"
    "getCompilerOptimizationLevel (sint (optimisation_level task)) = Inr level"
    "compiles C b \<lparr>optimization_level = level, result_format = compilerFormat target\<rparr>
       (circuit_files task) c outs c'"
    "task' = task\<lparr>circuit_files := outs, circuit_file_type := taskCircuitType target\<rparr>"
proof -
  from assms obtain target level compiled where ok:
    "compilerTarget b = Inr target"
    "getCompilerOptimizationLevel (sint (optimisation_level task)) = Inr level"
    "compileCircuits C b \<lparr>optimization_level = level, result_format = compilerFormat target\<rparr>
       (circuit_files task) [] c = (Inr compiled, c')"
    "task' = task\<lparr>circuit_files := setCircuitFiles 0 compiled (circuit_files task),
                  circuit_file_type := taskCircuitType target\<rparr>"
    by (auto simp: compileQuantumTask_def Let_def split: sum.splits prod.splits)
  then have comp: "compiles C b \<lparr>optimization_level = level, result_format = compilerFormat target\<rparr>
       (circuit_files task) c compiled c'" by (simp add: compileCircuits_Inr_iff)
  then have "setCircuitFiles 0 compiled (circuit_files task) = compiled"
    using compiles_length setCircuitFiles_all [of "circuit_files task" 0 compiled] by fastforce
  with ok comp show thesis by (intro that) simp_all
qed

text \<open>Compiling changes at most the circuits and their type.\<close>

lemma compileQuantumTask_same:
  assumes "compileQuantumTask C task b c = (r, task', c')"
  shows "task_id task' = task_id task" "result_destination task' = result_destination task"
    "scheduled_qpu task' = scheduled_qpu task" "n_shots task' = n_shots task" "priority task' = priority task"
  using assms
  by (auto simp: compileQuantumTask_def Let_def split: if_splits sum.splits prod.splits)

section \<open>Properties\<close>


text \<open>A compilation error is precise. It is an \<open>UnsupportedFormat\<close> error exactly when the
  circuit type is no compiler input or the backend accepts no compiler output; otherwise it is a
  \<open>CompilationFailed\<close> error, either because the optimisation level lies outside 0 to 3 or because of
  the first circuit file that is empty, fails to compile or makes the compiler throw, all earlier
  ones having compiled, and in the first two of these cases its index is in the message.\<close>

theorem compileQuantumTask_error:
  assumes "compileQuantumTask C task b c = (Inl e, task', c')"
  shows "\<not> no_modify task \<and>
    (if \<not> has_value (validateInputFormatIsSupportedCircuitFormat (circuit_file_type task)
              (getSupportedInputFormats C)) \<or> \<not> has_value (compilerTarget b)
     then kind e = UnsupportedFormat
     else kind e = CompilationFailed \<and>
       (sint (optimisation_level task) \<notin> {0..3} \<or>
        (\<exists>opts before f after outs c1 oc.
           circuit_files task = before @ f # after \<and> compiles C b opts before c outs c1 \<and>
           (f = '''' \<or> fst (compile_one C b opts f c1) = oc \<and> (\<forall>out. oc \<noteq> Compiled out)) \<and>
           e = compile_failure (length before) f oc)))"
proof -
  from assms have modify: "\<not> no_modify task" by (auto simp: compileQuantumTask_def)
  show ?thesis
  proof (cases "has_value (validateInputFormatIsSupportedCircuitFormat (circuit_file_type task)
              (getSupportedInputFormats C)) \<and> has_value (compilerTarget b)")
    case False
    with assms modify show ?thesis
      by (auto simp: compileQuantumTask_def compilerTarget_def chooseCompilerTarget_def
          split: sum.splits dest!: validateInputFormat_error firstTarget_error)
  next
    case True
    then obtain target where ok: "validateInputFormatIsSupportedCircuitFormat (circuit_file_type task)
         (getSupportedInputFormats C) = Inr ()" "compilerTarget b = Inr target"
      by (auto simp: has_value_iff)
    show ?thesis
    proof (cases "getCompilerOptimizationLevel (sint (optimisation_level task))")
      case (Inl e')
      with assms ok modify have "kind e = CompilationFailed"
        by (auto simp: compileQuantumTask_def dest: getCompilerOptimizationLevel_error_kind)
      moreover from Inl have "sint (optimisation_level task) \<notin> {0..3}"
        using getCompilerOptimizationLevel_Inr_iff [of "sint (optimisation_level task)"] by auto
      ultimately show ?thesis using True modify by simp
    next
      case (Inr level)
      let ?opts = "\<lparr>optimization_level = level, result_format = compilerFormat target\<rparr>"
      from Inr assms ok modify have "compileCircuits C b ?opts (circuit_files task) [] c = (Inl e, c')"
        by (auto simp: compileQuantumTask_def Let_def split: sum.splits prod.splits)
      note err = this
      from compileCircuits_Inl [OF err] have "\<exists>before f after outs c1 oc.
           circuit_files task = before @ f # after \<and> compiles C b ?opts before c outs c1 \<and>
           (f = '''' \<or> fst (compile_one C b ?opts f c1) = oc \<and> (\<forall>out. oc \<noteq> Compiled out)) \<and>
           e = compile_failure (length before) f oc" by simp
      with True modify compileCircuits_error_kind [OF err] show ?thesis
        by (simp only: if_False simp_thms) blast
    qed
  qed
qed

definition sample_compiler :: "unit compiler" where
  "sample_compiler =
     \<lparr>getSupportedInputFormats = [''cudaq-quake''],
      compileSource = (\<lambda>src name instrs conn opts c.
        (if hd src = CHR ''!'' then NotCompiled else Compiled (''compiled '' @ src), c))\<rparr>"

definition sample_quake_task :: QuantumTask where
  "sample_quake_task =
     sample_task\<lparr>circuit_file_type := ''quake'', no_modify := False, circuit_files := [''bell'', ''ghz'']\<rparr>"

theorem compileQuantumTask_error_witness:
  "\<exists>e. compileQuantumTask sample_compiler (sample_quake_task\<lparr>circuit_files := [''bell'', ''!ghz'']\<rparr>)
         sample_backend () =
       (Inl e, sample_quake_task\<lparr>circuit_files := [''bell'', ''!ghz'']\<rparr>, ()) \<and>
     kind e = CompilationFailed"
proof -
  let ?task = "sample_quake_task\<lparr>circuit_files := [''bell'', ''!ghz'']\<rparr>"
  obtain e where run: "compileQuantumTask sample_compiler ?task sample_backend () = (Inl e, ?task, ())"
    by (simp add: compileQuantumTask_def sample_compiler_def sample_quake_task_def sample_task_def
        sample_backend_def compilerTarget_def chooseCompilerTarget_def CompilerTargetPriority_def
        validateInputFormatIsSupportedCircuitFormat_def TaskCircuitTypeToCompilerInputFormatMapping_def
        getCompilerOptimizationLevel_def)
  moreover have "has_value (validateInputFormatIsSupportedCircuitFormat (circuit_file_type ?task)
      (getSupportedInputFormats sample_compiler))" and "has_value (compilerTarget sample_backend)"
    by (simp_all add: sample_compiler_def sample_quake_task_def sample_task_def sample_backend_def
        compilerTarget_def chooseCompilerTarget_def CompilerTargetPriority_def
        validateInputFormatIsSupportedCircuitFormat_def TaskCircuitTypeToCompilerInputFormatMapping_def)
  ultimately show ?thesis using compileQuantumTask_error [OF run] by auto
qed

end
