(* ===== verification/Task_Submission.thy ===== *)
theory Task_Submission
  imports Task_Compilation
begin

text \<open>
  \<open>src/TaskSubmission.cpp\<close> (what makes a task submittable and how a circuit becomes a job request)
  and \<open>submitQuantumTask\<close> of \<open>src/Runners.cpp\<close> (one job per circuit file on one placement, with
  the termination flag consulted before every submission).
\<close>

section \<open>Validation and requests\<close>

definition validateSubmission :: "QuantumTask \<Rightarrow> CircuitFormat result" where
  "validateSubmission task =
     (if circuit_files task = [] then
        Inl (mk_error SubmissionFailed ''Task carries no circuit files to submit.'')
      else if sint (n_shots task) \<le> 0 then
        Inl (mk_error SubmissionFailed ''Task requests a non-positive number of shots.'')
      else
        (let fmt = mapTaskCircuitTypeToCircuitFormat (circuit_file_type task)
         in if fmt = CIRCUIT_FORMAT_UNSPECIFIED then
              Inl (mk_error SubmissionFailed
                (concat [''Task'', [CHR 0x27], ''s circuit file type has no known submission format: '',
                   circuit_file_type task]))
            else Inr fmt))"

text \<open>Called with an index into the task's circuit files only.\<close>

definition makeJobRequest :: "QuantumTask \<Rightarrow> nat \<Rightarrow> CircuitFormat \<Rightarrow> JobRequest" where
  "makeJobRequest task circuitIndex fmt =
     \<lparr>req_format = fmt,
      req_payload = map (\<lambda>c. of_char c) (circuit_files task ! circuitIndex),
      req_numShots = scast (n_shots task)\<rparr>"

section \<open>Submission\<close>

text \<open>The best-effort cancellation of the jobs already submitted; failures are only logged.\<close>

fun cancelJobs :: "'w environment \<Rightarrow> nat list \<Rightarrow> ('w, 'z) io_scheme \<Rightarrow> ('w, 'z) io_scheme" where
  "cancelJobs E [] s = s"
| "cancelJobs E (submitted # jobs) s =
     cancelJobs E jobs (snd (ext_call (env_cancel E submitted) (JobCancelled submitted) s))"

definition choosePlacement ::
  "'w environment \<Rightarrow> ('w, 'z) io_scheme \<Rightarrow> Placement result \<times> ('w, 'z) io_scheme" where
  "choosePlacement E s =
     (let (children, s) = ext_call (env_children E) (\<lambda>_. ChildrenRead) s in
      case children of
        Inl e \<Rightarrow> if code e \<noteq> NotSupported then (Inl (toQrmciError SubmissionFailed e), s) else (Inr Self, s)
      | Inr [] \<Rightarrow> (Inr Self, s)
      | Inr (front # _) \<Rightarrow> (Inr (On front), s))"

fun submitCircuits ::
  "'w environment \<Rightarrow> ('w, 'z) flag \<Rightarrow> QuantumTask \<Rightarrow> CircuitFormat \<Rightarrow> Placement \<Rightarrow> nat list \<Rightarrow> nat list \<Rightarrow>
   ('w, 'z) io_scheme \<Rightarrow> nat list result \<times> ('w, 'z) io_scheme" where
  "submitCircuits E terminationFlag task fmt placement [] jobs s = (Inr jobs, s)"
| "submitCircuits E terminationFlag task fmt placement (circuitIndex # indices) jobs s =
     (let (terminate, s) = terminationFlag s in
      if terminate then
        (Inl (mk_error ShutdownRequested ''Shutdown requested during task submission.''), cancelJobs E jobs s)
      else
        let request = makeJobRequest task circuitIndex fmt;
            (job, s) = ext_call (env_submitJob E request placement) (JobSubmitted request placement) s
        in case job of
             Inl e \<Rightarrow> (Inl (toQrmciError SubmissionFailed e), s)
           | Inr j \<Rightarrow> submitCircuits E terminationFlag task fmt placement indices (jobs @ [j]) s)"

definition submitQuantumTask ::
  "'w environment \<Rightarrow> ('w, 'z) flag \<Rightarrow> QuantumTask \<Rightarrow> ('w, 'z) io_scheme \<Rightarrow>
   nat list result \<times> ('w, 'z) io_scheme" where
  "submitQuantumTask E terminationFlag task s =
     (case validateSubmission task of
        Inl e \<Rightarrow> (Inl e, s)
      | Inr fmt \<Rightarrow>
          (case choosePlacement E s of
             (Inl e, s) \<Rightarrow> (Inl e, s)
           | (Inr placement, s) \<Rightarrow>
               submitCircuits E terminationFlag task fmt placement [0..<length (circuit_files task)] [] s))"

definition submitQuantumTaskUninterruptible ::
  "'w environment \<Rightarrow> QuantumTask \<Rightarrow> ('w, 'z) io_scheme \<Rightarrow> nat list result \<times> ('w, 'z) io_scheme" where
  "submitQuantumTaskUninterruptible E task s = submitQuantumTask E NeverTerminates task s"

section \<open>Lemmas\<close>

text \<open>What a trace says about submissions and cancellations.\<close>

fun submission_of :: "event \<Rightarrow> (JobRequest \<times> Placement \<times> nat submitter_result) option" where
  "submission_of (JobSubmitted q p r) = Some (q, p, r)"
| "submission_of _ = None"

fun cancellation_of :: "event \<Rightarrow> nat option" where
  "cancellation_of (JobCancelled j _) = Some j"
| "cancellation_of _ = None"

definition submissions :: "event list \<Rightarrow> (JobRequest \<times> Placement \<times> nat submitter_result) list" where
  "submissions es = List.map_filter submission_of es"

definition cancellations :: "event list \<Rightarrow> nat list" where
  "cancellations es = List.map_filter cancellation_of es"

lemma submissions_simps [simp]:
  "submissions [] = []"
  "submissions (e # es) = (case submission_of e of None \<Rightarrow> submissions es | Some x \<Rightarrow> x # submissions es)"
  "submissions (es @ fs) = submissions es @ submissions fs"
  by (simp_all add: submissions_def List.map_filter_def split: option.splits)

lemma cancellations_simps [simp]:
  "cancellations [] = []"
  "cancellations (e # es) = (case cancellation_of e of None \<Rightarrow> cancellations es | Some x \<Rightarrow> x # cancellations es)"
  "cancellations (es @ fs) = cancellations es @ cancellations fs"
  by (simp_all add: cancellations_def List.map_filter_def split: option.splits)

lemma validateSubmission_Inr_iff:
  "validateSubmission task = Inr fmt \<longleftrightarrow>
     circuit_files task \<noteq> [] \<and> 0 < sint (n_shots task) \<and>
     fmt = mapTaskCircuitTypeToCircuitFormat (circuit_file_type task) \<and> fmt \<noteq> CIRCUIT_FORMAT_UNSPECIFIED"
  by (auto simp: validateSubmission_def Let_def)

lemma validateSubmission_error_kind: "validateSubmission task = Inl e \<Longrightarrow> kind e = SubmissionFailed"
  by (auto simp: validateSubmission_def Let_def split: if_splits)

lemma cancelJobs_spec:
  "io_extends s (cancelJobs E jobs s) \<and> submissions (new_events s (cancelJobs E jobs s)) = [] \<and>
   cancellations (new_events s (cancelJobs E jobs s)) = jobs"
proof (induction jobs arbitrary: s)
  case Nil
  then show ?case by simp
next
  case (Cons j jobs)
  obtain r s1 where c: "ext_call (env_cancel E j) (JobCancelled j) s = (r, s1)"
    by (cases "ext_call (env_cancel E j) (JobCancelled j) s")
  from ext_call_extends [OF c] have s1: "io_extends s s1" "new_events s s1 = [JobCancelled j r]" by simp_all
  from Cons [of s1] have rest: "io_extends s1 (cancelJobs E jobs s1)"
    "submissions (new_events s1 (cancelJobs E jobs s1)) = []"
    "cancellations (new_events s1 (cancelJobs E jobs s1)) = jobs" by simp_all
  from c s1 rest show ?case
    by (simp add: io_extends_trans [OF s1(1) rest(1)] new_events_trans [OF s1(1) rest(1)])
qed

lemma choosePlacement_spec:
  "choosePlacement E s = (r, t) \<Longrightarrow>
     io_extends s t \<and> new_events s t = [ChildrenRead] \<and>
     (case fst (env_children E (world s)) of
        Inl e \<Rightarrow> if code e = NotSupported then r = Inr Self else r = Inl (toQrmciError SubmissionFailed e)
      | Inr children \<Rightarrow> r = Inr (case children of [] \<Rightarrow> Self | front # _ \<Rightarrow> On front))"
  by (auto simp: choosePlacement_def ext_call_def io_extends_def new_events_def Let_def
      split: prod.splits sum.splits list.splits if_splits)

text \<open>
  The submission loop, by induction on the indices left: success submits all of them in order,
  failure ends at the first refusal, a shutdown cancels everything submitted so far.
\<close>

definition submitted ::
  "QuantumTask \<Rightarrow> CircuitFormat \<Rightarrow> Placement \<Rightarrow> nat list \<Rightarrow> nat list \<Rightarrow>
   (JobRequest \<times> Placement \<times> nat submitter_result) list" where
  "submitted task fmt p is js = map2 (\<lambda>i j. (makeJobRequest task i fmt, p, Inr j)) is js"

definition submit_outcome ::
  "QuantumTask \<Rightarrow> CircuitFormat \<Rightarrow> Placement \<Rightarrow> nat list \<Rightarrow> nat list \<Rightarrow> nat list result \<Rightarrow> event list \<Rightarrow> bool" where
  "submit_outcome task fmt p is jobs r es \<longleftrightarrow>
     (case r of
        Inr js \<Rightarrow> (\<exists>new. js = jobs @ new \<and> length new = length is \<and>
            submissions es = submitted task fmt p is new \<and> cancellations es = [])
      | Inl e \<Rightarrow> (\<exists>new rest i after. is = rest @ i # after \<and> length new = length rest \<and>
            (if kind e = ShutdownRequested
             then submissions es = submitted task fmt p rest new \<and> cancellations es = jobs @ new
             else kind e = SubmissionFailed \<and> cancellations es = [] \<and>
               (\<exists>err. e = toQrmciError SubmissionFailed err \<and>
                  submissions es = submitted task fmt p rest new @ [(makeJobRequest task i fmt, p, Inl err)]))))"

lemma submitted_simps [simp]:
  "submitted task fmt p [] [] = []"
  "submitted task fmt p (i # is) (j # js) = (makeJobRequest task i fmt, p, Inr j) # submitted task fmt p is js"
  by (simp_all add: submitted_def)

text \<open>The three ways a submission loop ends.\<close>

lemma submit_outcome_InrI:
  "length new = length is \<Longrightarrow> submissions es = submitted task fmt p is new \<Longrightarrow> cancellations es = [] \<Longrightarrow>
   submit_outcome task fmt p is jobs (Inr (jobs @ new)) es"
  by (simp add: submit_outcome_def)

lemma submit_outcome_shutdownI:
  "is = rest @ i # after \<Longrightarrow> length new = length rest \<Longrightarrow> kind e = ShutdownRequested \<Longrightarrow>
   submissions es = submitted task fmt p rest new \<Longrightarrow> cancellations es = jobs @ new \<Longrightarrow>
   submit_outcome task fmt p is jobs (Inl e) es"
  unfolding submit_outcome_def sum.case by (intro exI conjI) (assumption | simp)+

lemma submit_outcome_refusedI:
  "is = rest @ i # after \<Longrightarrow> length new = length rest \<Longrightarrow>
   submissions es = submitted task fmt p rest new @ [(makeJobRequest task i fmt, p, Inl err)] \<Longrightarrow>
   cancellations es = [] \<Longrightarrow> submit_outcome task fmt p is jobs (Inl (toQrmciError SubmissionFailed err)) es"
  unfolding submit_outcome_def sum.case by (intro exI conjI) (assumption | force simp: toQrmciError_kind)+

lemma submit_outcome_Cons:
  assumes "submit_outcome task fmt p is (jobs @ [j]) r es"
    and "submissions es' = [(makeJobRequest task i fmt, p, Inr j)]" and "cancellations es' = []"
  shows "submit_outcome task fmt p (i # is) jobs r (es' @ es)"
proof (cases r)
  case (Inr js)
  with assms obtain new where js: "js = jobs @ j # new" and new: "length new = length is"
    "submissions es = submitted task fmt p is new" "cancellations es = []"
    by (auto simp: submit_outcome_def)
  show ?thesis unfolding Inr js by (rule submit_outcome_InrI) (use new assms(2,3) in simp_all)
next
  case (Inl e)
  with assms obtain new rest k after where split: "is = rest @ k # after" "length new = length rest"
    and out: "if kind e = ShutdownRequested
      then submissions es = submitted task fmt p rest new \<and> cancellations es = (jobs @ [j]) @ new
      else kind e = SubmissionFailed \<and> cancellations es = [] \<and>
        (\<exists>err. e = toQrmciError SubmissionFailed err \<and>
           submissions es = submitted task fmt p rest new @ [(makeJobRequest task k fmt, p, Inl err)])"
    by (auto simp: submit_outcome_def)
  show ?thesis
  proof (cases "kind e = ShutdownRequested")
    case True
    show ?thesis unfolding Inl
      by (rule submit_outcome_shutdownI [of _ "i # rest" k after "j # new"])
        (use True split out assms(2,3) in simp_all)
  next
    case False
    with out obtain err where err: "e = toQrmciError SubmissionFailed err" "cancellations es = []"
      "submissions es = submitted task fmt p rest new @ [(makeJobRequest task k fmt, p, Inl err)]" by auto
    show ?thesis unfolding Inl err(1)
      by (rule submit_outcome_refusedI [of _ "i # rest" k after "j # new"])
        (use split err assms(2,3) in simp_all)
  qed
qed

text \<open>Induction over the circuits: a run ends after the last of them, at a shutdown or at a refusal.\<close>

lemma submitCircuits_induct [consumes 1, case_names finished shutdown refused more]:
  assumes "submitCircuits E flag task fmt p is jobs s = (r, t)"
    and finished: "\<And>jobs s. R [] jobs s (Inr jobs) s"
    and shutdown: "\<And>i is jobs s s1. flag s = (True, s1) \<Longrightarrow>
      R (i # is) jobs s (Inl (mk_error ShutdownRequested ''Shutdown requested during task submission.'')) (cancelJobs E jobs s1)"
    and refused: "\<And>i is jobs s s1 e t. flag s = (False, s1) \<Longrightarrow>
      ext_call (env_submitJob E (makeJobRequest task i fmt) p) (JobSubmitted (makeJobRequest task i fmt) p) s1 = (Inl e, t) \<Longrightarrow>
      R (i # is) jobs s (Inl (toQrmciError SubmissionFailed e)) t"
    and more: "\<And>i is jobs s s1 j s2 r t. flag s = (False, s1) \<Longrightarrow>
      ext_call (env_submitJob E (makeJobRequest task i fmt) p) (JobSubmitted (makeJobRequest task i fmt) p) s1 = (Inr j, s2) \<Longrightarrow>
      R is (jobs @ [j]) s2 r t \<Longrightarrow> R (i # is) jobs s r t"
  shows "R is jobs s r t"
  using assms(1)
proof (induction "is" arbitrary: jobs s)
  case Nil
  with finished show ?case by auto
next
  case (Cons i "is")
  obtain b s1 where f: "flag s = (b, s1)" by (cases "flag s")
  let ?q = "makeJobRequest task i fmt"
  obtain job s2 where c: "ext_call (env_submitJob E ?q p) (JobSubmitted ?q p) s1 = (job, s2)"
    by (cases "ext_call (env_submitJob E ?q p) (JobSubmitted ?q p) s1")
  show ?case
  proof (cases b)
    case True
    with Cons.prems f shutdown show ?thesis by auto
  next
    case False
    with Cons f c refused more show ?thesis by (cases job) auto
  qed
qed

lemma submitCircuits_spec:
  assumes "flag_ok flag" and "submitCircuits E flag task fmt p is jobs s = (r, t)"
  shows "io_extends s t \<and> submit_outcome task fmt p is jobs r (new_events s t)"
  using assms(2)
proof (induction rule: submitCircuits_induct)
  case (finished jobs s)
  then show ?case by (auto simp: submit_outcome_def)
next
  case (shutdown i "is" jobs s s1)
  note f = flag_okD [OF assms(1) shutdown] and c = cancelJobs_spec [of s1 E jobs]
  from f(2) c extends_then [OF f(1) conjunct1 [OF c]] show ?case
    by (auto intro: submit_outcome_shutdownI [of _ "[]" i "is" "[]"])
next
  case (refused i "is" jobs s s1 e t)
  note f = flag_okD [OF assms(1) refused(1)] and c = ext_call_extends [OF refused(2)]
  from f(2) c extends_then [OF f(1) conjunct1 [OF c]] show ?case
    by (auto intro: submit_outcome_refusedI [of _ "[]" i "is" "[]"])
next
  case (more i "is" jobs s s1 j s2 r t)
  note f = flag_okD [OF assms(1) more(1)] and c = ext_call_extends [OF more(2)]
  have s2: "io_extends s s2" "submissions (new_events s s2) = [(makeJobRequest task i fmt, p, Inr j)]"
    "cancellations (new_events s s2) = []" using f(2) c extends_then [OF f(1) conjunct1 [OF c]] by auto
  with submit_outcome_Cons [OF conjunct2 [OF more(3)] s2(2,3)] extends_then [OF s2(1) conjunct1 [OF more(3)]]
  show ?case by simp
qed

lemma submitQuantumTask_run:
  assumes "flag_ok flag" and "submitQuantumTask E flag task s = (r, t)"
    and "validateSubmission task = Inr fmt" and "choosePlacement E s = (Inr p, s1)"
  shows "io_extends s t \<and>
    submit_outcome task fmt p [0..<length (circuit_files task)] [] r (new_events s t)"
proof -
  from assms(2-4) have "submitCircuits E flag task fmt p [0..<length (circuit_files task)] [] s1 = (r, t)"
    by (simp add: submitQuantumTask_def)
  from submitCircuits_spec [OF assms(1) this] choosePlacement_spec [OF assms(4)]
  have "io_extends s s1" "io_extends s1 t" "new_events s s1 = [ChildrenRead]"
    and out: "submit_outcome task fmt p [0..<length (circuit_files task)] [] r (new_events s1 t)" by auto
  moreover have "submit_outcome task fmt p [0..<length (circuit_files task)] [] r (ChildrenRead # es)"
    if "submit_outcome task fmt p [0..<length (circuit_files task)] [] r es" for es
  proof -
    have "submissions (ChildrenRead # es) = submissions es" "cancellations (ChildrenRead # es) = cancellations es"
      by simp_all
    with that show ?thesis unfolding submit_outcome_def by (simp only:)
  qed
  ultimately show ?thesis using io_extends_trans [of s s1 t] new_events_trans [of s s1 t] by simp
qed

lemma submitQuantumTask_extends:
  assumes "flag_ok flag" and "submitQuantumTask E flag task s = (r, t)"
  shows "io_extends s t"
proof (cases "validateSubmission task")
  case (Inl e)
  with assms show ?thesis by (simp add: submitQuantumTask_def)
next
  case (Inr fmt)
  obtain pr s1 where p: "choosePlacement E s = (pr, s1)" by (cases "choosePlacement E s")
  show ?thesis
  proof (cases pr)
    case (Inl e)
    with assms Inr p choosePlacement_spec [OF p] show ?thesis by (simp add: submitQuantumTask_def \<open>validateSubmission task = Inr fmt\<close>)
  next
    case (Inr q)
    with submitQuantumTask_run [OF assms \<open>validateSubmission task = Inr fmt\<close> p [unfolded Inr]] show ?thesis by simp
  qed
qed

lemma submitQuantumTask_success:
  assumes "submitQuantumTask E flag task s = (Inr jobs, t)"
  obtains fmt p s1 where "validateSubmission task = Inr fmt" "choosePlacement E s = (Inr p, s1)"
  using assms by (auto simp: submitQuantumTask_def split: sum.splits prod.splits)

text \<open>The external calls a submission makes.\<close>

fun submission_event :: "event \<Rightarrow> bool" where
  "submission_event (FlagRead _) = True"
| "submission_event ChildrenRead = True"
| "submission_event (JobSubmitted _ _ _) = True"
| "submission_event (JobCancelled _ _) = True"
| "submission_event _ = False"

lemma cancelJobs_events: "list_all submission_event (new_events s (cancelJobs E jobs s))"
proof (induction jobs arbitrary: s)
  case (Cons j jobs)
  let ?s1 = "snd (ext_call (env_cancel E j) (JobCancelled j) s)"
  from ext_call_extends [of "env_cancel E j" "JobCancelled j" s _ ?s1]
  have "io_extends s ?s1" "\<exists>r. new_events s ?s1 = [JobCancelled j r]" by (metis prod.collapse)+
  with Cons.IH [of ?s1] cancelJobs_spec [of ?s1 E jobs] show ?case
    using new_events_trans [of s ?s1 "cancelJobs E jobs ?s1"] by auto
qed simp

lemma submitCircuits_events:
  assumes "flag_ok flag" and "submitCircuits E flag task fmt p is jobs s = (r, t)"
  shows "io_extends s t \<and> list_all submission_event (new_events s t)"
  using assms(2)
proof (induction rule: submitCircuits_induct)
  case (finished jobs s)
  then show ?case by simp
next
  case (shutdown i "is" jobs s s1)
  note f = flag_okD [OF assms(1) shutdown]
  from f(2) cancelJobs_events [of s1 E jobs] extends_then [OF f(1) conjunct1 [OF cancelJobs_spec [of s1 E jobs]]]
  show ?case by auto
next
  case (refused i "is" jobs s s1 e t)
  note f = flag_okD [OF assms(1) refused(1)] and c = ext_call_extends [OF refused(2)]
  from f(2) c extends_then [OF f(1) conjunct1 [OF c]] show ?case by auto
next
  case (more i "is" jobs s s1 j s2 r t)
  note f = flag_okD [OF assms(1) more(1)] and c = ext_call_extends [OF more(2)]
  from f(2) c extends_then [OF f(1) conjunct1 [OF c]]
  have s2: "io_extends s s2" "list_all submission_event (new_events s s2)" by auto
  with more(3) extends_then [OF s2(1) conjunct1 [OF more(3)]] show ?case by simp
qed

lemma submitQuantumTask_events:
  assumes "flag_ok flag" and "submitQuantumTask E flag task s = (r, t)"
  shows "list_all submission_event (new_events s t)"
proof (cases "\<exists>fmt p s1. validateSubmission task = Inr fmt \<and> choosePlacement E s = (Inr p, s1)")
  case True
  then obtain fmt p s1 where v: "validateSubmission task = Inr fmt" and p: "choosePlacement E s = (Inr p, s1)" by blast
  with assms(2) have run: "submitCircuits E flag task fmt p [0..<length (circuit_files task)] [] s1 = (r, t)"
    by (simp add: submitQuantumTask_def)
  from choosePlacement_spec [OF p] submitCircuits_events [OF assms(1) run]
  show ?thesis using new_events_trans [of s s1 t] by simp
next
  case False
  with assms(2) have "t = s \<or> (\<exists>e. choosePlacement E s = (e, t))"
    by (auto simp: submitQuantumTask_def split: sum.splits prod.splits)
  then show ?thesis using choosePlacement_spec [of E s _ t] by auto
qed

lemma submitted_upto:
  "length js = length (circuit_files task) \<Longrightarrow>
   submitted task fmt p [0..<length (circuit_files task)] js =
   map2 (\<lambda>circuit j. (\<lparr>req_format = fmt, req_payload = map of_char circuit,
     req_numShots = scast (n_shots task)\<rparr>, p, Inr j)) (circuit_files task) js"
  by (rule nth_equalityI) (simp_all add: submitted_def makeJobRequest_def)

text \<open>A positive shot count survives the conversion from \<open>int32\<close> to \<open>size_t\<close>, a circuit the
  conversion to bytes.\<close>

lemma scast_shots: "0 < sint (n :: 32 word) \<Longrightarrow> uint (scast n :: 64 word) = sint n"
proof -
  assume n: "0 < sint n"
  have "sint n < 2 ^ 31" using sint_lt [of n] by simp
  then have "take_bit 64 (sint n) = sint n" using n by (intro take_bit_int_eq_self) auto
  moreover have "uint (scast n :: 64 word) = take_bit 64 (sint n)"
    by (simp only: scast_eq uint_word_of_int_eq) simp
  ultimately show ?thesis by (simp only:)
qed

lemma unat_of_char: "unat (of_char c :: 8 word) = of_char c"
proof -
  have "(of_char c :: 8 word) = of_nat (of_char c)" by (rule of_nat_of_char [symmetric])
  then have "unat (of_char c :: 8 word) = of_char c mod 2 ^ 8"
    by (simp only: unsigned_of_nat take_bit_eq_mod) simp
  then show ?thesis by simp
qed

lemma payload_text: "map (\<lambda>b. char_of (unat b)) (map (of_char :: char \<Rightarrow> 8 word) circuit) = circuit"
  by (simp add: o_def unat_of_char)

lemma upt_eq_split:
  assumes "[0..<n] = rest @ i # after"
  shows "rest = [0..<length rest] \<and> i = length rest \<and> length rest < n"
proof -
  from arg_cong [OF assms, of length] have n: "length rest < n" by simp
  have "rest = take (length rest) [0..<n]" and "i = [0..<n] ! length rest" by (simp_all add: assms)
  with n show ?thesis by simp
qed

text \<open>What the device was sent: the format, the circuit text, the shot count and the placement of
  every submitted request, with the device's answer.\<close>

definition sent_jobs :: "event list \<Rightarrow> (CircuitFormat \<times> string \<times> int \<times> Placement \<times> nat submitter_result) list" where
  "sent_jobs es =
     map (\<lambda>(q, p, r). (req_format q, map (\<lambda>b. char_of (unat b)) (req_payload q), uint (req_numShots q), p, r))
       (submissions es)"

lemma submitQuantumTask_jobs:
  assumes "flag_ok flag" and "submitQuantumTask E flag task s = (Inr jobs, t)"
  shows "\<exists>fmt p. validateSubmission task = Inr fmt \<and>
     p = (case fst (env_children E (world s)) of Inr (front # _) \<Rightarrow> On front | _ \<Rightarrow> Self) \<and>
     circuit_files task \<noteq> [] \<and> length jobs = length (circuit_files task) \<and>
     sent_jobs (new_events s t) =
       map2 (\<lambda>circuit j. (fmt, circuit, sint (n_shots task), p, Inr j)) (circuit_files task) jobs \<and>
     cancellations (new_events s t) = []"
proof -
  obtain fmt p s1 where v: "validateSubmission task = Inr fmt" and p: "choosePlacement E s = (Inr p, s1)"
    using submitQuantumTask_success [OF assms(2)] .
  from submitQuantumTask_run [OF assms v p] have len: "length jobs = length (circuit_files task)"
    and sub: "submissions (new_events s t) = submitted task fmt p [0..<length (circuit_files task)] jobs"
    and can: "cancellations (new_events s t) = []"
    by (auto simp: submit_outcome_def)
  from v have "circuit_files task \<noteq> []" and shots: "uint (scast (n_shots task) :: 64 word) = sint (n_shots task)"
    by (auto simp: validateSubmission_Inr_iff intro: scast_shots)
  moreover have "sent_jobs (new_events s t) =
     map2 (\<lambda>circuit j. (fmt, circuit, sint (n_shots task), p, Inr j)) (circuit_files task) jobs"
    unfolding sent_jobs_def sub submitted_upto [OF len]
    by (rule nth_equalityI) (use len in \<open>simp_all add: shots payload_text [simplified]\<close>)
  moreover have "p = (case fst (env_children E (world s)) of Inr (front # _) \<Rightarrow> On front | _ \<Rightarrow> Self)"
    using choosePlacement_spec [OF p] by (auto split: sum.splits list.splits if_splits)
  ultimately show ?thesis using v len can by blast
qed

lemma admitted_submittable:
  assumes "canRun (getSupportedInputFormats C) b task"
    and "compileQuantumTask C task b c = (Inr u, task', c')"
    and "circuit_files task \<noteq> []" and "0 < sint (n_shots task)"
  shows "\<exists>fmt. validateSubmission task' = Inr fmt \<and> fmt \<in> set (bw_supportedCircuitFormats b) \<and>
     length (circuit_files task') = length (circuit_files task) \<and> n_shots task' = n_shots task"
proof (cases "no_modify task")
  case True
  with assms show ?thesis
    by (auto simp: compileQuantumTask_no_modify validateSubmission_Inr_iff canRun_def canPrepareTaskForBackend_def
        Let_def split: if_splits)
next
  case False
  obtain target level outs where t: "compilerTarget b = Inr target"
    "compiles C b \<lparr>optimization_level = level, result_format = compilerFormat target\<rparr> (circuit_files task) c outs c'"
    "task' = task\<lparr>circuit_files := outs, circuit_file_type := taskCircuitType target\<rparr>"
    using compileQuantumTask_Inr [OF assms(2) False] .
  from compiles_length [OF t(2)] chooseCompilerTarget_label [OF t(1) [unfolded compilerTarget_def]] t(3) assms(3,4)
  show ?thesis by (auto simp: validateSubmission_Inr_iff)
qed

section \<open>Properties\<close>

text \<open>C19: A submission that succeeds has handed over the whole task: the task was valid (circuits,
  a positive shot count, a known format), the device was asked for exactly one job per circuit file,
  in the order of the files, all on the same placement (its first child, or itself when it lists
  none), and the returned handles are those jobs in that order. Every request carries the task's
  format, exactly its circuit's bytes and exactly its shot count, and no job was cancelled.\<close>

theorem submitQuantumTask_one_job_per_circuit:
  assumes "flag_ok flag" and "submitQuantumTask E flag task s = (Inr jobs, t)"
  shows "\<exists>fmt p. validateSubmission task = Inr fmt \<and>
     p = (case fst (env_children E (world s)) of Inr (front # _) \<Rightarrow> On front | _ \<Rightarrow> Self) \<and>
     circuit_files task \<noteq> [] \<and> length jobs = length (circuit_files task) \<and>
     sent_jobs (new_events s t) =
       map2 (\<lambda>circuit j. (fmt, circuit, sint (n_shots task), p, Inr j)) (circuit_files task) jobs \<and>
     cancellations (new_events s t) = []"
  by (rule submitQuantumTask_jobs [OF assms])

theorem submitQuantumTask_one_job_per_circuit_witness:
  "\<exists>fmt. validateSubmission sample_task = Inr fmt \<and>
     sent_jobs (new_events sample_io (snd (submitQuantumTask sample_env NeverTerminates sample_task sample_io))) =
     [(fmt, ''OPENQASM 2.0;'', 10, Self, Inr 0)]"
proof -
  have run: "submitQuantumTask sample_env NeverTerminates sample_task sample_io =
    (Inr [0], snd (submitQuantumTask sample_env NeverTerminates sample_task sample_io))"
    by (simp add: submitQuantumTask_def validateSubmission_def sample_task_def choosePlacement_def
        sample_env_def sample_io_def ext_call_def NeverTerminates_def mapTaskCircuitTypeToCircuitFormat_def Let_def)
  have "circuit_files sample_task = [''OPENQASM 2.0;'']" "sint (n_shots sample_task) = 10"
    "fst (env_children sample_env (world sample_io)) = Inl \<lparr>code = NotSupported, message = ''children''\<rparr>"
    by (simp_all add: sample_task_def sample_env_def)
  with submitQuantumTask_one_job_per_circuit [OF flag_ok_NeverTerminates run] show ?thesis by auto
qed

text \<open>C25: How a submission fails. An invalid task, and a device that cannot list its children for a
  reason other than not having any, are reported before any job is submitted. A refused job stops the
  submission at that circuit: the earlier circuits are submitted in order, the refusal is the last
  submission and is the error reported. A shutdown noticed between circuits cancels every job
  submitted so far, each once and in order, and nothing else is ever cancelled.\<close>

theorem submitQuantumTask_failure:
  assumes "flag_ok flag" and "submitQuantumTask E flag task s = (Inl e, t)"
  shows "(submissions (new_events s t) = [] \<and> cancellations (new_events s t) = [] \<and>
      (validateSubmission task = Inl e \<and> t = s \<or>
       (\<exists>err. fst (env_children E (world s)) = Inl err \<and> code err \<noteq> NotSupported \<and>
          e = toQrmciError SubmissionFailed err))) \<or>
    (\<exists>fmt p jobs. validateSubmission task = Inr fmt \<and> length jobs < length (circuit_files task) \<and>
      (kind e = ShutdownRequested \<and> cancellations (new_events s t) = jobs \<and>
         submissions (new_events s t) = submitted task fmt p [0..<length jobs] jobs \<or>
       kind e = SubmissionFailed \<and> cancellations (new_events s t) = [] \<and>
         (\<exists>err. e = toQrmciError SubmissionFailed err \<and>
           submissions (new_events s t) = submitted task fmt p [0..<length jobs] jobs @
             [(makeJobRequest task (length jobs) fmt, p, Inl err)])))"
proof (cases "validateSubmission task")
  case (Inl e')
  with assms(2) show ?thesis by (simp add: submitQuantumTask_def)
next
  case (Inr fmt)
  obtain pr s1 where p: "choosePlacement E s = (pr, s1)" by (cases "choosePlacement E s")
  show ?thesis
  proof (cases pr)
    case (Inl e')
    with assms(2) Inr p have "t = s1" "e = e'"
      by (auto simp: submitQuantumTask_def \<open>validateSubmission task = Inr fmt\<close>)
    with choosePlacement_spec [OF p] Inl show ?thesis by (auto split: sum.splits if_splits)
  next
    case (Inr q)
    from submitQuantumTask_run [OF assms \<open>validateSubmission task = Inr fmt\<close> p [unfolded Inr]]
    obtain new rest i after where split: "[0..<length (circuit_files task)] = rest @ i # after"
      and len: "length new = length rest"
      and out: "if kind e = ShutdownRequested
        then submissions (new_events s t) = submitted task fmt q rest new \<and> cancellations (new_events s t) = new
        else kind e = SubmissionFailed \<and> cancellations (new_events s t) = [] \<and>
          (\<exists>err. e = toQrmciError SubmissionFailed err \<and> submissions (new_events s t) =
             submitted task fmt q rest new @ [(makeJobRequest task i fmt, q, Inl err)])"
      by (auto simp: submit_outcome_def)
    from upt_eq_split [OF split] len
    have "rest = [0..<length new]" "i = length new" "length new < length (circuit_files task)" by simp_all
    with out \<open>validateSubmission task = Inr fmt\<close> show ?thesis by (auto split: if_splits)
  qed
qed


text \<open>The device refuses the second of two circuits.\<close>

definition refusing_env :: "nat environment" where
  "refusing_env = sample_env\<lparr>env_submitJob := (\<lambda>_ _ w. if w = 0 then (Inr 0, 1)
     else (Inl \<lparr>code = ErrorCode_outside 99, message = ''refused''\<rparr>, w))\<rparr>"

theorem submitQuantumTask_failure_witness:
  "case submitQuantumTask refusing_env NeverTerminates (sample_task\<lparr>circuit_files := [''a'', ''b'']\<rparr>) sample_io of
     (r, t) \<Rightarrow> \<exists>e. r = Inl e \<and> kind e = SubmissionFailed \<and> length (submissions (new_events sample_io t)) = 2 \<and>
       cancellations (new_events sample_io t) = []"
proof -
  let ?task = "sample_task\<lparr>circuit_files := [''a'', ''b'']\<rparr>"
  obtain r t where run: "submitQuantumTask refusing_env NeverTerminates ?task sample_io = (r, t)"
    by (cases "submitQuantumTask refusing_env NeverTerminates ?task sample_io")
  obtain e where e: "r = Inl e" "kind e = SubmissionFailed" "length (submissions (new_events sample_io t)) = 2"
    using run
    by (auto simp: submitQuantumTask_def validateSubmission_def sample_task_def choosePlacement_def refusing_env_def
        sample_env_def sample_io_def ext_call_def NeverTerminates_def mapTaskCircuitTypeToCircuitFormat_def Let_def
        toQrmciError_def new_events_def)
  from submitQuantumTask_failure [OF flag_ok_NeverTerminates run [unfolded e(1)]] e(2,3)
  have "cancellations (new_events sample_io t) = []" by auto
  with run e show ?thesis by simp
qed

text \<open>C13: A task a backend was found able to run is submittable once it is compiled for it: if the
  backend admits the task, compilation succeeds, and the task has circuits and a positive shot count,
  then the task that comes out of the compiler passes the submission check, in a format that the
  backend lists, with as many circuits as went in.\<close>

theorem admitted_task_is_submittable:
  assumes "canRun (getSupportedInputFormats C) b task"
    and "compileQuantumTask C task b c = (Inr u, task', c')"
    and "circuit_files task \<noteq> []" and "0 < sint (n_shots task)"
  shows "\<exists>fmt. validateSubmission task' = Inr fmt \<and> fmt \<in> set (bw_supportedCircuitFormats b) \<and>
     length (circuit_files task') = length (circuit_files task) \<and> n_shots task' = n_shots task"
  by (rule admitted_submittable [OF assms])

theorem admitted_task_is_submittable_witness:
  "\<exists>fmt. validateSubmission (fst (snd (compileQuantumTask sample_compiler sample_quake_task sample_backend ()))) = Inr fmt \<and>
     fmt \<in> set (bw_supportedCircuitFormats sample_backend)"
proof -
  have adm: "canRun (getSupportedInputFormats sample_compiler) sample_backend sample_quake_task"
    by (simp add: canRun_def canPrepareTaskForBackend_def sample_backend_def sample_quake_task_def sample_task_def
        sample_compiler_def validateInputFormatIsSupportedCircuitFormat_def
        TaskCircuitTypeToCompilerInputFormatMapping_def chooseCompilerTarget_def CompilerTargetPriority_def)
  obtain u task' c' where run: "compileQuantumTask sample_compiler sample_quake_task sample_backend () = (Inr u, task', c')"
    by (simp add: compileQuantumTask_def compilerTarget_def sample_backend_def sample_quake_task_def sample_task_def
        sample_compiler_def validateInputFormatIsSupportedCircuitFormat_def getCompilerOptimizationLevel_def
        TaskCircuitTypeToCompilerInputFormatMapping_def chooseCompilerTarget_def CompilerTargetPriority_def)
  have "circuit_files sample_quake_task \<noteq> []" "0 < sint (n_shots sample_quake_task)"
    by (simp_all add: sample_quake_task_def sample_task_def)
  from admitted_task_is_submittable [OF adm run this] run show ?thesis by auto
qed

end
