(* ===== verification/Task_Execution.thy ===== *)
theory Task_Execution
  imports Task_Submission
begin

text \<open>
  The rest of \<open>src/Runners.cpp\<close>: waiting for the jobs of a task, collecting their counts, and
  assembling the \<open>QuantumResult\<close>. The waiting loop has no bound of its own (a zero timeout waits
  indefinitely), so it is a \<open>partial_function (option)\<close>: \<open>None\<close> is a call that never returns.
\<close>

section \<open>Assembling a result\<close>

text \<open>The inner loop of the validation: no count may exceed \<open>INT32_MAX\<close>.\<close>

fun checkCounts :: "nat \<Rightarrow> Counts \<Rightarrow> unit result" where
  "checkCounts index [] = Inr ()"
| "checkCounts index ((key, value) # counts) =
     (if uint value > 2147483647 then
        Inl (mk_error DeviceError (concat
          [''Execution failed: count for '', quoted key, '' in circuit '', string_of_nat index, '' is '',
           string_of_nat (unat value), '', which exceeds the wire format'', [CHR 0x27], ''s INT32_MAX limit.'']))
      else checkCounts index counts)"

fun checkHistogram :: "nat \<Rightarrow> Counts option list \<Rightarrow> unit result" where
  "checkHistogram index [] = Inr ()"
| "checkHistogram index (None # histogram) =
     Inl (mk_error DeviceError (''Execution failed: circuit '' @ string_of_nat index @ '' produced no result.''))"
| "checkHistogram index (Some counts # histogram) =
     (case checkCounts index counts of
        Inl e \<Rightarrow> Inl e
      | Inr _ \<Rightarrow> checkHistogram (Suc index) histogram)"

text \<open>The map a \<open>for\<close> loop of \<open>(*protoCounts)[key] = static_cast<int32_t>(value)\<close> fills.\<close>

definition protoCounts :: "Counts \<Rightarrow> string \<rightharpoonup> 32 word" where
  "protoCounts counts = foldl (\<lambda>m (key, value). m(key \<mapsto> ucast value)) Map.empty counts"

definition buildQuantumResult :: "QuantumTask \<Rightarrow> Counts option list \<Rightarrow> QuantumResult result" where
  "buildQuantumResult task histogram =
     (let expectedCircuits = length (circuit_files task) in
      if length histogram \<noteq> expectedCircuits then
        Inl (mk_error DeviceError (concat
          [''Execution failed: expected '', string_of_nat expectedCircuits, '' circuit result(s), got '',
           string_of_nat (length histogram), ''.'']))
      else case checkHistogram 0 histogram of
        Inl e \<Rightarrow> Inl e
      | Inr _ \<Rightarrow>
          Inr \<lparr>res_task_id = task_id task, destination = result_destination task,
               executed_qpu = scheduled_qpu task, execution_status = True,
               additional_information = ''COMPLETED'',
               results = map (\<lambda>counts. protoCounts (the counts)) histogram\<rparr>)"

definition cancelQuantumTask :: "QuantumTask \<Rightarrow> string \<Rightarrow> QuantumResult" where
  "cancelQuantumTask task cancelReason =
     \<lparr>res_task_id = task_id task, destination = result_destination task,
      executed_qpu = scheduled_qpu task, execution_status = False,
      additional_information = ''CANCELLED: '' @ cancelReason, results = []\<rparr>"

section \<open>Waiting and collecting\<close>

text \<open>In seconds.\<close>

definition CollectionSlice :: int where
  "CollectionSlice = 1"

text \<open>
  One turn of the \<open>for (;;)\<close> loop over a job: \<open>Some\<close> leaves the loop (\<open>break\<close> is \<open>Inr ()\<close>, a
  \<open>return\<close> is its error), \<open>None\<close> goes round again. The difference of two steady-clock readings is
  a number of nanoseconds; \<open>waitTimeout\<close> is converted to nanoseconds for the comparison.
\<close>

definition waitSlice ::
  "'w environment \<Rightarrow> ('w, 'z) flag \<Rightarrow> int \<Rightarrow> nat \<Rightarrow> int \<Rightarrow> ('w, 'z) io_scheme \<Rightarrow>
   unit result option \<times> ('w, 'z) io_scheme" where
  "waitSlice E terminationFlag waitTimeout job waitStarted s =
     (let (terminate, s) = terminationFlag s in
      if terminate then
        (Some (Inl (mk_error ShutdownRequested ''Shutdown requested while collecting a result.'')), s)
      else
        let (status, s) = ext_call (env_wait E job CollectionSlice) (JobWaited job) s in
        case status of
          Inr st \<Rightarrow>
            if st \<noteq> Done then
              (Some (Inl (mk_error DeviceError ''Job finished without producing a result (canceled).'')), s)
            else (Some (Inr ()), s)
        | Inl e \<Rightarrow>
            if code e \<noteq> Timeout then (Some (Inl (toQrmciError DeviceError e)), s)
            else if waitTimeout > 0 then
              let (now, s) = Clock_now E s in
              if now - waitStarted \<ge> nanoseconds waitTimeout then
                (Some (Inl (mk_error DeviceError ''Job did not finish within the configured wait timeout.'')), s)
              else (None, s)
            else (None, s))"

partial_function (option) waitForJob ::
  "'w environment \<Rightarrow> ('w, 'z) flag \<Rightarrow> int \<Rightarrow> nat \<Rightarrow> int \<Rightarrow> ('w, 'z) io_scheme \<Rightarrow>
   (unit result \<times> ('w, 'z) io_scheme) option" where
  "waitForJob E terminationFlag waitTimeout job waitStarted s =
     (let (outcome, s) = waitSlice E terminationFlag waitTimeout job waitStarted s in
      case outcome of
        Some r \<Rightarrow> Some (r, s)
      | None \<Rightarrow> waitForJob E terminationFlag waitTimeout job waitStarted s)"

declare waitForJob.simps [code]

fun collectJobs ::
  "'w environment \<Rightarrow> ('w, 'z) flag \<Rightarrow> int \<Rightarrow> nat list \<Rightarrow> Counts option list \<Rightarrow> ('w, 'z) io_scheme \<Rightarrow>
   (Counts option list result \<times> ('w, 'z) io_scheme) option" where
  "collectJobs E terminationFlag waitTimeout [] histogram s = Some (Inr histogram, s)"
| "collectJobs E terminationFlag waitTimeout (job # jobs) histogram s =
     (let (waitStarted, s) = Clock_now E s in
      case waitForJob E terminationFlag waitTimeout job waitStarted s of
        None \<Rightarrow> None
      | Some (Inl e, s) \<Rightarrow> Some (Inl e, s)
      | Some (Inr _, s) \<Rightarrow>
          let (counts, s) = ext_call (env_counts E job) (CountsRead job) s in
          case counts of
            Inl e \<Rightarrow> Some (Inl (toQrmciError DeviceError e), s)
          | Inr c \<Rightarrow> collectJobs E terminationFlag waitTimeout jobs (histogram @ [Some c]) s)"

definition collectQuantumResult ::
  "'w environment \<Rightarrow> ('w, 'z) flag \<Rightarrow> QuantumTask \<Rightarrow> nat list \<Rightarrow> int \<Rightarrow> ('w, 'z) io_scheme \<Rightarrow>
   (QuantumResult result \<times> ('w, 'z) io_scheme) option" where
  "collectQuantumResult E terminationFlag task jobs waitTimeout s =
     (case collectJobs E terminationFlag waitTimeout jobs [] s of
        None \<Rightarrow> None
      | Some (Inl e, s) \<Rightarrow> Some (Inl e, s)
      | Some (Inr histogram, s) \<Rightarrow> Some (buildQuantumResult task histogram, s))"

definition collectQuantumResultUninterruptible ::
  "'w environment \<Rightarrow> QuantumTask \<Rightarrow> nat list \<Rightarrow> int \<Rightarrow> ('w, 'z) io_scheme \<Rightarrow>
   (QuantumResult result \<times> ('w, 'z) io_scheme) option" where
  "collectQuantumResultUninterruptible E task jobs waitTimeout s =
     collectQuantumResult E NeverTerminates task jobs waitTimeout s"

definition executeQuantumTask ::
  "'w environment \<Rightarrow> ('w, 'z) flag \<Rightarrow> QuantumTask \<Rightarrow> int \<Rightarrow> ('w, 'z) io_scheme \<Rightarrow>
   (QuantumResult result \<times> ('w, 'z) io_scheme) option" where
  "executeQuantumTask E terminationFlag task waitTimeout s =
     (case submitQuantumTask E terminationFlag task s of
        (Inl e, s) \<Rightarrow> Some (Inl e, s)
      | (Inr jobs, s) \<Rightarrow> collectQuantumResult E terminationFlag task jobs waitTimeout s)"

definition executeQuantumTaskUninterruptible ::
  "'w environment \<Rightarrow> QuantumTask \<Rightarrow> int \<Rightarrow> ('w, 'z) io_scheme \<Rightarrow>
   (QuantumResult result \<times> ('w, 'z) io_scheme) option" where
  "executeQuantumTaskUninterruptible E task waitTimeout s =
     executeQuantumTask E NeverTerminates task waitTimeout s"

section \<open>Lemmas on results\<close>

lemma checkCounts_Inr_iff: "checkCounts index counts = Inr u \<longleftrightarrow> (\<forall>(k, v) \<in> set counts. uint v \<le> 2147483647)"
  by (induction index counts rule: checkCounts.induct) auto

lemma checkCounts_error_kind: "checkCounts index counts = Inl e \<Longrightarrow> kind e = DeviceError"
  by (induction index counts rule: checkCounts.induct) (auto split: if_splits)

lemma checkHistogram_Inr_iff:
  "checkHistogram index h = Inr u \<longleftrightarrow>
     (\<forall>c \<in> set h. \<exists>m. c = Some m \<and> (\<forall>(k, v) \<in> set m. uint v \<le> 2147483647))"
proof (induction index h rule: checkHistogram.induct)
  case (3 index counts h)
  then show ?case
    using checkCounts_Inr_iff [of index counts] by (cases "checkCounts index counts") auto
qed simp_all

lemma checkHistogram_error_kind: "checkHistogram index h = Inl e \<Longrightarrow> kind e = DeviceError"
  by (induction index h rule: checkHistogram.induct) (auto dest: checkCounts_error_kind split: sum.splits)

lemma protoCounts_apply: "protoCounts counts k = map_option ucast (map_of (rev counts) k)"
  by (induction counts rule: rev_induct) (auto simp: protoCounts_def)

lemma map_of_rev_distinct: "distinct (map fst xs) \<Longrightarrow> map_of (rev xs) = map_of xs"
  by (subst map_of_inject_set) (simp_all add: rev_map [symmetric])

lemma sint_ucast_count: "uint (v :: 64 word) \<le> 2147483647 \<Longrightarrow> sint (ucast v :: 32 word) = uint v"
proof -
  assume v: "uint v \<le> 2147483647"
  have "sint (ucast v :: 32 word) = signed_take_bit 31 (uint v)"
    by (simp only: sint_uint unsigned_ucast_eq) (simp add: signed_take_bit_take_bit)
  also have "\<dots> = uint v"
    using v order_trans [OF _ uint_ge_0, of "- 2147483648" v] by (intro signed_take_bit_int_eq_self) simp_all
  finally show ?thesis .
qed

lemma protoCounts_exact:
  assumes "distinct (map fst counts)" and "\<forall>(k, v) \<in> set counts. uint v \<le> 2147483647"
  shows "map_option sint (protoCounts counts k) = map_option uint (map_of counts k)"
proof (cases "map_of counts k")
  case None
  then show ?thesis by (simp add: protoCounts_apply map_of_rev_distinct assms(1))
next
  case (Some v)
  with assms(2) have "uint v \<le> 2147483647" by (auto dest: map_of_SomeD)
  with Some show ?thesis by (simp add: protoCounts_apply map_of_rev_distinct assms(1) sint_ucast_count)
qed

section \<open>Lemmas on waiting\<close>

text \<open>The jobs seen to finish, and the counts read, in order.\<close>

fun done_job :: "event \<Rightarrow> nat option" where
  "done_job (JobWaited j st) = (if st = Inr Done then Some j else None)"
| "done_job _ = None"

fun count_reading :: "event \<Rightarrow> (nat \<times> Counts submitter_result) option" where
  "count_reading (CountsRead j r) = Some (j, r)"
| "count_reading _ = None"

definition done_jobs :: "event list \<Rightarrow> nat list" where
  "done_jobs es = List.map_filter done_job es"

definition counts_read :: "event list \<Rightarrow> (nat \<times> Counts submitter_result) list" where
  "counts_read es = List.map_filter count_reading es"

definition wait_count :: "event list \<Rightarrow> nat" where
  "wait_count es = length (filter (\<lambda>e. case e of JobWaited _ _ \<Rightarrow> True | _ \<Rightarrow> False) es)"

lemma done_jobs_simps [simp]:
  "done_jobs [] = []"
  "done_jobs (e # es) = (case done_job e of None \<Rightarrow> done_jobs es | Some x \<Rightarrow> x # done_jobs es)"
  "done_jobs (es @ fs) = done_jobs es @ done_jobs fs"
  by (simp_all add: done_jobs_def List.map_filter_def split: option.splits)

lemma counts_read_simps [simp]:
  "counts_read [] = []"
  "counts_read (e # es) = (case count_reading e of None \<Rightarrow> counts_read es | Some x \<Rightarrow> x # counts_read es)"
  "counts_read (es @ fs) = counts_read es @ counts_read fs"
  by (simp_all add: counts_read_def List.map_filter_def split: option.splits)

lemma wait_count_simps [simp]:
  "wait_count [] = 0"
  "wait_count (e # es) = (case e of JobWaited _ _ \<Rightarrow> 1 | _ \<Rightarrow> 0) + wait_count es"
  "wait_count (es @ fs) = wait_count es + wait_count fs"
  by (simp_all add: wait_count_def split: event.splits)

lemma submission_only_quiet: "list_all submission_event es \<Longrightarrow> done_jobs es = [] \<and> counts_read es = []"
proof (induction es)
  case (Cons e es)
  then show ?case by (cases e) simp_all
qed simp

lemma flag_ok_events:
  assumes "flag_ok flag" and "flag s = (b, t)"
  shows "io_extends s t" "submissions (new_events s t) = []" "cancellations (new_events s t) = []"
    "done_jobs (new_events s t) = []" "counts_read (new_events s t) = []" "wait_count (new_events s t) = 0"
  using assms unfolding flag_ok_def by fastforce+

lemma waitForJob_induct [consumes 1, case_names stop step]:
  assumes "waitForJob E flag waitTimeout job started s = Some (r, t)"
    and stop: "\<And>s r t. waitSlice E flag waitTimeout job started s = (Some r, t) \<Longrightarrow> P s r t"
    and step: "\<And>s u r t. waitSlice E flag waitTimeout job started s = (None, u) \<Longrightarrow> P u r t \<Longrightarrow> P s r t"
  shows "P s r t"
proof -
  let ?Q = "\<lambda>E' flag' wt j st s y. E' = E \<and> flag' = flag \<and> wt = waitTimeout \<and> j = job \<and> st = started \<longrightarrow>
    P s (fst y) (snd y)"
  have "?Q E flag waitTimeout job started s (r, t)"
    by (rule waitForJob.raw_induct [where P = ?Q, OF _ assms(1)])
      (auto simp: Let_def split: prod.splits option.splits intro: stop, blast intro: step)
  then show ?thesis by simp
qed

lemma waitSlice_frame:
  assumes "flag_ok flag" and "waitSlice E flag waitTimeout job started s = (r, t)"
  shows "io_extends s t \<and> submissions (new_events s t) = [] \<and> cancellations (new_events s t) = [] \<and>
    counts_read (new_events s t) = [] \<and> wait_count (new_events s t) \<le> 1 \<and>
    done_jobs (new_events s t) = (if r = Some (Inr ()) then [job] else []) \<and>
    (\<forall>e. r = Some (Inl e) \<longrightarrow> kind e \<in> {ShutdownRequested, DeviceError})"
proof -
  obtain b s1 where f: "flag s = (b, s1)" by (cases "flag s")
  note s1 = flag_ok_events [OF assms(1) f]
  obtain st s2 where w: "ext_call (env_wait E job CollectionSlice) (JobWaited job) s1 = (st, s2)"
    by (cases "ext_call (env_wait E job CollectionSlice) (JobWaited job) s1")
  note s2 = ext_call_extends [OF w]
  obtain now s3 where c: "Clock_now E s2 = (now, s3)" by (cases "Clock_now E s2")
  note s3 = Clock_now_extends [OF c]
  have "io_extends s s2" "new_events s s2 = new_events s s1 @ [JobWaited job st]"
    using s1 s2 io_extends_trans new_events_trans by metis+
  moreover have "io_extends s s3" "new_events s s3 = new_events s s1 @ [JobWaited job st, ClockRead now]"
    using calculation s3 io_extends_trans [of s s2 s3] new_events_trans [of s s2 s3] by simp_all
  ultimately show ?thesis
    using assms(2) s1 f w c
    by (cases b; cases st)
      (auto simp: waitSlice_def split: if_splits JobStatus.splits)
qed


lemma waitForJob_frame:
  assumes "flag_ok flag" and "waitForJob E flag waitTimeout job started s = Some (r, t)"
  shows "io_extends s t \<and> submissions (new_events s t) = [] \<and> cancellations (new_events s t) = [] \<and>
    counts_read (new_events s t) = [] \<and> done_jobs (new_events s t) = (if r = Inr () then [job] else []) \<and>
    (\<forall>e. r = Inl e \<longrightarrow> kind e \<in> {ShutdownRequested, DeviceError})"
  using assms(2)
proof (induction rule: waitForJob_induct)
  case (stop s r t)
  from waitSlice_frame [OF assms(1) stop] show ?case by auto
next
  case (step s u r t)
  from waitSlice_frame [OF assms(1) step(1)] step(2)
  have ext: "io_extends s u" "io_extends u t" by simp_all
  from waitSlice_frame [OF assms(1) step(1)] step(2) show ?case
    by (simp add: io_extends_trans [OF ext] new_events_trans [OF ext])
qed

text \<open>A collection of a list of jobs that succeeds: every job was seen to finish and then its counts
  were read, in the order of the list.\<close>

lemma collectJobs_success:
  assumes "flag_ok flag" and "collectJobs E flag waitTimeout jobs h s = Some (Inr h', t)"
  shows "io_extends s t \<and> submissions (new_events s t) = [] \<and> cancellations (new_events s t) = [] \<and>
    done_jobs (new_events s t) = jobs \<and>
    (\<exists>cs. h' = h @ map Some cs \<and> length cs = length jobs \<and> counts_read (new_events s t) = zip jobs (map Inr cs) \<and>
       (\<forall>c \<in> set cs. \<exists>j w. fst (env_counts E j w) = Inr c))"
  using assms(2)
proof (induction jobs arbitrary: h s)
  case Nil
  then show ?case by auto
next
  case (Cons job jobs)
  obtain started s1 where c: "Clock_now E s = (started, s1)" by (cases "Clock_now E s")
  with Cons.prems obtain s2 where w: "waitForJob E flag waitTimeout job started s1 = Some (Inr (), s2)"
    by (auto split: option.splits sum.splits)
  obtain cr s3 where r: "ext_call (env_counts E job) (CountsRead job) s2 = (cr, s3)"
    by (cases "ext_call (env_counts E job) (CountsRead job) s2")
  with Cons.prems c w obtain m where cr: "cr = Inr m"
    and rest: "collectJobs E flag waitTimeout jobs (h @ [Some m]) s3 = Some (Inr h', t)"
    by (auto split: sum.splits)
  note s1 = Clock_now_extends [OF c] and s2 = waitForJob_frame [OF assms(1) w] and s3 = ext_call_extends [OF r]
  note IH = Cons.IH [OF rest]
  from IH obtain cs where cs: "h' = h @ map Some (m # cs)" "length cs = length jobs"
    "counts_read (new_events s3 t) = zip jobs (map Inr cs)" "\<forall>c \<in> set cs. \<exists>j w. fst (env_counts E j w) = Inr c" by auto
  have e02: "io_extends s s2" using s1 s2 io_extends_trans by blast
  have e03: "io_extends s s3" using e02 s3 io_extends_trans by blast
  have e3t: "io_extends s3 t" using IH by simp
  have ev: "new_events s t = ClockRead started # new_events s1 s2 @ CountsRead job cr # new_events s3 t"
    using new_events_trans [OF e03 e3t] new_events_trans [OF e02, of s3] new_events_trans [of s s1 s2] s1 s2 s3 by simp
  have "fst (env_counts E job (world s2)) = Inr m"
    using r cr by (auto simp: ext_call_def split: prod.splits)
  then have "\<forall>c \<in> set (m # cs). \<exists>j w. fst (env_counts E j w) = Inr c" using cs(4) by auto
  moreover have "counts_read (new_events s t) = zip (job # jobs) (map Inr (m # cs))"
    using ev s2 cs(3) cr by simp
  ultimately have "\<exists>cs. h' = h @ map Some cs \<and> length cs = length (job # jobs) \<and>
      counts_read (new_events s t) = zip (job # jobs) (map Inr cs) \<and>
      (\<forall>c \<in> set cs. \<exists>j w. fst (env_counts E j w) = Inr c)"
    using cs(1,2) by (intro exI [of _ "m # cs"]) simp
  moreover have "done_jobs (new_events s t) = job # jobs" "submissions (new_events s t) = []"
    "cancellations (new_events s t) = []"
    using ev s2 IH by simp_all
  ultimately show ?case using io_extends_trans [OF e03 e3t] by blast
qed

lemma collectJobs_error:
  assumes "flag_ok flag" and "collectJobs E flag waitTimeout jobs h s = Some (Inl e, t)"
  shows "io_extends s t \<and> submissions (new_events s t) = [] \<and> cancellations (new_events s t) = [] \<and>
    kind e \<in> {ShutdownRequested, DeviceError}"
  using assms(2)
proof (induction jobs arbitrary: h s)
  case Nil
  then show ?case by simp
next
  case (Cons job jobs)
  obtain started s1 where c: "Clock_now E s = (started, s1)" by (cases "Clock_now E s")
  with Cons.prems obtain wr s2 where w: "waitForJob E flag waitTimeout job started s1 = Some (wr, s2)"
    by (auto split: option.splits)
  obtain cr s3 where r: "ext_call (env_counts E job) (CountsRead job) s2 = (cr, s3)"
    by (cases "ext_call (env_counts E job) (CountsRead job) s2")
  note s1 = Clock_now_extends [OF c] and s2 = waitForJob_frame [OF assms(1) w] and s3 = ext_call_extends [OF r]
  have e02: "io_extends s s2" using s1 s2 io_extends_trans by blast
  have e03: "io_extends s s3" using e02 s3 io_extends_trans by blast
  have ev2: "new_events s s2 = ClockRead started # new_events s1 s2"
    using new_events_trans [of s s1 s2] s1 s2 by simp
  have ev3: "new_events s s3 = ClockRead started # new_events s1 s2 @ [CountsRead job cr]"
    using new_events_trans [OF e02, of s3] ev2 s3 by simp
  show ?case
  proof (cases wr)
    case (Inl e')
    with Cons.prems c w have "e' = e" "s2 = t" by auto
    with e02 ev2 s2 Inl show ?thesis by auto
  next
    case wr: (Inr u)
    show ?thesis
    proof (cases cr)
      case (Inl e')
      with Cons.prems c w wr r have "e = toQrmciError DeviceError e'" "t = s3" by auto
      with e03 ev3 s2 show ?thesis by simp
    next
      case (Inr m)
      with Cons.prems c w wr r have "collectJobs E flag waitTimeout jobs (h @ [Some m]) s3 = Some (Inl e, t)" by auto
      note IH = Cons.IH [OF this]
      with e03 have "io_extends s3 t" "io_extends s t" using io_extends_trans by blast+
      with IH new_events_trans [OF e03, of t] ev3 s2 show ?thesis by simp
    qed
  qed
qed


text \<open>Executing a task talks to the device, never to the broker.\<close>

lemma silent_submitQuantumTask:
  assumes "flag_ok flag" and "submitQuantumTask E flag task s = (r, t)"
  shows "silent s t"
proof -
  have "\<not> broker_event e" if "submission_event e" for e using that by (cases e) simp_all
  then show ?thesis
    using submitQuantumTask_extends [OF assms] submitQuantumTask_events [OF assms] by (auto simp: silent_def list_all_iff)
qed

fun collection_event :: "event \<Rightarrow> bool" where
  "collection_event (FlagRead _) = True"
| "collection_event (ClockRead _) = True"
| "collection_event (JobWaited _ _) = True"
| "collection_event (CountsRead _ _) = True"
| "collection_event _ = False"

lemma collecting_waitSlice:
  assumes "flag_ok flag" and "waitSlice E flag waitTimeout job started s = (r, t)"
  shows "emits collection_event s t"
proof -
  obtain b s1 where f: "flag s = (b, s1)" by (cases "flag s")
  obtain st s2 where w: "ext_call (env_wait E job CollectionSlice) (JobWaited job) s1 = (st, s2)"
    by (cases "ext_call (env_wait E job CollectionSlice) (JobWaited job) s1")
  obtain now s3 where c: "Clock_now E s2 = (now, s3)" by (cases "Clock_now E s2")
  have "emits collection_event s s1" "emits collection_event s1 s2" "emits collection_event s2 s3"
    using emits_flag [OF assms(1) f] emits_ext_call [OF w] emits_Clock_now [OF c] by simp_all
  then have "emits collection_event s s1" "emits collection_event s s2" "emits collection_event s s3"
    by (blast intro: emits_trans)+
  with assms(2) f w c show ?thesis
    by (auto simp: waitSlice_def split: if_splits sum.splits)
qed

lemma collecting_waitForJob:
  assumes "flag_ok flag" and "waitForJob E flag waitTimeout job started s = Some (r, t)"
  shows "emits collection_event s t"
  using assms(2)
  by (induction rule: waitForJob_induct) (blast intro: collecting_waitSlice [OF assms(1)] emits_trans)+

lemma collecting_collectJobs:
  assumes "flag_ok flag" and "collectJobs E flag waitTimeout jobs h s = Some (r, t)"
  shows "emits collection_event s t"
  using assms(2)
proof (induction jobs arbitrary: h s)
  case (Cons job jobs)
  obtain started s1 where c: "Clock_now E s = (started, s1)" by (cases "Clock_now E s")
  with Cons.prems obtain wr s2 where w: "waitForJob E flag waitTimeout job started s1 = Some (wr, s2)"
    by (auto split: option.splits)
  obtain cr s3 where r: "ext_call (env_counts E job) (CountsRead job) s2 = (cr, s3)"
    by (cases "ext_call (env_counts E job) (CountsRead job) s2")
  have "emits collection_event s s1" using emits_Clock_now [OF c] by simp
  from emits_trans [OF this collecting_waitForJob [OF assms(1) w]] have s2: "emits collection_event s s2" .
  moreover have "emits collection_event s s3" using emits_trans [OF s2 emits_ext_call [OF r]] by simp
  ultimately show ?case using Cons.prems Cons.IH c w r by (auto split: sum.splits intro: emits_trans)
qed simp

lemma collecting_collectQuantumResult:
  "flag_ok flag \<Longrightarrow> collectQuantumResult E flag task jobs waitTimeout s = Some (r, t) \<Longrightarrow> emits collection_event s t"
  by (auto simp: collectQuantumResult_def split: option.splits prod.splits sum.splits intro: collecting_collectJobs)

lemma collection_not_broker: "collection_event e \<Longrightarrow> \<not> broker_event e"
  by (cases e) simp_all

lemmas silent_waitSlice = silent_emits [OF collecting_waitSlice collection_not_broker]
  and silent_waitForJob = silent_emits [OF collecting_waitForJob collection_not_broker]
  and silent_collectJobs = silent_emits [OF collecting_collectJobs collection_not_broker]
  and silent_collectQuantumResult = silent_emits [OF collecting_collectQuantumResult collection_not_broker]

lemma silent_executeQuantumTask:
  "flag_ok flag \<Longrightarrow> executeQuantumTask E flag task waitTimeout s = Some (r, t) \<Longrightarrow> silent s t"
  by (auto simp: executeQuantumTask_def split: prod.splits sum.splits
      intro: silent_submitQuantumTask silent_collectQuantumResult silent_trans)

section \<open>When waiting ends\<close>

text \<open>
  What the documentation of the steady clock and of \<open>Job::wait\<close> promises, over a ghost clock of the
  world: a reading is the current time, time never goes back, and a wait that reports a timeout has
  lasted for the slice it was given.
\<close>

definition steady_env :: "'w environment \<Rightarrow> ('w \<Rightarrow> int) \<Rightarrow> bool" where
  "steady_env E clock \<longleftrightarrow>
     (\<forall>w. fst (env_now E w) = clock w \<and> clock w \<le> clock (snd (env_now E w))) \<and>
     (\<forall>w. clock w \<le> clock (snd (env_terminationRequested E w))) \<and>
     (\<forall>job secs w. clock w \<le> clock (snd (env_wait E job secs w))) \<and>
     (\<forall>job secs w e. fst (env_wait E job secs w) = Inl e \<longrightarrow> code e = Timeout \<longrightarrow>
        clock w + secs * 1000000000 \<le> clock (snd (env_wait E job secs w)))"

definition flag_steady :: "('w \<Rightarrow> int) \<Rightarrow> ('w, 'z) flag \<Rightarrow> bool" where
  "flag_steady clock flag \<longleftrightarrow> (\<forall>s. clock (world s) \<le> clock (world (snd (flag s))))"

lemma flag_steady_terminationRequested [simp]:
  "steady_env E clock \<Longrightarrow> flag_steady clock (terminationRequested E)"
  by (simp add: flag_steady_def terminationRequested_def steady_env_def io_simps)

lemma flag_steady_NeverTerminates [simp]: "flag_steady clock NeverTerminates"
  by (simp add: flag_steady_def NeverTerminates_def)

lemma waitSlice_again:
  assumes "steady_env E clock" and "flag_steady clock flag"
    and "waitSlice E flag waitTimeout job started s = (None, u)"
  shows "\<not> fst (flag s) \<and> clock (world s) + 1000000000 \<le> clock (world u) \<and>
    (0 < waitTimeout \<longrightarrow> clock (world s) + 1000000000 - started < nanoseconds waitTimeout)"
proof -
  obtain b s1 where f: "flag s = (b, s1)" by (cases "flag s")
  from assms(2) f have s1: "clock (world s) \<le> clock (world s1)" unfolding flag_steady_def by (metis snd_conv)
  obtain st s2 where w: "ext_call (env_wait E job CollectionSlice) (JobWaited job) s1 = (st, s2)"
    by (cases "ext_call (env_wait E job CollectionSlice) (JobWaited job) s1")
  from assms(3) f w obtain e where st: "\<not> b" "st = Inl e" "code e = Timeout"
    by (auto simp: waitSlice_def Let_def split: sum.splits if_splits)
  have "fst (env_wait E job CollectionSlice (world s1)) = Inl e" "world s2 = snd (env_wait E job CollectionSlice (world s1))"
    using w st ext_call_simps(1,2) [of "env_wait E job CollectionSlice" "JobWaited job" s1] by simp_all
  with assms(1) st(3) have s2: "clock (world s1) + 1000000000 \<le> clock (world s2)"
    unfolding steady_env_def CollectionSlice_def by (metis mult_1)
  obtain now s3 where c: "Clock_now E s2 = (now, s3)" by (cases "Clock_now E s2")
  then have "now = fst (env_now E (world s2))" "world s3 = snd (env_now E (world s2))"
    using ext_call_simps(1,2) [of "env_now E" ClockRead s2] by (simp_all add: Clock_now_def)
  with assms(1) have s3: "now = clock (world s2)" "clock (world s2) \<le> clock (world s3)"
    unfolding steady_env_def by simp_all
  show ?thesis using assms(3) f w c st s1 s2 s3 by (auto simp: waitSlice_def split: if_splits)
qed

lemma waitForJob_bounded:
  assumes "flag_ok flag" and "steady_env E clock" and "flag_steady clock flag"
    and "0 < waitTimeout" and "fits64 (waitTimeout * 1000000000)"
    and "started + (waitTimeout - int n) * 1000000000 \<le> clock (world s)" and "0 < n"
  shows "\<exists>r t. waitForJob E flag waitTimeout job started s = Some (r, t) \<and> wait_count (new_events s t) \<le> n"
  using assms(6,7)
proof (induction n arbitrary: s)
  case 0
  then show ?case by simp
next
  case (Suc n)
  obtain out u where sl: "waitSlice E flag waitTimeout job started s = (out, u)"
    by (cases "waitSlice E flag waitTimeout job started s")
  note fr = waitSlice_frame [OF assms(1) sl]
  show ?case
  proof (cases out)
    case (Some r)
    with sl fr show ?thesis by (simp add: waitForJob.simps [of E flag waitTimeout job started s])
  next
    case None
    from waitSlice_again [OF assms(2,3) sl [unfolded None]] assms(4,5)
    have u: "clock (world s) + 1000000000 \<le> clock (world u)"
      and late: "clock (world s) + 1000000000 - started < waitTimeout * 1000000000" by (simp_all add: nanoseconds_exact)
    from late Suc.prems(1) have "0 < n" by (cases n) (simp_all add: algebra_simps)
    moreover from u Suc.prems(1) have "started + (waitTimeout - int n) * 1000000000 \<le> clock (world u)"
      by (simp add: algebra_simps)
    ultimately obtain r t where IH: "waitForJob E flag waitTimeout job started u = Some (r, t)"
      "wait_count (new_events u t) \<le> n" using Suc.IH by blast
    from fr waitForJob_frame [OF assms(1) IH(1)] have ext: "io_extends s u" "io_extends u t" by simp_all
    have "waitForJob E flag waitTimeout job started s = Some (r, t)"
      using sl None IH(1) by (simp add: waitForJob.simps [of E flag waitTimeout job started s])
    moreover have "wait_count (new_events s t) \<le> Suc n"
      using fr IH(2) by (simp add: new_events_trans [OF ext])
    ultimately show ?thesis by blast
  qed
qed

lemma waitForJob_shutdown:
  assumes "steady_env E clock" and "flag_steady clock flag"
    and "\<And>s. deadline \<le> clock (world s) \<Longrightarrow> fst (flag s)"
  shows "\<exists>y. waitForJob E flag waitTimeout job started s = Some y"
proof (induction "nat (deadline - clock (world s))" arbitrary: s rule: less_induct)
  case less
  obtain out u where sl: "waitSlice E flag waitTimeout job started s = (out, u)"
    by (cases "waitSlice E flag waitTimeout job started s")
  show ?case
  proof (cases out)
    case (Some r)
    with sl show ?thesis by (simp add: waitForJob.simps [of E flag waitTimeout job started s])
  next
    case None
    from waitSlice_again [OF assms(1,2) sl [unfolded None]] assms(3) [of s]
    have "nat (deadline - clock (world u)) < nat (deadline - clock (world s))" by linarith
    from less [OF this] show ?thesis
      using sl None by (simp add: waitForJob.simps [of E flag waitTimeout job started s])
  qed
qed

lemma collectJobs_returns:
  assumes "flag_ok flag"
    and wait: "\<And>job s s1 started. Clock_now E s = (started, s1) \<Longrightarrow> \<exists>r t.
      waitForJob E flag waitTimeout job started s1 = Some (r, t) \<and> wait_count (new_events s1 t) \<le> n"
  shows "\<exists>r t. collectJobs E flag waitTimeout jobs h s = Some (r, t) \<and>
    wait_count (new_events s t) \<le> length jobs * n"
proof (induction jobs arbitrary: h s)
  case Nil
  then show ?case by simp
next
  case (Cons job jobs)
  obtain started s1 where c: "Clock_now E s = (started, s1)" by (cases "Clock_now E s")
  from wait [OF c] obtain wr s2 where w: "waitForJob E flag waitTimeout job started s1 = Some (wr, s2)"
    and n: "wait_count (new_events s1 s2) \<le> n" by blast
  obtain cr s3 where r: "ext_call (env_counts E job) (CountsRead job) s2 = (cr, s3)"
    by (cases "ext_call (env_counts E job) (CountsRead job) s2")
  note s1 = Clock_now_extends [OF c] and s2 = waitForJob_frame [OF assms(1) w] and s3 = ext_call_extends [OF r]
  have e02: "io_extends s s2" using s1 s2 io_extends_trans by blast
  have e03: "io_extends s s3" using e02 s3 io_extends_trans by blast
  have n2: "wait_count (new_events s s2) \<le> n" using new_events_trans [of s s1 s2] s1 s2 n by simp
  have n3: "wait_count (new_events s s3) \<le> n" using new_events_trans [OF e02, of s3] n2 s3 by simp
  show ?case
  proof (cases "\<exists>m. wr = Inr () \<and> cr = Inr m")
    case False
    with c w r n2 n3 show ?thesis
      by (cases wr; cases cr) (auto intro: trans_le_add1)
  next
    case True
    then obtain m where m: "wr = Inr ()" "cr = Inr m" by blast
    from Cons.IH [of "h @ [Some m]" s3] obtain r' t where IH:
      "collectJobs E flag waitTimeout jobs (h @ [Some m]) s3 = Some (r', t)"
      "wait_count (new_events s3 t) \<le> length jobs * n" by blast
    then have "io_extends s3 t"
      using collectJobs_success [OF assms(1)] collectJobs_error [OF assms(1)] by (cases r') blast+
    from new_events_trans [OF e03 this] n3 IH m c w r show ?thesis by auto
  qed
qed


lemma buildQuantumResult_Inr:
  "buildQuantumResult task h = Inr res \<longleftrightarrow>
     length h = length (circuit_files task) \<and>
     (\<forall>c \<in> set h. \<exists>m. c = Some m \<and> (\<forall>(k, v) \<in> set m. uint v \<le> 2147483647)) \<and>
     res = \<lparr>res_task_id = task_id task, destination = result_destination task,
            executed_qpu = scheduled_qpu task, execution_status = True, additional_information = ''COMPLETED'',
            results = map (\<lambda>counts. protoCounts (the counts)) h\<rparr>"
  using checkHistogram_Inr_iff [of 0 h]
  by (cases "checkHistogram 0 h") (auto simp: buildQuantumResult_def Let_def)

lemma buildQuantumResult_error_kind: "buildQuantumResult task h = Inl e \<Longrightarrow> kind e = DeviceError"
  by (auto simp: buildQuantumResult_def Let_def dest: checkHistogram_error_kind split: if_splits sum.splits)

lemma results_exact:
  assumes "buildQuantumResult task h = Inr res" and "\<And>c. Some c \<in> set h \<Longrightarrow> distinct (map fst c)" and "i < length h"
  shows "map_option sint ((results res ! i) k) = map_option uint (map_of (the (h ! i)) k)"
proof -
  from assms(1,3) obtain m where m: "h ! i = Some m" "\<forall>(k, v) \<in> set m. uint v \<le> 2147483647"
    unfolding buildQuantumResult_Inr by (meson nth_mem)
  with assms(2,3) have "distinct (map fst m)" by (metis nth_mem)
  from protoCounts_exact [OF this m(2)] assms(1,3) m(1) show ?thesis by (simp add: buildQuantumResult_Inr)
qed

lemma collectQuantumResult_bounded:
  assumes "flag_ok flag" and "steady_env E clock" and "flag_steady clock flag"
    and "0 < waitTimeout" and "fits64 (waitTimeout * 1000000000)"
  shows "\<exists>r t. collectQuantumResult E flag task jobs waitTimeout s = Some (r, t) \<and>
     wait_count (new_events s t) \<le> length jobs * nat waitTimeout"
proof -
  have "\<exists>r t. waitForJob E flag waitTimeout job started s1 = Some (r, t) \<and> wait_count (new_events s1 t) \<le> nat waitTimeout"
    if "Clock_now E s = (started, s1)" for job s s1 started
  proof (rule waitForJob_bounded [OF assms])
    have "started = fst (env_now E (world s))" "world s1 = snd (env_now E (world s))"
      using that ext_call_simps(1,2) [of "env_now E" ClockRead s] by (simp_all add: Clock_now_def)
    with assms(2,4) show "started + (waitTimeout - int (nat waitTimeout)) * 1000000000 \<le> clock (world s1)"
      by (simp add: steady_env_def)
    show "0 < nat waitTimeout" using assms(4) by simp
  qed
  then have "\<exists>r t. collectJobs E flag waitTimeout jobs [] s = Some (r, t) \<and>
      wait_count (new_events s t) \<le> length jobs * nat waitTimeout"
    by (rule collectJobs_returns [OF assms(1)])
  then show ?thesis
    by (fastforce simp: collectQuantumResult_def split: sum.splits)
qed

lemma executeQuantumTask_bounded:
  assumes "flag_ok flag" and "steady_env E clock" and "flag_steady clock flag"
    and "0 < waitTimeout" and "fits64 (waitTimeout * 1000000000)"
  shows "\<exists>r t. executeQuantumTask E flag task waitTimeout s = Some (r, t)"
proof -
  obtain jr s1 where "submitQuantumTask E flag task s = (jr, s1)" by (cases "submitQuantumTask E flag task s")
  moreover have "\<exists>r t. collectQuantumResult E flag task jobs waitTimeout s1 = Some (r, t)" for jobs
    using collectQuantumResult_bounded [OF assms, of task jobs s1] by blast
  ultimately show ?thesis by (cases jr) (auto simp: executeQuantumTask_def)
qed

section \<open>Shutdown and identity\<close>

text \<open>A shutdown is reported only after the flag was read as set.\<close>

lemma terminationRequested_trace:
  "terminationRequested E s = (b, t) \<Longrightarrow> io_extends s t \<and> new_events s t = [FlagRead b]"
  by (auto simp: terminationRequested_def dest: ext_call_extends)

lemma terminationRequested_last: "terminationRequested E s = (b, t) \<Longrightarrow> last (trace t) = FlagRead b"
  using terminationRequested_trace [of E s b t] io_extends_trace [of s t] by simp

lemma submitCircuits_shutdown:
  assumes "submitCircuits E (terminationRequested E) task fmt p is jobs s = (r, t)"
  shows "io_extends s t \<and> (\<forall>e. r = Inl e \<and> kind e = ShutdownRequested \<longrightarrow> FlagRead True \<in> set (new_events s t))"
  using assms
proof (induction rule: submitCircuits_induct)
  case (finished jobs s)
  then show ?case by simp
next
  case (shutdown i "is" jobs s s1)
  note f = terminationRequested_trace [OF shutdown]
  from f extends_then [OF conjunct1 [OF f] conjunct1 [OF cancelJobs_spec [of s1 E jobs]]] show ?case by simp
next
  case (refused i "is" jobs s s1 e t)
  note f = terminationRequested_trace [OF refused(1)] and c = ext_call_extends [OF refused(2)]
  from extends_then(1) [OF conjunct1 [OF f] conjunct1 [OF c]] show ?case by (simp add: toQrmciError_kind)
next
  case (more i "is" jobs s s1 j s2 r t)
  note f = terminationRequested_trace [OF more(1)] and c = ext_call_extends [OF more(2)]
  from more(3) extends_then [OF extends_then(1) [OF conjunct1 [OF f] conjunct1 [OF c]] conjunct1 [OF more(3)]]
  show ?case by simp
qed

lemma submitQuantumTask_shutdown:
  assumes "submitQuantumTask E (terminationRequested E) task s = (Inl e, t)" and "kind e = ShutdownRequested"
  shows "FlagRead True \<in> set (new_events s t)"
proof -
  from assms obtain fmt p s1 where v: "validateSubmission task = Inr fmt" and p: "choosePlacement E s = (Inr p, s1)"
    by (auto simp: submitQuantumTask_def choosePlacement_def Let_def dest: validateSubmission_error_kind
        split: sum.splits prod.splits if_splits list.splits)
  with assms(1) have run: "submitCircuits E (terminationRequested E) task fmt p [0..<length (circuit_files task)] [] s1 = (Inl e, t)"
    by (simp add: submitQuantumTask_def)
  from submitCircuits_shutdown [OF run] assms(2) choosePlacement_spec [OF p] new_events_trans [of s s1 t] show ?thesis by simp
qed

lemma waitForJob_shutdown_flag:
  assumes "waitForJob E (terminationRequested E) waitTimeout job started s = Some (Inl e, t)" and "kind e = ShutdownRequested"
  shows "FlagRead True \<in> set (new_events s t)"
proof -
  have "r = Inl e \<longrightarrow> FlagRead True \<in> set (new_events s t)"
    if "waitForJob E (terminationRequested E) waitTimeout job started s = Some (r, t)" for r s t
    using that
  proof (induction rule: waitForJob_induct)
    case (stop s r t)
    obtain b s1 where f: "terminationRequested E s = (b, s1)" by (cases "terminationRequested E s")
    from stop f assms(2) have "r = Inl e \<longrightarrow> b \<and> t = s1"
      by (auto simp: waitSlice_def Let_def split: if_splits sum.splits prod.splits)
    with terminationRequested_trace [OF f] show ?case by auto
  next
    case (step s u r t)
    show ?case
    proof
      assume r: "r = Inl e"
      from silent_waitSlice [OF flag_ok_terminationRequested step(1)] have su: "io_extends s u" by (rule silent_extends)
      from step(2) r have "FlagRead True \<in> set (new_events u t)" by simp
      moreover have "length (trace s) \<le> length (trace u)" using io_extends_trace [OF su] by simp
      from set_drop_subset_set_drop [OF this, of "trace t"] have "set (new_events u t) \<subseteq> set (new_events s t)"
        by (simp add: new_events_def)
      ultimately show "FlagRead True \<in> set (new_events s t)" by blast
    qed
  qed
  with assms show ?thesis by blast
qed

lemma collectJobs_shutdown_flag:
  assumes "collectJobs E (terminationRequested E) waitTimeout jobs h s = Some (Inl e, t)" and "kind e = ShutdownRequested"
  shows "FlagRead True \<in> set (new_events s t)"
  using assms(1)
proof (induction jobs arbitrary: h s)
  case (Cons job jobs)
  obtain started s1 where c: "Clock_now E s = (started, s1)" by (cases "Clock_now E s")
  with Cons.prems obtain wr s2 where w: "waitForJob E (terminationRequested E) waitTimeout job started s1 = Some (wr, s2)"
    by (auto split: option.splits)
  obtain cr s3 where r: "ext_call (env_counts E job) (CountsRead job) s2 = (cr, s3)"
    by (cases "ext_call (env_counts E job) (CountsRead job) s2")
  have e1: "io_extends s s1" and e12: "io_extends s1 s2"
    using Clock_now_extends [OF c] waitForJob_frame [OF flag_ok_terminationRequested w] by simp_all
  have e3: "io_extends s s3" using e1 e12 ext_call_extends [OF r] io_extends_trans by blast
  show ?case
  proof (cases wr)
    case (Inl e')
    with Cons.prems c w have "e' = e" "t = s2" by auto
    with waitForJob_shutdown_flag [OF w [unfolded Inl]] assms(2) new_events_trans [OF e1 e12] show ?thesis by simp
  next
    case wr: (Inr u)
    with Cons.prems c w r assms(2) obtain m where
      rest: "collectJobs E (terminationRequested E) waitTimeout jobs (h @ [Some m]) s3 = Some (Inl e, t)"
      by (cases cr) auto
    with Cons.IH [OF rest] silent_extends [OF silent_collectJobs [OF flag_ok_terminationRequested rest]]
      new_events_trans [OF e3, of t] show ?thesis by simp
  qed
qed simp

lemma collectQuantumResult_shutdown_flag:
  assumes "collectQuantumResult E (terminationRequested E) task jobs waitTimeout s = Some (Inl e, t)"
    and "kind e = ShutdownRequested"
  shows "FlagRead True \<in> set (new_events s t)"
proof -
  obtain r u where col: "collectJobs E (terminationRequested E) waitTimeout jobs [] s = Some (r, u)"
    using assms(1) by (auto simp: collectQuantumResult_def split: option.splits)
  with assms have "r = Inl e" "u = t"
    by (auto simp: collectQuantumResult_def dest: buildQuantumResult_error_kind split: sum.splits)
  with collectJobs_shutdown_flag [of E waitTimeout jobs "[]" s e t] col assms(2) show ?thesis by simp
qed

lemma executeQuantumTask_shutdown_flag:
  assumes "executeQuantumTask E (terminationRequested E) task waitTimeout s = Some (Inl e, t)"
    and "kind e = ShutdownRequested"
  shows "FlagRead True \<in> set (new_events s t)"
proof -
  obtain r u where sub: "submitQuantumTask E (terminationRequested E) task s = (r, u)"
    by (cases "submitQuantumTask E (terminationRequested E) task s")
  show ?thesis
  proof (cases r)
    case (Inl e')
    with assms sub have "e' = e" "t = u" by (auto simp: executeQuantumTask_def)
    with submitQuantumTask_shutdown [OF sub [unfolded Inl]] assms(2) show ?thesis by simp
  next
    case (Inr jobs)
    with assms sub have col: "collectQuantumResult E (terminationRequested E) task jobs waitTimeout u = Some (Inl e, t)"
      by (simp add: executeQuantumTask_def)
    from silent_extends [OF silent_submitQuantumTask [OF flag_ok_terminationRequested sub]]
      silent_extends [OF silent_collectQuantumResult [OF flag_ok_terminationRequested col]]
      collectQuantumResult_shutdown_flag [OF col assms(2)] new_events_trans [of s u t] show ?thesis by simp
  qed
qed

lemma collectQuantumResult_id:
  "collectQuantumResult E flag task jobs waitTimeout s = Some (Inr res, t) \<Longrightarrow> res_task_id res = task_id task"
  by (auto simp: collectQuantumResult_def buildQuantumResult_Inr split: option.splits prod.splits sum.splits)

lemma executeQuantumTask_id:
  "executeQuantumTask E flag task waitTimeout s = Some (Inr res, t) \<Longrightarrow> res_task_id res = task_id task"
  by (auto simp: executeQuantumTask_def dest: collectQuantumResult_id split: prod.splits sum.splits)

text \<open>The counts of a job are a map: every key occurs once.\<close>

definition distinct_counts :: "'w environment \<Rightarrow> bool" where
  "distinct_counts E \<longleftrightarrow> (\<forall>job w c. fst (env_counts E job w) = Inr c \<longrightarrow> distinct (map fst c))"

lemma sample_env_distinct_counts: "distinct_counts sample_env"
  by (auto simp: distinct_counts_def sample_env_def)

section \<open>Properties\<close>

text \<open>C26: A result is assembled exactly when there is one histogram per circuit file, none is missing
  and no count exceeds the wire format's signed 32-bit range; it is then marked completed, carries the
  task's identity, destination and QPU, and its \<open>i\<close>-th entry has for every key exactly the count the
  device reported for circuit \<open>i\<close>, no key added, lost or wrapped to a negative number. In every other
  case the answer is a device error and no result.\<close>

theorem buildQuantumResult_exact:
  assumes "\<And>c. Some c \<in> set h \<Longrightarrow> distinct (map fst c)"
  shows "case buildQuantumResult task h of
     Inr res \<Rightarrow>
       length h = length (circuit_files task) \<and> None \<notin> set h \<and>
       execution_status res \<and> additional_information res = ''COMPLETED'' \<and> res_task_id res = task_id task \<and>
       destination res = result_destination task \<and> executed_qpu res = scheduled_qpu task \<and>
       length (results res) = length h \<and>
       (\<forall>i < length h. \<forall>k. map_option sint ((results res ! i) k) = map_option uint (map_of (the (h ! i)) k))
   | Inl e \<Rightarrow> kind e = DeviceError \<and>
       (length h \<noteq> length (circuit_files task) \<or> None \<in> set h \<or>
        (\<exists>c k v. Some c \<in> set h \<and> (k, v) \<in> set c \<and> 2147483647 < uint v))"
proof (cases "buildQuantumResult task h")
  case (Inl e)
  then have no: "\<not> (length h = length (circuit_files task) \<and>
     (\<forall>c \<in> set h. \<exists>m. c = Some m \<and> (\<forall>(k, v) \<in> set m. uint v \<le> 2147483647)))"
    using buildQuantumResult_Inr [of task h] by auto
  have "length h \<noteq> length (circuit_files task) \<or> None \<in> set h \<or>
        (\<exists>c k v. Some c \<in> set h \<and> (k, v) \<in> set c \<and> 2147483647 < uint v)"
  proof (rule ccontr)
    assume *: "\<not> ?thesis"
    have "\<exists>m. c = Some m \<and> (\<forall>(k, v) \<in> set m. uint v \<le> 2147483647)" if "c \<in> set h" for c
      using * that by (cases c) (auto simp: not_less)
    with no * show False by blast
  qed
  with Inl buildQuantumResult_error_kind [OF Inl] show ?thesis by simp
next
  case (Inr res)
  with results_exact [OF Inr assms] Inr [unfolded buildQuantumResult_Inr] show ?thesis by auto
qed

theorem buildQuantumResult_exact_witness:
  "case buildQuantumResult sample_task [Some [(''00'', 6), (''11'', 2147483648)]] of
     Inr res \<Rightarrow> False | Inl e \<Rightarrow> kind e = DeviceError"
proof -
  have "distinct (map fst c)" if "Some c \<in> set [Some [(''00'', 6 :: 64 word), (''11'', 2147483648)]]" for c
    using that by simp
  from buildQuantumResult_exact [OF this, of "[Some [(''00'', 6), (''11'', 2147483648)]]" sample_task]
  show ?thesis
    by (simp add: buildQuantumResult_def sample_task_def split: sum.splits if_splits)
qed

text \<open>C10: Executing a task end to end. A completed result means that the device was sent one job per
  circuit file (in order, with the circuit's bytes and the task's shot count, on one placement), that
  every one of these jobs was seen to finish and had its counts read, in the same order, that no job
  was cancelled, and that entry \<open>i\<close> of the result holds exactly the counts the device gave for the
  job of circuit \<open>i\<close>.\<close>

theorem executeQuantumTask_correct:
  assumes "flag_ok flag" and "executeQuantumTask E flag task waitTimeout s = Some (Inr res, t)"
    and "distinct_counts E"
  shows "\<exists>fmt p jobs counts. validateSubmission task = Inr fmt \<and>
     length jobs = length (circuit_files task) \<and> length counts = length jobs \<and>
     sent_jobs (new_events s t) =
       map2 (\<lambda>circuit j. (fmt, circuit, sint (n_shots task), p, Inr j)) (circuit_files task) jobs \<and>
     done_jobs (new_events s t) = jobs \<and> counts_read (new_events s t) = zip jobs (map Inr counts) \<and>
     cancellations (new_events s t) = [] \<and>
     execution_status res \<and> res_task_id res = task_id task \<and> destination res = result_destination task \<and>
     length (results res) = length jobs \<and>
     (\<forall>i < length jobs. \<forall>k. map_option sint ((results res ! i) k) = map_option uint (map_of (counts ! i) k))"
proof -
  from assms(2) obtain jobs s1 where sub: "submitQuantumTask E flag task s = (Inr jobs, s1)"
    and col: "collectQuantumResult E flag task jobs waitTimeout s1 = Some (Inr res, t)"
    by (auto simp: executeQuantumTask_def split: prod.splits sum.splits)
  from col obtain h where h: "collectJobs E flag waitTimeout jobs [] s1 = Some (Inr h, t)"
    and b: "buildQuantumResult task h = Inr res"
    by (auto simp: collectQuantumResult_def split: option.splits prod.splits sum.splits)
  from collectJobs_success [OF assms(1) h] obtain counts where c: "h = map Some counts" "length counts = length jobs"
    "counts_read (new_events s1 t) = zip jobs (map Inr counts)" "\<forall>c \<in> set counts. \<exists>j w. fst (env_counts E j w) = Inr c"
    and fr: "io_extends s1 t" "submissions (new_events s1 t) = []" "cancellations (new_events s1 t) = []"
      "done_jobs (new_events s1 t) = jobs" by auto
  from submitQuantumTask_jobs [OF assms(1) sub] obtain fmt p where f: "validateSubmission task = Inr fmt"
    "length jobs = length (circuit_files task)" "cancellations (new_events s s1) = []"
    "sent_jobs (new_events s s1) =
       map2 (\<lambda>circuit j. (fmt, circuit, sint (n_shots task), p, Inr j)) (circuit_files task) jobs" by blast
  note ev = new_events_trans [OF submitQuantumTask_extends [OF assms(1) sub] fr(1)]
  have quiet: "done_jobs (new_events s s1) = []" "counts_read (new_events s s1) = []"
    using submission_only_quiet [OF submitQuantumTask_events [OF assms(1) sub]] by simp_all
  have "sent_jobs (new_events s t) = sent_jobs (new_events s s1)" using ev fr(2) by (simp add: sent_jobs_def)
  moreover have "map_option sint ((results res ! i) k) = map_option uint (map_of (counts ! i) k)" if "i < length jobs" for i k
    using results_exact [OF b, of i k] that c assms(3) by (auto simp: distinct_counts_def)
  moreover have "execution_status res" "res_task_id res = task_id task" "destination res = result_destination task"
    "length (results res) = length jobs" using b c(1,2) by (simp_all add: buildQuantumResult_Inr)
  ultimately show ?thesis using f c(2,3) fr ev quiet by (intro exI [of _ fmt] exI [of _ p] exI [of _ jobs] exI [of _ counts]) simp
qed


text \<open>The sample device, run on the sample task.\<close>

lemma sample_execution:
  "\<exists>res t. executeQuantumTask sample_env NeverTerminates sample_task 60 sample_io = Some (Inr res, t)"
proof -
  note run_simps = validateSubmission_def sample_task_def choosePlacement_def sample_env_def sample_io_def
    ext_call_def NeverTerminates_def mapTaskCircuitTypeToCircuitFormat_def makeJobRequest_def
  have sub: "\<exists>t. submitQuantumTask sample_env NeverTerminates sample_task sample_io = (Inr [0], t)"
    by (simp add: submitQuantumTask_def run_simps)
  have wait: "\<exists>t. waitForJob sample_env NeverTerminates 60 j st s = Some (Inr (), t)" for j st and s :: "nat io"
    by (subst waitForJob.simps) (simp add: waitSlice_def NeverTerminates_def ext_call_def sample_env_def)
  have col: "\<exists>t. collectJobs sample_env NeverTerminates 60 [0] [] s =
      Some (Inr [Some [(''00'', 6), (''11'', 4)]], t)" for s :: "nat io"
  proof -
    obtain st s1 where c: "Clock_now sample_env s = (st, s1)" by (cases "Clock_now sample_env s")
    obtain s2 where "waitForJob sample_env NeverTerminates 60 0 st s1 = Some (Inr (), s2)" using wait by blast
    with c show ?thesis by (simp add: ext_call_def sample_env_def)
  qed
  have "\<exists>res. buildQuantumResult sample_task [Some [(''00'', 6), (''11'', 4)]] = Inr res"
    by (simp add: buildQuantumResult_def sample_task_def)
  then obtain res where res: "buildQuantumResult sample_task [Some [(''00'', 6), (''11'', 4)]] = Inr res" by blast
  from sub obtain t where t: "submitQuantumTask sample_env NeverTerminates sample_task sample_io = (Inr [0], t)" by blast
  from col obtain u where "collectJobs sample_env NeverTerminates 60 [0] [] t =
      Some (Inr [Some [(''00'', 6), (''11'', 4)]], u)" by blast
  with t res show ?thesis by (simp add: executeQuantumTask_def collectQuantumResult_def)
qed

theorem executeQuantumTask_correct_witness:
  "\<exists>res t. executeQuantumTask sample_env NeverTerminates sample_task 60 sample_io = Some (Inr res, t) \<and>
     execution_status res \<and> length (results res) = 1 \<and> length (sent_jobs (new_events sample_io t)) = 1"
proof -
  obtain res t where run: "executeQuantumTask sample_env NeverTerminates sample_task 60 sample_io = Some (Inr res, t)"
    using sample_execution by blast
  have one: "length (circuit_files sample_task) = 1" by (simp add: sample_task_def)
  from executeQuantumTask_correct [OF flag_ok_NeverTerminates run sample_env_distinct_counts] one
  have "execution_status res" "length (results res) = 1" "length (sent_jobs (new_events sample_io t)) = 1" by auto
  with run show ?thesis by auto
qed

text \<open>With a positive wait timeout (in the range whose nanoseconds fit 64 bits), collecting the
  jobs of a task always returns, whatever the device answers and whether or not shutdown is requested,
  after at most \<open>waitTimeout\<close> one-second slices per job.\<close>

theorem collectQuantumResult_returns:
  assumes "flag_ok flag" and "steady_env E clock" and "flag_steady clock flag"
    and "0 < waitTimeout" and "fits64 (waitTimeout * 1000000000)"
  shows "\<exists>r t. collectQuantumResult E flag task jobs waitTimeout s = Some (r, t) \<and>
     wait_count (new_events s t) \<le> length jobs * nat waitTimeout"
  using assms by (rule collectQuantumResult_bounded)

text \<open>A device whose jobs never finish: every wait lasts its slice and times out. The world is the time
  in seconds.\<close>

definition stuck_env :: "nat environment" where
  "stuck_env = sample_env\<lparr>env_wait := (\<lambda>_ secs w. (Inl \<lparr>code = Timeout, message = ''''\<rparr>, w + nat secs))\<rparr>"

lemma stuck_env_steady: "steady_env stuck_env (\<lambda>w. int w * 1000000000)"
  by (auto simp: steady_env_def stuck_env_def sample_env_def algebra_simps)

theorem collectQuantumResult_returns_witness:
  "\<exists>r t. collectQuantumResult stuck_env NeverTerminates sample_task [0, 1] 3 sample_io = Some (r, t) \<and>
     wait_count (new_events sample_io t) \<le> 6"
  using collectQuantumResult_returns [OF flag_ok_NeverTerminates stuck_env_steady flag_steady_NeverTerminates,
      of 3 sample_task "[0, 1]" sample_io]
  by (simp add: fits64_def)

text \<open>C31: Without a timeout the wait ends with the shutdown: if the termination flag is set from some
  time on, collecting returns, for any timeout setting, also when no job ever finishes.\<close>

theorem collectQuantumResult_shutdown:
  assumes "flag_ok flag" and "steady_env E clock" and "flag_steady clock flag"
    and "\<And>s. deadline \<le> clock (world s) \<Longrightarrow> fst (flag s)"
  shows "\<exists>r t. collectQuantumResult E flag task jobs waitTimeout s = Some (r, t)"
proof -
  have "\<exists>r t. collectJobs E flag waitTimeout jobs h s = Some (r, t)" for h
  proof (induction jobs arbitrary: h s)
    case (Cons job jobs)
    obtain started s1 where c: "Clock_now E s = (started, s1)" by (cases "Clock_now E s")
    obtain wr s2 where w: "waitForJob E flag waitTimeout job started s1 = Some (wr, s2)"
      using waitForJob_shutdown [OF assms(2,3), of deadline] assms(4) by fastforce
    with c Cons.IH show ?case by (auto split: sum.splits prod.splits)
  qed simp
  then obtain r t where "collectJobs E flag waitTimeout jobs [] s = Some (r, t)" by blast
  then show ?thesis by (cases r) (simp_all add: collectQuantumResult_def)
qed

text \<open>The same device, and a shutdown requested after a minute.\<close>

definition minute_flag :: "(nat, 'z) flag" where
  "minute_flag s = (60 \<le> world s, s)"

theorem collectQuantumResult_shutdown_witness:
  "\<exists>r t. collectQuantumResult stuck_env minute_flag sample_task [0] 0 sample_io = Some (r, t)"
proof (rule collectQuantumResult_shutdown [OF _ stuck_env_steady])
  show "flag_ok minute_flag" by (simp add: flag_ok_def minute_flag_def)
  show "flag_steady (\<lambda>w. int w * 1000000000) minute_flag" by (simp add: flag_steady_def minute_flag_def)
  show "60 * 1000000000 \<le> int (world s) * 1000000000 \<Longrightarrow> fst (minute_flag s)" for s :: "nat io"
    by (simp add: minute_flag_def)
qed

text \<open>The range of the timeout matters: a timeout whose nanoseconds overflow to a non-positive
  number (ten thousand million seconds, for one) makes the first slice that times out end the wait
  with the timeout error, although the configured time has not passed.\<close>

theorem waitForJob_overflow:
  assumes "0 < waitTimeout" and "nanoseconds waitTimeout \<le> 0"
    and "flag s = (False, s1)"
    and "ext_call (env_wait E job CollectionSlice) (JobWaited job) s1 = (Inl e, s2)" and "code e = Timeout"
    and "Clock_now E s2 = (now, s3)" and "started \<le> now"
  shows "waitForJob E flag waitTimeout job started s =
     Some (Inl (mk_error DeviceError ''Job did not finish within the configured wait timeout.''), s3)"
  using assms by (subst waitForJob.simps) (simp add: waitSlice_def)

lemma overflowing_timeout: "nanoseconds 10000000000 = - 8446744073709551616"
  by (simp add: nanoseconds_def wrap64_def signed_take_bit_int_eq_self_iff)

theorem waitForJob_overflow_witness:
  "\<exists>t. waitForJob stuck_env NeverTerminates 10000000000 0 0 sample_io =
     Some (Inl (mk_error DeviceError ''Job did not finish within the configured wait timeout.''), t)"
proof -
  have "\<exists>s2. ext_call (env_wait stuck_env 0 CollectionSlice) (JobWaited 0) sample_io =
      (Inl \<lparr>code = Timeout, message = ''''\<rparr>, s2) \<and> world s2 = 1"
    by (simp add: ext_call_def stuck_env_def sample_io_def CollectionSlice_def)
  then obtain s2 where s2: "ext_call (env_wait stuck_env 0 CollectionSlice) (JobWaited 0) sample_io =
      (Inl \<lparr>code = Timeout, message = ''''\<rparr>, s2)" "world s2 = 1" by blast
  obtain now s3 where c: "Clock_now stuck_env s2 = (now, s3)" by (cases "Clock_now stuck_env s2")
  with s2(2) have "0 \<le> now" by (auto simp: Clock_now_def ext_call_def stuck_env_def sample_env_def)
  with waitForJob_overflow [of 10000000000 NeverTerminates sample_io sample_io stuck_env 0, OF _ _ _ s2(1) _ c]
  show ?thesis by (simp add: overflowing_timeout NeverTerminates_def)
qed

end
