(* ===== verification/Config_Model.thy ===== *)
theory Config_Model
  imports Backend_Registry
begin

text \<open>
  The configuration records of \<open>Config.h\<close>, the defaults of \<open>ConfigDefaults.h.in\<close> and the loader of
  \<open>src/Config.cpp\<close>. The TOML parser (toml++), the process environment and the file system are not
  code of this repository: a record \<open>toml\<close> gives the views of a parsed node of an arbitrary type
  \<open>'n\<close>, a record \<open>platform\<close> gives \<open>getenv\<close>, \<open>exists\<close> and \<open>parse_file\<close>. A \<open>node_view\<close> is an
  optional node. A duration is an \<open>int\<close> count of its own unit, always within \<open>int64\<close>.
\<close>

section \<open>Configuration records\<close>

record RabbitMqConnectionConfig =
  con_host :: string
  con_port :: int
  con_user :: string
  con_password :: string
  con_vhost :: string

text \<open>In seconds.\<close>

record BackendRegistryConfig =
  reg_entryTimeToLive :: int

text \<open>\<open>stagePollInterval\<close> in milliseconds.\<close>

record CommonConfig =
  com_connection :: RabbitMqConnectionConfig
  com_logDir :: string
  com_daemonLogger :: string
  com_daemonLog :: string
  com_qrmciQueue :: string
  com_resultsQueue :: string
  com_schedulerQueue :: string
  com_schedulerLogger :: string
  com_schedulerLog :: string
  com_stagePollInterval :: int

record SelectorConfig =
  sel_backendStatusQueue :: string
  sel_logger :: string
  sel_logFile :: string
  sel_backendRegistry :: BackendRegistryConfig
  sel_selectionPolicy :: BackendSelectionPolicy

text \<open>\<open>taskReceiveTimeout\<close> in milliseconds.\<close>

record CompilerConfig =
  cmp_queue :: string
  cmp_logger :: string
  cmp_logFile :: string
  cmp_taskReceiveTimeout :: int

text \<open>\<open>jobWaitTimeout\<close> in seconds, \<open>backendStatusPublishInterval\<close> in milliseconds.\<close>

record SubmitterConfig =
  sub_queue :: string
  sub_logger :: string
  sub_logFile :: string
  sub_qdmiDriver :: string
  sub_qdmiDeviceName :: string
  sub_qdmiDeviceId :: string
  sub_qdmiClientToken :: string
  sub_jobWaitTimeout :: int
  sub_backendRegistry :: BackendRegistryConfig
  sub_backendStatusPublishInterval :: int

record Config =
  cfg_common :: CommonConfig
  cfg_selector :: SelectorConfig
  cfg_compiler :: CompilerConfig
  cfg_submitter :: SubmitterConfig

section \<open>Defaults\<close>

definition AMQPHost :: string where "AMQPHost = ''127.0.0.1''"
definition AMQPPort :: int where "AMQPPort = 5672"
definition AMQPUser :: string where "AMQPUser = ''guest''"
definition AMQPPassword :: string where "AMQPPassword = ''guest''"
definition AMQPVHost :: string where "AMQPVHost = ''/''"
definition QRMCIQueue :: string where "QRMCIQueue = ''qrmci.tasks.queue''"
definition SchedulerQueue :: string where "SchedulerQueue = ''scheduler.tasks.queue''"
definition CompilerQueue :: string where "CompilerQueue = ''compiler.tasks.queue''"
definition ResultsQueue :: string where "ResultsQueue = ''test.results.queue''"
definition SubmitterQueue :: string where "SubmitterQueue = ''submitter.tasks.queue''"
definition BackendStatusQueue :: string where "BackendStatusQueue = ''backend.status.queue''"
definition LogDir :: string where "LogDir = ''/var/log/qrmci''"
definition CompilerLog :: string where "CompilerLog = ''compiler.log''"
definition SchedulerLog :: string where "SchedulerLog = ''scheduler.log''"
definition DaemonLog :: string where "DaemonLog = ''daemon.log''"
definition SubmitterLog :: string where "SubmitterLog = ''submitter.log''"
definition SelectorLog :: string where "SelectorLog = ''selector.log''"
definition SubmitterqdmiDriver :: string where
  "SubmitterqdmiDriver = ''/usr/local/lib/qrmci/libqdmi_example_driver.so''"
definition SubmitterQdmiDeviceName :: string where "SubmitterQdmiDeviceName = ''C++ Device with 5 qubits''"
definition SubmitterQdmiDeviceId :: string where "SubmitterQdmiDeviceId = ''cxxdevice5q''"
definition SubmitterQdmiClientToken :: string where "SubmitterQdmiClientToken = ''token''"

text \<open>The default member initialisers of the duration fields.\<close>

definition DefaultEntryTimeToLive :: int where "DefaultEntryTimeToLive = 30"
definition DefaultStagePollInterval :: int where "DefaultStagePollInterval = 100"
definition DefaultTaskReceiveTimeout :: int where "DefaultTaskReceiveTimeout = 500"
definition DefaultJobWaitTimeout :: int where "DefaultJobWaitTimeout = 0"
definition DefaultBackendStatusPublishInterval :: int where "DefaultBackendStatusPublishInterval = 5000"

lemmas default_texts =
  AMQPHost_def AMQPUser_def AMQPPassword_def AMQPVHost_def QRMCIQueue_def SchedulerQueue_def CompilerQueue_def
  ResultsQueue_def SubmitterQueue_def BackendStatusQueue_def LogDir_def CompilerLog_def SchedulerLog_def
  DaemonLog_def SubmitterLog_def SelectorLog_def SubmitterqdmiDriver_def SubmitterQdmiDeviceName_def
  SubmitterQdmiDeviceId_def SubmitterQdmiClientToken_def

lemmas default_numbers =
  AMQPPort_def DefaultEntryTimeToLive_def DefaultStagePollInterval_def DefaultTaskReceiveTimeout_def
  DefaultJobWaitTimeout_def DefaultBackendStatusPublishInterval_def

section \<open>The TOML library and the platform\<close>

record 'n toml =
  as_table :: "'n \<Rightarrow> (string \<times> 'n) list option"
  value_string :: "'n \<Rightarrow> string option"
  value_int :: "'n \<Rightarrow> int option"
  value_int64 :: "'n \<Rightarrow> int option"
  empty_table :: 'n

record 'n platform =
  getenv :: "string \<Rightarrow> string option"
  file_exists :: "string \<Rightarrow> bool"
  parse_file :: "string \<Rightarrow> (string, 'n) expected"

text \<open>What the loader relies on: integer views are in range, and a parsed document is a table.\<close>

definition toml_ok :: "'n toml \<Rightarrow> bool" where
  "toml_ok T \<longleftrightarrow>
     (\<forall>n i. value_int T n = Some i \<longrightarrow> fits32 i) \<and> (\<forall>n i. value_int64 T n = Some i \<longrightarrow> fits64 i) \<and>
     as_table T (empty_table T) = Some []"

text \<open>\<open>node_view::operator[]\<close>.\<close>

definition subscript :: "'n toml \<Rightarrow> 'n option \<Rightarrow> string \<Rightarrow> 'n option" where
  "subscript T view key =
     (case view of
        None \<Rightarrow> None
      | Some n \<Rightarrow> (case as_table T n of None \<Rightarrow> None | Some table \<Rightarrow> map_of table key))"

section \<open>Field readers\<close>

definition DefaultConfigFilePath :: string where "DefaultConfigFilePath = ''config/qrmci.toml''"

definition getEnvOr :: "'n platform \<Rightarrow> string \<Rightarrow> string \<Rightarrow> string" where
  "getEnvOr P name fallback = (case getenv P name of Some v \<Rightarrow> v | None \<Rightarrow> fallback)"

definition getEnvIntOrExpected :: "'n platform \<Rightarrow> string \<Rightarrow> int \<Rightarrow> int result" where
  "getEnvIntOrExpected P name fallback =
     (case getenv P name of
        None \<Rightarrow> Inr fallback
      | Some v \<Rightarrow>
          (case from_chars v of
             Some (i, []) \<Rightarrow> Inr i
           | _ \<Rightarrow> Inl (mk_error ConfigError
                    (''Environment variable '' @ quoted name @ '' is not a valid integer''))))"

text \<open>\<open>std::filesystem::path(logDir) / fileName\<close> on a POSIX system.\<close>

definition logPath :: "string \<Rightarrow> string \<Rightarrow> string" where
  "logPath logDir fileName =
     (if fileName \<noteq> [] \<and> hd fileName = CHR ''/'' then fileName
      else if logDir = [] \<or> last logDir = CHR ''/'' then logDir @ fileName
      else logDir @ CHR ''/'' # fileName)"

definition config_key_error :: "string \<Rightarrow> string \<Rightarrow> Error" where
  "config_key_error dottedKey what = mk_error ConfigError (''Configuration key '' @ quoted dottedKey @ what)"

definition tomlValueOrExpected :: "('n \<Rightarrow> 'a option) \<Rightarrow> 'n option \<Rightarrow> string \<Rightarrow> 'a \<Rightarrow> 'a result" where
  "tomlValueOrExpected val node dottedKey fallback =
     (case node of
        None \<Rightarrow> Inr fallback
      | Some n \<Rightarrow>
          (case val n of
             Some v \<Rightarrow> Inr v
           | None \<Rightarrow> Inl (config_key_error dottedKey '' has the wrong type'')))"

datatype DurationRange = Positive | NonNegative

definition tomlDurationOrExpected ::
  "'n toml \<Rightarrow> 'n option \<Rightarrow> string \<Rightarrow> int \<Rightarrow> DurationRange \<Rightarrow> int result" where
  "tomlDurationOrExpected T node dottedKey fallback durationRange =
     (let check = (\<lambda>duration.
            if duration < 0 \<or> (durationRange = Positive \<and> duration = 0) then
              Inl (config_key_error dottedKey
                (if durationRange = Positive then '' must be greater than zero'' else '' must not be negative''))
            else Inr duration)
      in case node of
           None \<Rightarrow> check fallback
         | Some n \<Rightarrow>
             (case value_int64 T n of
                None \<Rightarrow> Inl (config_key_error dottedKey '' has the wrong type: expected an integer'')
              | Some v \<Rightarrow> check v))"

definition stringField ::
  "'n toml \<Rightarrow> 'n platform \<Rightarrow> 'n option \<Rightarrow> string \<Rightarrow> string \<Rightarrow> string \<Rightarrow> string result" where
  "stringField T P node dottedKey envName fallback =
     transform (tomlValueOrExpected (value_string T) node dottedKey fallback)
       (\<lambda>fileValue. getEnvOr P envName fileValue)"

definition requiredStringField ::
  "'n toml \<Rightarrow> 'n platform \<Rightarrow> 'n option \<Rightarrow> string \<Rightarrow> string \<Rightarrow> string \<Rightarrow> string result" where
  "requiredStringField T P node dottedKey envName fallback =
     and_then (stringField T P node dottedKey envName fallback)
       (\<lambda>v. if v = [] then Inl (config_key_error dottedKey '' must not be empty'') else Inr v)"

definition parseSelectionPolicy :: "string \<Rightarrow> string \<Rightarrow> BackendSelectionPolicy result" where
  "parseSelectionPolicy v dottedKey =
     (if v = ''lowest-name'' then Inr LowestName
      else if v = ''smallest-sufficient'' then Inr SmallestSufficient
      else Inl (config_key_error dottedKey
        ('' must be '' @ quoted ''lowest-name'' @ '' or '' @ quoted ''smallest-sufficient'')))"

section \<open>Schema\<close>

fun checkKeys :: "string \<Rightarrow> string list \<Rightarrow> (string \<times> 'n) list \<Rightarrow> unit result" where
  "checkKeys tablePrefix allowedKeys [] = Inr ()"
| "checkKeys tablePrefix allowedKeys ((key, _) # table) =
     (if key \<notin> set allowedKeys then
        Inl (mk_error ConfigError (''Unknown configuration key '' @ quoted (tablePrefix @ key)))
      else checkKeys tablePrefix allowedKeys table)"

definition checkTableKeys :: "'n toml \<Rightarrow> 'n option \<Rightarrow> string \<Rightarrow> string list \<Rightarrow> unit result" where
  "checkTableKeys T tableNode tablePrefix allowedKeys =
     (case tableNode of
        None \<Rightarrow> Inr ()
      | Some n \<Rightarrow>
          (case as_table T n of
             None \<Rightarrow> Inl (config_key_error (butlast tablePrefix) '' must be a table'')
           | Some table \<Rightarrow> checkKeys tablePrefix allowedKeys table))"

definition checkSchema :: "'n toml \<Rightarrow> 'n \<Rightarrow> unit result" where
  "checkSchema T root =
     (let at = (\<lambda>key. subscript T (Some root) key) in
      and_then (checkTableKeys T (Some root) '''' [''common'', ''selector'', ''compiler'', ''submitter'']) (\<lambda>_.
      and_then (checkTableKeys T (at ''common'') ''common.''
        [''connection'', ''logDir'', ''daemonLogger'', ''qrmciQueue'', ''resultsQueue'', ''schedulerQueue'',
         ''schedulerLogger'', ''stagePollInterval'']) (\<lambda>_.
      and_then (checkTableKeys T (subscript T (at ''common'') ''connection'') ''common.connection.''
        [''host'', ''port'', ''user'', ''password'', ''vhost'']) (\<lambda>_.
      and_then (checkTableKeys T (at ''selector'') ''selector.''
        [''backendStatusQueue'', ''logger'', ''backendRegistry'', ''selectionPolicy'']) (\<lambda>_.
      and_then (checkTableKeys T (subscript T (at ''selector'') ''backendRegistry'') ''selector.backendRegistry.''
        [''entryTimeToLive'']) (\<lambda>_.
      and_then (checkTableKeys T (at ''compiler'') ''compiler.'' [''queue'', ''logger'', ''taskReceiveTimeout'']) (\<lambda>_.
      and_then (checkTableKeys T (at ''submitter'') ''submitter.''
        [''queue'', ''logger'', ''qdmiDriver'', ''qdmiDeviceName'', ''qdmiDeviceId'', ''qdmiClientToken'',
         ''jobWaitTimeout'', ''backendRegistry'', ''backendStatusPublishInterval'']) (\<lambda>_.
      checkTableKeys T (subscript T (at ''submitter'') ''backendRegistry'') ''submitter.backendRegistry.''
        [''entryTimeToLive'']))))))))"

definition parseConfigFile :: "'n toml \<Rightarrow> 'n platform \<Rightarrow> string \<Rightarrow> 'n result" where
  "parseConfigFile T P configFile =
     (if \<not> file_exists P configFile then Inr (empty_table T)
      else case parse_file P configFile of
        Inl description \<Rightarrow>
          Inl (mk_error ConfigError (''Failed to parse config file '' @ quoted configFile @ '': '' @ description))
      | Inr root \<Rightarrow> Inr root)"

end
