(* ===== verification/Messaging.thy ===== *)
theory Messaging
  imports Task_Execution Config_Model "HOL-Library.Multiset"
begin

text \<open>
  \<open>CommunicationHandler.h\<close>, \<open>CommunicationHandler.cpp\<close> and \<open>DaemonMessaging.h\<close>: sending and receiving
  pipeline messages, draining a queue into a handler, and reporting a task's result or failure. The
  messenger library is the environment. \<open>receive\<close> with \<open>WaitForever\<close> and \<open>drainQueue\<close> on a queue that
  never runs dry do not return, so both are \<open>partial_function (option)\<close>. A message type is chosen by
  the polling call of the environment and the event that records it.
\<close>

section \<open>Transport\<close>

record TransportOptions =
  opt_host :: string
  opt_port :: int
  opt_username :: string
  opt_password :: string
  opt_vhost :: string

definition makeTransportOptions :: "RabbitMqConnectionConfig \<Rightarrow> TransportOptions" where
  "makeTransportOptions config =
     \<lparr>opt_host = con_host config, opt_port = con_port config, opt_username = con_user config,
      opt_password = con_password config, opt_vhost = con_vhost config\<rparr>"

text \<open>Milliseconds.\<close>

definition DefaultReceiveTimeout :: int where
  "DefaultReceiveTimeout = 500"

definition WaitForever :: int where
  "WaitForever = - 1"

fun messageLabel :: "Message \<Rightarrow> string" where
  "messageLabel (TaskMessage task) = ''quantum task '' @ string_of_int (task_id task)"
| "messageLabel (ResultMessage r) = ''quantum result for task '' @ string_of_int (res_task_id r)"
| "messageLabel (BackendMessage b) = ''backend status for backend '' @ pb_name b"

section \<open>CommunicationHandler\<close>

definition comms_send ::
  "'w environment \<Rightarrow> Message \<Rightarrow> string \<Rightarrow> ('w, 'z) io_scheme \<Rightarrow> unit result \<times> ('w, 'z) io_scheme" where
  "comms_send E m queueName s =
     (let (sendStatus, s) = ext_call (env_send E queueName m) (MessageSent queueName m) s in
      case sendStatus of
        Inl why \<Rightarrow> (Inl (mk_error MessagingFailed (''Failed to send '' @ messageLabel m @ '': '' @ why)), s)
      | Inr _ \<Rightarrow> (Inr (), s))"

type_synonym ('w, 'm) poll = "string \<Rightarrow> int \<Rightarrow> 'w \<Rightarrow> (MessengerError, 'm \<times> nat) expected \<times> 'w"
type_synonym 'm poll_event = "string \<Rightarrow> int \<Rightarrow> (MessengerError, 'm \<times> nat) expected \<Rightarrow> event"

text \<open>
  One turn of the \<open>while\<close> loop of \<open>receive\<close>: \<open>Some\<close> is the value returned (after the loop, when the
  flag is set or the wait was bounded), \<open>None\<close> polls again.
\<close>

definition receiveStep ::
  "'w environment \<Rightarrow> ('w, 'm) poll \<Rightarrow> 'm poll_event \<Rightarrow> string \<Rightarrow> int \<Rightarrow> ('w, 'z) flag \<Rightarrow> ('w, 'z) io_scheme \<Rightarrow>
   'm option result option \<times> ('w, 'z) io_scheme" where
  "receiveStep E poll ev queueName timeout terminationFlag s =
     (let waitIndefinitely = (timeout = WaitForever);
          pollInterval = (if waitIndefinitely then DefaultReceiveTimeout else timeout);
          (terminate, s) = terminationFlag s
      in if terminate then (Some (Inr None), s)
         else
           let (received, s) = ext_call (poll queueName pollInterval) (ev queueName pollInterval) s in
           case received of
             Inr (m, delivery) \<Rightarrow>
               (Some (Inr (Some m)), snd (ext_call (env_ack E delivery) (DeliveryAcked delivery) s))
           | Inl e \<Rightarrow>
               if status_code e \<noteq> StatusTimeout then
                 (Some (Inl (mk_error MessagingFailed (''Receive error: '' @ reason e))), s)
               else if \<not> waitIndefinitely then (Some (Inr None), s)
               else (None, s))"

partial_function (option) receive ::
  "'w environment \<Rightarrow> ('w, 'm) poll \<Rightarrow> 'm poll_event \<Rightarrow> string \<Rightarrow> int \<Rightarrow> ('w, 'z) flag \<Rightarrow> ('w, 'z) io_scheme \<Rightarrow>
   ('m option result \<times> ('w, 'z) io_scheme) option" where
  "receive E poll ev queueName timeout terminationFlag s =
     (let (outcome, s) = receiveStep E poll ev queueName timeout terminationFlag s in
      case outcome of
        Some r \<Rightarrow> Some (r, s)
      | None \<Rightarrow> receive E poll ev queueName timeout terminationFlag s)"

declare receive.simps [code]

text \<open>The overload without a flag.\<close>

definition receiveUninterruptible ::
  "'w environment \<Rightarrow> ('w, 'm) poll \<Rightarrow> 'm poll_event \<Rightarrow> string \<Rightarrow> int \<Rightarrow> ('w, 'z) io_scheme \<Rightarrow>
   ('m option result \<times> ('w, 'z) io_scheme) option" where
  "receiveUninterruptible E poll ev queueName timeout s = receive E poll ev queueName timeout NeverTerminates s"

section \<open>Daemon messaging\<close>

definition receiveNext ::
  "'w environment \<Rightarrow> ('w, 'm) poll \<Rightarrow> 'm poll_event \<Rightarrow> string \<Rightarrow> int \<Rightarrow> ('w, 'z) flag \<Rightarrow>
   ('m \<Rightarrow> ('w, 'z) io_scheme \<Rightarrow> ('w, 'z) io_scheme) \<Rightarrow> ('w, 'z) io_scheme \<Rightarrow>
   (bool \<times> ('w, 'z) io_scheme) option" where
  "receiveNext E poll ev queueName timeout terminationFlag handle s =
     (case receive E poll ev queueName timeout terminationFlag s of
        None \<Rightarrow> None
      | Some (Inl e, s) \<Rightarrow> Some (False, s)
      | Some (Inr None, s) \<Rightarrow> Some (False, s)
      | Some (Inr (Some m), s) \<Rightarrow> Some (True, handle m s))"

text \<open>The \<open>while\<close> loop of \<open>drainQueue\<close> with its variable \<open>handledAny\<close>.\<close>

partial_function (option) drainLoop ::
  "'w environment \<Rightarrow> ('w, 'm) poll \<Rightarrow> 'm poll_event \<Rightarrow> string \<Rightarrow> ('w, 'z) flag \<Rightarrow>
   ('m \<Rightarrow> ('w, 'z) io_scheme \<Rightarrow> ('w, 'z) io_scheme) \<Rightarrow> bool \<Rightarrow> ('w, 'z) io_scheme \<Rightarrow>
   (bool \<times> ('w, 'z) io_scheme) option" where
  "drainLoop E poll ev queueName terminationFlag handle handledAny s =
     Option.bind (receiveNext E poll ev queueName 0 terminationFlag handle s) (\<lambda>(got, s).
       if got then drainLoop E poll ev queueName terminationFlag handle True s
       else Some (handledAny, s))"

declare drainLoop.simps [code]

definition drainQueue ::
  "'w environment \<Rightarrow> ('w, 'm) poll \<Rightarrow> 'm poll_event \<Rightarrow> string \<Rightarrow> ('w, 'z) flag \<Rightarrow>
   ('m \<Rightarrow> ('w, 'z) io_scheme \<Rightarrow> ('w, 'z) io_scheme) \<Rightarrow> ('w, 'z) io_scheme \<Rightarrow>
   (bool \<times> ('w, 'z) io_scheme) option" where
  "drainQueue E poll ev queueName terminationFlag handle s =
     drainLoop E poll ev queueName terminationFlag handle False s"

text \<open>The best-effort \<open>send\<close>: a failure is only logged.\<close>

definition send :: "'w environment \<Rightarrow> Message \<Rightarrow> string \<Rightarrow> ('w, 'z) io_scheme \<Rightarrow> ('w, 'z) io_scheme" where
  "send E m queueName s = snd (comms_send E m queueName s)"

definition sendFailure ::
  "'w environment \<Rightarrow> QuantumTask \<Rightarrow> Error \<Rightarrow> ('w, 'z) io_scheme \<Rightarrow> ('w, 'z) io_scheme" where
  "sendFailure E task failure s =
     send E (ResultMessage (cancelQuantumTask task (detail failure))) (result_destination task) s"

definition sendResult ::
  "'w environment \<Rightarrow> QuantumTask \<Rightarrow> QuantumResult \<Rightarrow> ('w, 'z) io_scheme \<Rightarrow> ('w, 'z) io_scheme" where
  "sendResult E task r s = send E (ResultMessage r) (result_destination task) s"


section \<open>Sending\<close>

lemma send_spec:
  "\<exists>r. trace (send E m q s) = trace s @ [MessageSent q m r] \<and> io.more (send E m q s) = io.more s"
proof -
  obtain r t where c: "ext_call (env_send E q m) (MessageSent q m) s = (r, t)"
    by (cases "ext_call (env_send E q m) (MessageSent q m) s")
  have "send E m q s = t" using c by (cases r) (simp_all add: send_def comms_send_def)
  moreover from ext_call_extends [OF c] have "trace t = trace s @ [MessageSent q m r]" "io.more t = io.more s"
    using io_extends_trace io_extends_more by force+
  ultimately show ?thesis by auto
qed

lemma send_extends: "io_extends s (send E m q s)"
  using send_spec [of E m q s] by (auto simp: io_extends_def)

lemma emits_send: "(\<And>r. A (MessageSent q m r)) \<Longrightarrow> emits A s (send E m q s)"
  using send_spec [of E m q s] send_extends [of s E m q] by (auto simp: emits_def new_events_def)

lemma comms_send_error: "comms_send E m q s = (Inl e, t) \<Longrightarrow> kind e = MessagingFailed"
  by (auto simp: comms_send_def split: prod.splits sum.splits)

section \<open>Receiving\<close>

lemma receive_induct [consumes 1, case_names stop step]:
  assumes "receive E poll ev q timeout flag s = Some (r, t)"
    and stop: "\<And>s r t. receiveStep E poll ev q timeout flag s = (Some r, t) \<Longrightarrow> P s r t"
    and step: "\<And>s u r t. receiveStep E poll ev q timeout flag s = (None, u) \<Longrightarrow> P u r t \<Longrightarrow> P s r t"
  shows "P s r t"
proof -
  let ?Q = "\<lambda>E' poll' ev' q' timeout' flag' s y.
    E' = E \<and> poll' = poll \<and> ev' = ev \<and> q' = q \<and> timeout' = timeout \<and> flag' = flag \<longrightarrow> P s (fst y) (snd y)"
  have "?Q E poll ev q timeout flag s (r, t)"
    by (rule receive.raw_induct [where P = ?Q, OF _ assms(1)])
      (auto simp: Let_def split: prod.splits option.splits intro: stop, blast intro: step)
  then show ?thesis by simp
qed

lemma receive_bounded:
  assumes "timeout \<noteq> WaitForever"
  shows "\<exists>r t. receive E poll ev q timeout flag s = Some (r, t)"
proof -
  obtain r t where "receiveStep E poll ev q timeout flag s = (Some r, t)"
    using assms by (cases "receiveStep E poll ev q timeout flag s")
      (auto simp: receiveStep_def Let_def split: prod.splits sum.splits if_splits)
  then show ?thesis by (subst receive.simps) simp
qed

lemma receiveNext_bounded:
  assumes "timeout \<noteq> WaitForever"
  shows "\<exists>b t. receiveNext E poll ev q timeout flag handle s = Some (b, t)"
proof -
  obtain r t where "receive E poll ev q timeout flag s = Some (r, t)" using receive_bounded [OF assms] by blast
  then show ?thesis by (auto simp: receiveNext_def split: sum.splits option.splits)
qed

text \<open>What a call of \<open>receive\<close> adds to the trace.\<close>

fun idle_event :: "event \<Rightarrow> bool" where
  "idle_event (FlagRead _) = True"
| "idle_event (TaskPolled _ _ (Inl _)) = True"
| "idle_event (BackendPolled _ _ (Inl _)) = True"
| "idle_event _ = False"

definition poll_idle :: "'m poll_event \<Rightarrow> bool" where
  "poll_idle ev \<longleftrightarrow> (\<forall>q timeout e. idle_event (ev q timeout (Inl e)))"

lemma poll_idle_simps [simp]: "poll_idle TaskPolled" "poll_idle BackendPolled"
  by (simp_all add: poll_idle_def)

text \<open>The outcome of an attempt, as a relation between the value it has (if any) and its events.\<close>

definition receive_outcome :: "'m poll_event \<Rightarrow> string \<Rightarrow> 'm option result option \<Rightarrow> event list \<Rightarrow> bool" where
  "receive_outcome ev q r es \<longleftrightarrow>
     (case r of
        Some (Inr (Some m)) \<Rightarrow> \<exists>idle interval delivery acked. list_all idle_event idle \<and>
          es = idle @ [ev q interval (Inr (m, delivery)), DeliveryAcked delivery acked]
      | Some (Inl e) \<Rightarrow> list_all idle_event es \<and> kind e = MessagingFailed
      | _ \<Rightarrow> list_all idle_event es)"

lemma receive_outcome_prefix:
  assumes "list_all idle_event es" and "receive_outcome ev q r fs"
  shows "receive_outcome ev q r (es @ fs)"
proof (cases "\<exists>m. r = Some (Inr (Some m))")
  case True
  with assms obtain m idle interval delivery acked where "r = Some (Inr (Some m))" "list_all idle_event (es @ idle)"
    "es @ fs = (es @ idle) @ [ev q interval (Inr (m, delivery)), DeliveryAcked delivery acked]"
    by (auto simp: receive_outcome_def)
  then show ?thesis unfolding receive_outcome_def by (simp only: option.case sum.case) blast
next
  case False
  with assms show ?thesis by (auto simp: receive_outcome_def split: option.splits sum.splits)
qed

lemma receiveStep_trace:
  assumes "flag_ok flag" and "poll_idle ev" and "receiveStep E poll ev q timeout flag s = (r, t)"
  shows "io_extends s t \<and> receive_outcome ev q r (new_events s t)"
proof -
  let ?i = "if timeout = WaitForever then DefaultReceiveTimeout else timeout"
  obtain b s1 where f: "flag s = (b, s1)" by (cases "flag s")
  with assms(1) have s1: "io_extends s s1" and ev1: "list_all idle_event (new_events s s1)"
    unfolding flag_ok_def by fastforce+
  obtain got s2 where p: "ext_call (poll q ?i) (ev q ?i) s1 = (got, s2)" by (cases "ext_call (poll q ?i) (ev q ?i) s1")
  note s2 = ext_call_extends [OF p]
  have s02: "io_extends s s2" "new_events s s2 = new_events s s1 @ [ev q ?i got]"
    using s1 s2 io_extends_trans [of s s1 s2] new_events_trans [of s s1 s2] by simp_all
  show ?thesis
  proof (cases "\<not> b \<and> (\<exists>m d. got = Inr (m, d))")
    case True
    then obtain m d where g: "got = Inr (m, d)" by auto
    obtain a s3 where k: "ext_call (env_ack E d) (DeliveryAcked d) s2 = (a, s3)"
      by (cases "ext_call (env_ack E d) (DeliveryAcked d) s2")
    note s3 = ext_call_extends [OF k]
    from assms(3) f p g k True have rt: "r = Some (Inr (Some m))" "t = s3" by (auto simp: receiveStep_def Let_def)
    have "io_extends s s3" "new_events s s3 = new_events s s1 @ [ev q ?i (Inr (m, d)), DeliveryAcked d a]"
      using s02 s3 g io_extends_trans [of s s2 s3] new_events_trans [of s s2 s3] by simp_all
    with ev1 show ?thesis unfolding rt receive_outcome_def by auto
  next
    case False
    have idle: "list_all idle_event (new_events s s2)" if "got = Inl e" for e
      using ev1 assms(2) s02(2) that by (simp add: poll_idle_def)
    show ?thesis
    proof (cases b)
      case True
      with assms(3) f have "r = Some (Inr None)" "t = s1" by (auto simp: receiveStep_def Let_def)
      with s1 ev1 show ?thesis by (simp add: receive_outcome_def)
    next
      case nb: False
      with False obtain e where g: "got = Inl e" by (cases got) auto
      with assms(3) f p nb have "t = s2" "r = Some (Inl (mk_error MessagingFailed (''Receive error: '' @ reason e))) \<or> r = Some (Inr None) \<or> r = None"
        by (auto simp: receiveStep_def Let_def split: if_splits)
      with s02(1) idle [OF g] show ?thesis by (auto simp: receive_outcome_def)
    qed
  qed
qed

lemma receiveStep_broker:
  assumes "flag_ok flag" and "receiveStep E poll ev q timeout flag s = (r, t)"
  shows "length (filter broker_event (new_events s t)) \<le> 2"
proof -
  let ?i = "if timeout = WaitForever then DefaultReceiveTimeout else timeout"
  obtain b s1 where f: "flag s = (b, s1)" by (cases "flag s")
  note s1 = silent_flag [OF assms(1) f]
  then have ev1: "filter broker_event (new_events s s1) = []" by (simp add: silent_def)
  obtain got s2 where p: "ext_call (poll q ?i) (ev q ?i) s1 = (got, s2)" by (cases "ext_call (poll q ?i) (ev q ?i) s1")
  note s2 = ext_call_extends [OF p]
  have s02: "io_extends s s2" "new_events s s2 = new_events s s1 @ [ev q ?i got]"
    using silent_extends [OF s1] s2 io_extends_trans [of s s1 s2] new_events_trans [of s s1 s2] by simp_all
  then have two: "length (filter broker_event (new_events s s2)) \<le> 1" using ev1 by simp
  show ?thesis
  proof (cases "\<not> b \<and> (\<exists>m d. got = Inr (m, d))")
    case True
    then obtain m d where g: "got = Inr (m, d)" by auto
    obtain a s3 where k: "ext_call (env_ack E d) (DeliveryAcked d) s2 = (a, s3)"
      by (cases "ext_call (env_ack E d) (DeliveryAcked d) s2")
    note s3 = ext_call_extends [OF k]
    from assms(2) f p g k True have "t = s3" by (auto simp: receiveStep_def Let_def)
    with new_events_trans [OF s02(1), of s3] s3 two show ?thesis by simp
  next
    case False
    with assms(2) f p have "t = s1 \<or> t = s2" by (auto simp: receiveStep_def Let_def split: if_splits sum.splits)
    with ev1 two show ?thesis by auto
  qed
qed

lemma receive_trace:
  assumes "flag_ok flag" and "poll_idle ev" and "receive E poll ev q timeout flag s = Some (r, t)"
  shows "io_extends s t \<and> receive_outcome ev q (Some r) (new_events s t)"
  using assms(3)
proof (induction rule: receive_induct)
  case (stop s r t)
  from receiveStep_trace [OF assms(1,2) stop] show ?case .
next
  case (step s u r t)
  from receiveStep_trace [OF assms(1,2) step(1)] have "io_extends s u" "list_all idle_event (new_events s u)"
    by (simp_all add: receive_outcome_def)
  with step(2) show ?case
    using io_extends_trans [of s u t] new_events_trans [of s u t] receive_outcome_prefix by metis
qed

lemma drainLoop_induct [consumes 1, case_names stop step]:
  assumes "drainLoop E poll ev q flag handle any s = Some (b, t)"
    and stop: "\<And>any s t. receiveNext E poll ev q 0 flag handle s = Some (False, t) \<Longrightarrow> P any s any t"
    and step: "\<And>any s u b t. receiveNext E poll ev q 0 flag handle s = Some (True, u) \<Longrightarrow> P True u b t \<Longrightarrow> P any s b t"
  shows "P any s b t"
proof -
  let ?Q = "\<lambda>E' poll' ev' q' flag' handle' any s y.
    E' = E \<and> poll' = poll \<and> ev' = ev \<and> q' = q \<and> flag' = flag \<and> handle' = handle \<longrightarrow> P any s (fst y) (snd y)"
  have "?Q E poll ev q flag handle any s (b, t)"
    by (rule drainLoop.raw_induct [where P = ?Q, OF _ assms(1)])
      (auto split: Option.bind_splits if_splits, (blast intro: stop step)+)
  then show ?thesis by simp
qed


text \<open>
  The rule for reasoning about a loop of receives: a property of the state that an idle attempt keeps,
  and that handling a message re-establishes once the delivery is on the trace, is kept by the loop.
\<close>

lemma receiveNext_cases:
  assumes "flag_ok flag" and "poll_idle ev" and "receiveNext E poll ev q timeout flag handle s = Some (b, t)"
  obtains (empty) "\<not> b" "emits idle_event s t"
  | (message) m u where "b" "io_extends s u" "receive_outcome ev q (Some (Inr (Some m))) (new_events s u)" "t = handle m u"
proof -
  from assms(3) obtain r u where rec: "receive E poll ev q timeout flag s = Some (r, u)"
    and t: "t = (case r of Inr (Some m) \<Rightarrow> handle m u | _ \<Rightarrow> u)" and b: "b \<longleftrightarrow> (\<exists>m. r = Inr (Some m))"
    by (auto simp: receiveNext_def split: option.splits prod.splits sum.splits)
  from receive_trace [OF assms(1,2) rec] have ext: "io_extends s u" and out: "receive_outcome ev q (Some r) (new_events s u)"
    by simp_all
  show thesis
  proof (cases "\<exists>m. r = Inr (Some m)")
    case True
    with ext out t b message show thesis by auto
  next
    case False
    with out t have "t = u" "list_all idle_event (new_events s u)"
      by (auto simp: receive_outcome_def split: sum.splits option.splits)
    with ext have "emits idle_event s t" by (simp add: emits_def)
    moreover have "\<not> b" using b False by simp
    ultimately show thesis by (rule empty [rotated])
  qed
qed

lemma receiveNext_invariant:
  assumes "flag_ok flag" and "poll_idle ev" and "receiveNext E poll ev q timeout flag handle s = Some (b, t)"
    and idle: "\<And>s t. I s \<Longrightarrow> emits idle_event s t \<Longrightarrow> I t"
    and handled: "\<And>m s t. I s \<Longrightarrow> io_extends s t \<Longrightarrow> receive_outcome ev q (Some (Inr (Some m))) (new_events s t) \<Longrightarrow>
        I (handle m t)"
    and "I s"
  shows "I t"
  using assms(1-3)
proof (cases rule: receiveNext_cases)
  case empty
  with idle [OF assms(6)] show ?thesis by blast
next
  case (message m u)
  with handled [OF assms(6)] show ?thesis by blast
qed

lemma drainQueue_invariant:
  assumes "flag_ok flag" and "poll_idle ev" and "drainQueue E poll ev q flag handle s = Some (b, t)"
    and idle: "\<And>s t. I s \<Longrightarrow> emits idle_event s t \<Longrightarrow> I t"
    and handled: "\<And>m s t. I s \<Longrightarrow> io_extends s t \<Longrightarrow> receive_outcome ev q (Some (Inr (Some m))) (new_events s t) \<Longrightarrow>
        I (handle m t)"
    and "I s"
  shows "I t"
  using assms(3,6) unfolding drainQueue_def
proof (induction rule: drainLoop_induct)
  case (stop any s t)
  show ?case by (rule receiveNext_invariant [where I = I, OF assms(1,2) stop(1)]) (fact idle handled stop(2))+
next
  case (step any s u b t)
  have "I u" by (rule receiveNext_invariant [where I = I, OF assms(1,2) step(1)]) (fact idle handled step(3))+
  then show ?case by (rule step(2))
qed

section \<open>Draining ends\<close>

text \<open>
  A broker whose queues hold finitely many messages, over a ghost count of the world: a delivery uses
  one up, and neither a failed poll nor any other call of a stage adds to the queues it drains.
\<close>

definition drains :: "('w \<Rightarrow> nat) \<Rightarrow> ('w, 'm) poll \<Rightarrow> bool" where
  "drains backlog poll \<longleftrightarrow>
     (\<forall>q i w. backlog (snd (poll q i w)) \<le> backlog w \<and>
        (has_value (fst (poll q i w)) \<longrightarrow> backlog (snd (poll q i w)) < backlog w))"

definition finite_backlog :: "'w environment \<Rightarrow> ('w \<Rightarrow> nat) \<Rightarrow> bool" where
  "finite_backlog E backlog \<longleftrightarrow>
     drains backlog (env_receiveTask E) \<and> drains backlog (env_receiveBackend E) \<and>
     (\<forall>w. backlog (snd (env_terminationRequested E w)) \<le> backlog w) \<and>
     (\<forall>w. backlog (snd (env_now E w)) \<le> backlog w) \<and>
     (\<forall>d w. backlog (snd (env_ack E d w)) \<le> backlog w) \<and>
     (\<forall>q m w. backlog (snd (env_send E q m w)) \<le> backlog w)"

lemma receiveStep_drains:
  assumes "drains backlog poll" and "finite_backlog E backlog"
    and "receiveStep E poll ev q timeout (terminationRequested E) s = (Some (Inr (Some m)), t)"
  shows "backlog (world t) < backlog (world s)"
proof -
  let ?i = "if timeout = WaitForever then DefaultReceiveTimeout else timeout"
  obtain b s1 where f: "terminationRequested E s = (b, s1)" by (cases "terminationRequested E s")
  obtain got s2 where p: "ext_call (poll q ?i) (ev q ?i) s1 = (got, s2)" by (cases "ext_call (poll q ?i) (ev q ?i) s1")
  from assms(3) f p obtain d where g: "got = Inr (m, d)" and t: "t = snd (ext_call (env_ack E d) (DeliveryAcked d) s2)"
    by (auto simp: receiveStep_def Let_def split: if_splits sum.splits)
  have "world s1 = snd (env_terminationRequested E (world s))"
    using f ext_call_simps(2) [of "env_terminationRequested E" FlagRead s] by (simp add: terminationRequested_def)
  then have "backlog (world s1) \<le> backlog (world s)" using assms(2) by (simp add: finite_backlog_def)
  moreover have "backlog (world s2) < backlog (world s1)"
  proof -
    have "fst (poll q ?i (world s1)) = Inr (m, d)" "world s2 = snd (poll q ?i (world s1))"
      using p g ext_call_simps(1,2) [of "poll q ?i" "ev q ?i" s1] by simp_all
    with assms(1) show ?thesis unfolding drains_def has_value_iff by metis
  qed
  moreover have "backlog (world t) \<le> backlog (world s2)" using assms(2) unfolding t ext_call_simps by (simp add: finite_backlog_def)
  ultimately show ?thesis by simp
qed

lemma receiveNext_drains:
  assumes "drains backlog poll" and "finite_backlog E backlog"
    and handle: "\<And>m s. backlog (world (handle m s)) \<le> backlog (world s)"
    and "receiveNext E poll ev q 0 (terminationRequested E) handle s = Some (True, t)"
  shows "backlog (world t) < backlog (world s)"
proof -
  obtain r u where st: "receiveStep E poll ev q 0 (terminationRequested E) s = (Some r, u)"
    by (cases "receiveStep E poll ev q 0 (terminationRequested E) s")
      (auto simp: receiveStep_def Let_def WaitForever_def split: prod.splits sum.splits if_splits)
  then have "receive E poll ev q 0 (terminationRequested E) s = Some (r, u)" by (subst receive.simps) simp
  with assms(4) obtain m where "r = Inr (Some m)" "t = handle m u"
    by (auto simp: receiveNext_def split: sum.splits option.splits)
  with receiveStep_drains [OF assms(1,2), of ev q 0 s m u] st handle [of m u] show ?thesis by simp
qed

lemma drainQueue_returns:
  assumes "drains backlog poll" and "finite_backlog E backlog"
    and handle: "\<And>m s. backlog (world (handle m s)) \<le> backlog (world s)"
  shows "\<exists>b t. drainQueue E poll ev q (terminationRequested E) handle s = Some (b, t)"
proof -
  have "\<exists>b t. drainLoop E poll ev q (terminationRequested E) handle any s = Some (b, t)" for any
  proof (induction "backlog (world s)" arbitrary: any s rule: less_induct)
    case less
    obtain got t where r: "receiveNext E poll ev q 0 (terminationRequested E) handle s = Some (got, t)"
      using receiveNext_bounded [of 0 E poll ev q "terminationRequested E" handle s] by (auto simp: WaitForever_def)
    show ?case
    proof (cases got)
      case True
      with r have "backlog (world t) < backlog (world s)" by (intro receiveNext_drains [OF assms(1,2) handle]) simp_all
      from less [OF this, of True] r True show ?thesis by (subst drainLoop.simps) simp
    next
      case False
      with r show ?thesis by (subst drainLoop.simps) simp
    qed
  qed
  then show ?thesis by (simp add: drainQueue_def)
qed

lemma send_backlog: "finite_backlog E backlog \<Longrightarrow> backlog (world (send E m q s)) \<le> backlog (world s)"
proof -
  assume "finite_backlog E backlog"
  moreover have "world (send E m q s) = snd (env_send E q m (world s))"
    using ext_call_simps(2) [of "env_send E q m" "MessageSent q m" s]
    by (auto simp: send_def comms_send_def split: prod.splits sum.splits)
  ultimately show ?thesis by (simp add: finite_backlog_def)
qed

lemma now_backlog: "finite_backlog E backlog \<Longrightarrow> Clock_now E s = (now, t) \<Longrightarrow> backlog (world t) \<le> backlog (world s)"
  using ext_call_simps(2) [of "env_now E" ClockRead s] by (auto simp: Clock_now_def finite_backlog_def)

section \<open>The task ledger\<close>

text \<open>
  A task is followed through a daemon by its identity and the queue its owner waits on; compiling and
  scheduling change neither. What a trace says: the tasks received, the tasks answered (a result,
  completed or cancelled, was sent to the owner's queue) and the tasks forwarded to another stage.
\<close>

type_synonym ticket = "int \<times> string"

definition ticket :: "QuantumTask \<Rightarrow> ticket" where
  "ticket task = (task_id task, result_destination task)"

fun received_ticket :: "event \<Rightarrow> ticket option" where
  "received_ticket (TaskPolled _ _ (Inr (task, _))) = Some (ticket task)"
| "received_ticket _ = None"

fun answered_ticket :: "event \<Rightarrow> ticket option" where
  "answered_ticket (MessageSent q (ResultMessage r) _) = Some (res_task_id r, q)"
| "answered_ticket _ = None"

fun forwarded_ticket :: "event \<Rightarrow> ticket option" where
  "forwarded_ticket (MessageSent q (TaskMessage task) _) = Some (ticket task)"
| "forwarded_ticket _ = None"

definition answered_or_forwarded :: "event \<Rightarrow> ticket option" where
  "answered_or_forwarded e = (case answered_ticket e of Some k \<Rightarrow> Some k | None \<Rightarrow> forwarded_ticket e)"

definition tally :: "(event \<Rightarrow> 'a option) \<Rightarrow> event list \<Rightarrow> 'a multiset" where
  "tally f es = mset (List.map_filter f es)"

lemma tally_simps [simp]:
  "tally f [] = {#}"
  "tally f (e # es) = (case f e of None \<Rightarrow> {#} | Some x \<Rightarrow> {#x#}) + tally f es"
  "tally f (es @ fs) = tally f es + tally f fs"
  by (simp_all add: tally_def List.map_filter_def split: option.splits)

lemma tally_none: "(\<And>e. e \<in> set es \<Longrightarrow> f e = None) \<Longrightarrow> tally f es = {#}"
  by (induction es) simp_all

text \<open>
  The books of a stretch of execution from \<open>s\<close> to \<open>t\<close>, with \<open>pend\<close> the tickets of the tasks the
  daemon holds and \<open>due\<close> those it was handed in addition: every ticket due, received or held is
  afterwards settled (an event of kind \<open>out\<close>), held, or abandoned, and a ticket is abandoned only
  after a shutdown request was seen.
\<close>

definition settles ::
  "(event \<Rightarrow> ticket option) \<Rightarrow> (('w, 'z) io_scheme \<Rightarrow> ticket multiset) \<Rightarrow> ticket multiset \<Rightarrow>
   ('w, 'z) io_scheme \<Rightarrow> ('w, 'z) io_scheme \<Rightarrow> bool" where
  "settles out pend due s t \<longleftrightarrow>
     (\<exists>es abandoned. trace t = trace s @ es \<and>
        due + tally received_ticket es + pend s = tally out es + pend t + abandoned \<and>
        (abandoned \<noteq> {#} \<longrightarrow> FlagRead True \<in> set es))"

lemma books_balance:
  fixes p :: "'a multiset"
  assumes "d + r + p = out + q + a" and "d' + r' + q = out' + q' + a'"
  shows "d + d' + (r + r') + p = (out + out') + q' + (a + a')"
proof -
  have "d + d' + (r + r') + p = (d + r + p) + (d' + r')" by (simp only: ac_simps)
  also have "\<dots> = (d' + r' + q) + (out + a)" unfolding assms(1) by (simp only: ac_simps)
  also have "\<dots> = (out + out') + q' + (a + a')" unfolding assms(2) by (simp only: ac_simps)
  finally show ?thesis .
qed

lemma settles_refl: "settles out pend {#} s s"
  by (simp add: settles_def)

lemma settles_trans:
  assumes "settles out pend due s t" and "settles out pend due' t u"
  shows "settles out pend (due + due') s u"
proof -
  from assms(1) obtain es ab where a: "trace t = trace s @ es"
    "due + tally received_ticket es + pend s = tally out es + pend t + ab"
    "ab \<noteq> {#} \<longrightarrow> FlagRead True \<in> set es" unfolding settles_def by blast
  from assms(2) obtain fs ab' where b: "trace u = trace t @ fs"
    "due' + tally received_ticket fs + pend t = tally out fs + pend u + ab'"
    "ab' \<noteq> {#} \<longrightarrow> FlagRead True \<in> set fs" unfolding settles_def by blast
  have "due + due' + tally received_ticket (es @ fs) + pend s =
      tally out (es @ fs) + pend u + (ab + ab')"
    using books_balance [OF a(2) b(2)] by simp
  with a(1,3) b(1,3) show ?thesis unfolding settles_def by (intro exI [of _ "es @ fs"] exI [of _ "ab + ab'"]) auto
qed

lemma settles_books:
  assumes "settles out pend {#} s t"
  shows "tally out (new_events s t) + pend t \<subseteq># tally received_ticket (new_events s t) + pend s"
    and "FlagRead True \<notin> set (new_events s t) \<longrightarrow>
      tally out (new_events s t) + pend t = tally received_ticket (new_events s t) + pend s"
proof -
  from assms obtain es lost where books: "trace t = trace s @ es"
    "tally received_ticket es + pend s = tally out es + pend t + lost" "lost \<noteq> {#} \<longrightarrow> FlagRead True \<in> set es"
    unfolding settles_def by auto
  note ev = new_events_eq [OF books(1)]
  show "tally out (new_events s t) + pend t \<subseteq># tally received_ticket (new_events s t) + pend s"
    unfolding ev books(2) by simp
  show "FlagRead True \<notin> set (new_events s t) \<longrightarrow>
      tally out (new_events s t) + pend t = tally received_ticket (new_events s t) + pend s"
    unfolding ev using books(2,3) by auto
qed

text \<open>
  The contract of a way of keeping the books: only messages sent settle a ticket, a result sent to a
  queue settles the ticket of its task and that queue, and what is held is part of the daemon's own
  variables, which an external call does not change.
\<close>

locale ledger =
  fixes out :: "event \<Rightarrow> ticket option"
    and pend :: "('w, 'z) io_scheme \<Rightarrow> ticket multiset"
  assumes sends: "out e = Some k \<Longrightarrow> \<exists>q m r. e = MessageSent q m r"
    and answers: "out (MessageSent q (ResultMessage r) ok) = Some (res_task_id r, q)"
    and held: "io.more s = io.more t \<Longrightarrow> pend s = pend t"
begin

lemma out_none: "(\<And>q m r. e \<noteq> MessageSent q m r) \<Longrightarrow> out e = None"
  using sends by (metis not_None_eq)

lemma quiet:
  assumes "io_extends s t" and "\<And>e. e \<in> set (new_events s t) \<Longrightarrow> received_ticket e = None \<and> out e = None"
  shows "settles out pend {#} s t"
proof -
  have "tally received_ticket (new_events s t) = {#}" "tally out (new_events s t) = {#}"
    using assms(2) by (simp_all add: tally_none)
  then show ?thesis
    unfolding settles_def using io_extends_trace [OF assms(1)] held [OF io_extends_more [OF assms(1)]]
    by (intro exI [of _ "new_events s t"] exI [of _ "{#}"]) simp
qed

lemma silent:
  assumes "silent s t"
  shows "settles out pend {#} s t"
proof (rule quiet)
  show "io_extends s t" using assms by (rule silent_extends)
  fix e
  assume "e \<in> set (new_events s t)"
  with assms have e: "\<not> broker_event e" by (simp add: silent_def)
  then have "received_ticket e = None" by (cases e) simp_all
  moreover from e have "out e = None" by (intro out_none) auto
  ultimately show "received_ticket e = None \<and> out e = None" ..
qed

lemma idle_events: "idle_event e \<Longrightarrow> received_ticket e = None \<and> out e = None"
  using out_none by (cases e rule: idle_event.cases) auto

lemma idle:
  assumes "io_extends s t" and "list_all idle_event (new_events s t)"
  shows "settles out pend {#} s t"
  using assms idle_events by (intro quiet) (auto simp: list_all_iff)

lemma sent_message:
  assumes "\<And>r. out (MessageSent q m r) = Some k"
  shows "settles out pend {#k#} s (send E m q s)"
proof -
  obtain r where r: "trace (send E m q s) = trace s @ [MessageSent q m r]" "io.more (send E m q s) = io.more s"
    using send_spec by blast
  from held [OF r(2)] r(1) show ?thesis unfolding settles_def
    using assms by (intro exI [of _ "[MessageSent q m r]"] exI [of _ "{#}"]) simp
qed

lemma unsettling_message:
  assumes "\<And>r. out (MessageSent q m r) = None"
  shows "settles out pend {#} s (send E m q s)"
proof -
  obtain r where r: "trace (send E m q s) = trace s @ [MessageSent q m r]" "io.more (send E m q s) = io.more s"
    using send_spec by blast
  from held [OF r(2)] r(1) show ?thesis unfolding settles_def
    using assms by (intro exI [of _ "[MessageSent q m r]"] exI [of _ "{#}"]) simp
qed

text \<open>Answering a task settles its ticket.\<close>

lemma failure: "settles out pend {#ticket task#} s (sendFailure E task e s)"
  unfolding sendFailure_def by (rule sent_message) (simp add: answers ticket_def cancelQuantumTask_def)

lemma success: "res_task_id r = task_id task \<Longrightarrow> settles out pend {#ticket task#} s (sendResult E task r s)"
  unfolding sendResult_def by (rule sent_message) (simp add: answers ticket_def)

text \<open>Receiving and handling: a received task is due to the handler.\<close>

lemma received_task:
  assumes "receive_outcome TaskPolled q (Some (Inr (Some task))) es"
  shows "tally received_ticket es = {#ticket task#}" and "tally out es = {#}"
proof -
  from assms obtain idle i d a where es: "list_all idle_event idle"
    "es = idle @ [TaskPolled q i (Inr (task, d)), DeliveryAcked d a]" by (auto simp: receive_outcome_def)
  then have "tally received_ticket idle = {#}" "tally out idle = {#}"
    using idle_events by (simp_all add: tally_none list_all_iff)
  with es(2) out_none show "tally received_ticket es = {#ticket task#}" and "tally out es = {#}" by simp_all
qed

lemma next_task:
  assumes "flag_ok flag" and handle: "\<And>task s. settles out pend {#ticket task#} s (handle task s)"
    and "receiveNext E (env_receiveTask E) TaskPolled q timeout flag handle s = Some (b, t)"
  shows "settles out pend {#} s t"
  using assms(1) poll_idle_simps(1) assms(3)
proof (cases rule: receiveNext_cases)
  case empty
  then show ?thesis using idle by (simp add: emits_def)
next
  case (message task u)
  note books = received_task [OF message(3)]
  obtain es ab where h: "trace t = trace u @ es"
    "{#ticket task#} + tally received_ticket es + pend u = tally out es + pend t + ab"
    "ab \<noteq> {#} \<longrightarrow> FlagRead True \<in> set es"
    using handle [of task u] message(4) unfolding settles_def by auto
  show ?thesis unfolding settles_def
    using h books io_extends_trace [OF message(2)] held [OF io_extends_more [OF message(2)]]
    by (intro exI [of _ "new_events s u @ es"] exI [of _ ab]) auto
qed

lemma all_tasks:
  assumes "flag_ok flag" and handle: "\<And>task s. settles out pend {#ticket task#} s (handle task s)"
    and "drainQueue E (env_receiveTask E) TaskPolled q flag handle s = Some (b, t)"
  shows "settles out pend {#} s t"
  using assms(3) unfolding drainQueue_def
proof (induction rule: drainLoop_induct)
  case (stop any s t)
  then show ?case by (rule next_task [OF assms(1) handle])
next
  case (step any s u b t)
  from settles_trans [OF next_task [OF assms(1) handle step(1)] step(2)] show ?case by simp
qed

lemma next_status:
  assumes "flag_ok flag" and handle: "\<And>m s. settles out pend {#} s (handle m s)"
    and "receiveNext E (env_receiveBackend E) BackendPolled q timeout flag handle s = Some (b, t)"
  shows "settles out pend {#} s t"
  using assms(1) poll_idle_simps(2) assms(3)
proof (cases rule: receiveNext_cases)
  case empty
  then show ?thesis using idle by (simp add: emits_def)
next
  case (message m u)
  have "received_ticket e = None \<and> out e = None" if "e \<in> set (new_events s u)" for e
    using message(3) that idle_events out_none by (fastforce simp: receive_outcome_def list_all_iff)
  from settles_trans [OF quiet [OF message(2) this] handle] message(4) show ?thesis by simp
qed

lemma all_statuses:
  assumes "flag_ok flag" and handle: "\<And>m s. settles out pend {#} s (handle m s)"
    and "drainQueue E (env_receiveBackend E) BackendPolled q flag handle s = Some (b, t)"
  shows "settles out pend {#} s t"
  using assms(3) unfolding drainQueue_def
proof (induction rule: drainLoop_induct)
  case (stop any s t)
  then show ?case by (rule next_status [OF assms(1) handle])
next
  case (step any s u b t)
  from settles_trans [OF next_status [OF assms(1) handle step(1)] step(2)] show ?case by simp
qed

end

text \<open>The books of a stage that forwards every task it accepts and holds none.\<close>

interpretation forwarding: ledger answered_or_forwarded "\<lambda>_. {#}"
  by unfold_locales
    (auto simp: answered_or_forwarded_def elim!: answered_ticket.elims forwarded_ticket.elims split: option.splits)

section \<open>Properties\<close>


text \<open>A queue that holds the sample task.\<close>

definition busy_env :: "nat environment" where
  "busy_env = sample_env\<lparr>env_receiveTask := (\<lambda>_ _ w. (Inr (sample_task, w), Suc w))\<rparr>"


end
