(* ===== verification/Config_Loader.thy ===== *)
theory Config_Loader
  imports Config_Model
begin

text \<open>
  \<open>assembleConfig\<close> and \<open>loadConfig\<close> of \<open>src/Config.cpp\<close>. The fields are read in the order of the code,
  the first failure is returned; the code's single function is split here at its groups (connection,
  common, selector, compiler, submitter), which are contiguous in it.
\<close>

section \<open>Assembling\<close>

text \<open>The blocks of the \<open>Config\<close> that is returned at the end, with the log files placed in \<open>logDir\<close>.\<close>

definition CommonConfig_of ::
  "string \<Rightarrow> RabbitMqConnectionConfig \<Rightarrow> string \<Rightarrow> string \<Rightarrow> string \<Rightarrow> string \<Rightarrow> string \<Rightarrow> int \<Rightarrow> CommonConfig" where
  "CommonConfig_of logDir connection daemonLogger qrmciQueue resultsQueue schedulerQueue schedulerLogger stagePollInterval =
     \<lparr>com_connection = connection, com_logDir = logDir, com_daemonLogger = daemonLogger,
      com_daemonLog = logPath logDir DaemonLog, com_qrmciQueue = qrmciQueue,
      com_resultsQueue = resultsQueue, com_schedulerQueue = schedulerQueue,
      com_schedulerLogger = schedulerLogger, com_schedulerLog = logPath logDir SchedulerLog,
      com_stagePollInterval = stagePollInterval\<rparr>"

definition SelectorConfig_of :: "string \<Rightarrow> string \<Rightarrow> string \<Rightarrow> int \<Rightarrow> BackendSelectionPolicy \<Rightarrow> SelectorConfig" where
  "SelectorConfig_of logDir backendStatusQueue selectorLogger selectorEntryTimeToLive selectionPolicy =
     \<lparr>sel_backendStatusQueue = backendStatusQueue, sel_logger = selectorLogger,
      sel_logFile = logPath logDir SelectorLog,
      sel_backendRegistry = \<lparr>reg_entryTimeToLive = selectorEntryTimeToLive\<rparr>,
      sel_selectionPolicy = selectionPolicy\<rparr>"

definition CompilerConfig_of :: "string \<Rightarrow> string \<Rightarrow> string \<Rightarrow> int \<Rightarrow> CompilerConfig" where
  "CompilerConfig_of logDir compilerQueue compilerLogger taskReceiveTimeout =
     \<lparr>cmp_queue = compilerQueue, cmp_logger = compilerLogger, cmp_logFile = logPath logDir CompilerLog,
      cmp_taskReceiveTimeout = taskReceiveTimeout\<rparr>"

definition SubmitterConfig_of ::
  "string \<Rightarrow> string \<Rightarrow> string \<Rightarrow> string \<Rightarrow> string \<Rightarrow> string \<Rightarrow> string \<Rightarrow> int \<Rightarrow> int \<Rightarrow> int \<Rightarrow> SubmitterConfig" where
  "SubmitterConfig_of logDir submitterQueue submitterLogger qdmiDriver qdmiDeviceName qdmiDeviceId qdmiClientToken
       jobWaitTimeout submitterEntryTimeToLive backendStatusPublishInterval =
     \<lparr>sub_queue = submitterQueue, sub_logger = submitterLogger, sub_logFile = logPath logDir SubmitterLog,
      sub_qdmiDriver = qdmiDriver, sub_qdmiDeviceName = qdmiDeviceName, sub_qdmiDeviceId = qdmiDeviceId,
      sub_qdmiClientToken = qdmiClientToken, sub_jobWaitTimeout = jobWaitTimeout,
      sub_backendRegistry = \<lparr>reg_entryTimeToLive = submitterEntryTimeToLive\<rparr>,
      sub_backendStatusPublishInterval = backendStatusPublishInterval\<rparr>"

lemmas Config_blocks [config_simps] = CommonConfig_of_def SelectorConfig_of_def CompilerConfig_of_def SubmitterConfig_of_def

text \<open>Host to virtual host.\<close>

definition assembleConnection :: "'n toml \<Rightarrow> 'n platform \<Rightarrow> 'n option \<Rightarrow> RabbitMqConnectionConfig result" where
  "assembleConnection T P connectionTable =
     and_then (requiredStringField T P (subscript T connectionTable ''host'') ''common.connection.host''
       ''QRMCI_AMQP_HOST'' AMQPHost) (\<lambda>host.
     and_then (and_then (tomlValueOrExpected (value_int T) (subscript T connectionTable ''port'')
         ''common.connection.port'' AMQPPort) (\<lambda>fileValue. getEnvIntOrExpected P ''QRMCI_AMQP_PORT'' fileValue)) (\<lambda>port.
     if port < 1 \<or> port > 65535 then
       Inl (config_key_error ''common.connection.port'' '' must be between 1 and 65535'')
     else
     and_then (stringField T P (subscript T connectionTable ''user'') ''common.connection.user''
       ''QRMCI_AMQP_USER'' AMQPUser) (\<lambda>user.
     and_then (stringField T P (subscript T connectionTable ''password'') ''common.connection.password''
       ''QRMCI_AMQP_PASSWORD'' AMQPPassword) (\<lambda>password.
     and_then (stringField T P (subscript T connectionTable ''vhost'') ''common.connection.vhost''
       ''QRMCI_AMQP_VHOST'' AMQPVHost) (\<lambda>vhost.
     Inr \<lparr>con_host = host, con_port = port, con_user = user, con_password = password, con_vhost = vhost\<rparr>)))))"

definition assembleCommon :: "'n toml \<Rightarrow> 'n platform \<Rightarrow> 'n option \<Rightarrow> CommonConfig result" where
  "assembleCommon T P commonTable =
     and_then (stringField T P (subscript T commonTable ''logDir'') ''common.logDir'' ''QRMCI_LOG_DIR'' LogDir) (\<lambda>logDir.
     and_then (assembleConnection T P (subscript T commonTable ''connection'')) (\<lambda>connection.
     and_then (tomlValueOrExpected (value_string T) (subscript T commonTable ''daemonLogger'')
       ''common.daemonLogger'' ''mqss::Daemon'') (\<lambda>daemonLogger.
     and_then (requiredStringField T P (subscript T commonTable ''qrmciQueue'') ''common.qrmciQueue''
       ''QRMCI_QRMCI_QUEUE'' QRMCIQueue) (\<lambda>qrmciQueue.
     and_then (stringField T P (subscript T commonTable ''resultsQueue'') ''common.resultsQueue''
       ''QRMCI_RESULTS_QUEUE'' ResultsQueue) (\<lambda>resultsQueue.
     and_then (stringField T P (subscript T commonTable ''schedulerQueue'') ''common.schedulerQueue''
       ''QRMCI_SCHEDULER_QUEUE'' SchedulerQueue) (\<lambda>schedulerQueue.
     and_then (tomlValueOrExpected (value_string T) (subscript T commonTable ''schedulerLogger'')
       ''common.schedulerLogger'' ''mqss::Scheduler'') (\<lambda>schedulerLogger.
     and_then (tomlDurationOrExpected T (subscript T commonTable ''stagePollInterval'')
       ''common.stagePollInterval'' DefaultStagePollInterval Positive) (\<lambda>stagePollInterval.
     Inr (CommonConfig_of logDir connection daemonLogger qrmciQueue resultsQueue schedulerQueue schedulerLogger
       stagePollInterval)))))))))"

definition assembleSelector :: "'n toml \<Rightarrow> 'n platform \<Rightarrow> 'n option \<Rightarrow> string \<Rightarrow> SelectorConfig result" where
  "assembleSelector T P selectorTable logDir =
     and_then (requiredStringField T P (subscript T selectorTable ''backendStatusQueue'')
       ''selector.backendStatusQueue'' ''QRMCI_BACKEND_STATUS_QUEUE'' BackendStatusQueue) (\<lambda>backendStatusQueue.
     and_then (tomlValueOrExpected (value_string T) (subscript T selectorTable ''logger'')
       ''selector.logger'' ''mqss::Selector'') (\<lambda>selectorLogger.
     and_then (tomlDurationOrExpected T (subscript T (subscript T selectorTable ''backendRegistry'') ''entryTimeToLive'')
       ''selector.backendRegistry.entryTimeToLive'' DefaultEntryTimeToLive Positive) (\<lambda>selectorEntryTimeToLive.
     and_then (and_then (tomlValueOrExpected (value_string T) (subscript T selectorTable ''selectionPolicy'')
         ''selector.selectionPolicy'' ''lowest-name'')
         (\<lambda>v. parseSelectionPolicy v ''selector.selectionPolicy'')) (\<lambda>selectionPolicy.
     Inr (SelectorConfig_of logDir backendStatusQueue selectorLogger selectorEntryTimeToLive selectionPolicy)))))"

definition assembleCompiler :: "'n toml \<Rightarrow> 'n platform \<Rightarrow> 'n option \<Rightarrow> string \<Rightarrow> CompilerConfig result" where
  "assembleCompiler T P compilerTable logDir =
     and_then (requiredStringField T P (subscript T compilerTable ''queue'') ''compiler.queue''
       ''QRMCI_COMPILER_QUEUE'' CompilerQueue) (\<lambda>compilerQueue.
     and_then (tomlValueOrExpected (value_string T) (subscript T compilerTable ''logger'')
       ''compiler.logger'' ''mqss::Compiler'') (\<lambda>compilerLogger.
     and_then (tomlDurationOrExpected T (subscript T compilerTable ''taskReceiveTimeout'')
       ''compiler.taskReceiveTimeout'' DefaultTaskReceiveTimeout NonNegative) (\<lambda>taskReceiveTimeout.
     Inr (CompilerConfig_of logDir compilerQueue compilerLogger taskReceiveTimeout))))"

text \<open>
  Up to the cross-field check. The code compares a count of seconds with a count of milliseconds in
  milliseconds, so the seconds are multiplied by a thousand as an \<open>int64\<close>.
\<close>

definition assembleSubmitter :: "'n toml \<Rightarrow> 'n platform \<Rightarrow> 'n option \<Rightarrow> string \<Rightarrow> SubmitterConfig result" where
  "assembleSubmitter T P submitterTable logDir =
     and_then (stringField T P (subscript T submitterTable ''queue'') ''submitter.queue''
       ''QRMCI_SUBMITTER_QUEUE'' SubmitterQueue) (\<lambda>submitterQueue.
     and_then (tomlValueOrExpected (value_string T) (subscript T submitterTable ''logger'')
       ''submitter.logger'' ''mqss::Submitter'') (\<lambda>submitterLogger.
     and_then (requiredStringField T P (subscript T submitterTable ''qdmiDriver'') ''submitter.qdmiDriver''
       ''QRMCI_SUBMITTER_QDMI_DRIVER'' SubmitterqdmiDriver) (\<lambda>qdmiDriver.
     and_then (requiredStringField T P (subscript T submitterTable ''qdmiDeviceName'') ''submitter.qdmiDeviceName''
       ''QRMCI_SUBMITTER_QDMI_DEVICE_NAME'' SubmitterQdmiDeviceName) (\<lambda>qdmiDeviceName.
     and_then (requiredStringField T P (subscript T submitterTable ''qdmiDeviceId'') ''submitter.qdmiDeviceId''
       ''QRMCI_SUBMITTER_QDMI_DEVICE_ID'' SubmitterQdmiDeviceId) (\<lambda>qdmiDeviceId.
     and_then (stringField T P (subscript T submitterTable ''qdmiClientToken'') ''submitter.qdmiClientToken''
       ''QRMCI_SUBMITTER_QDMI_CLIENT_TOKEN'' SubmitterQdmiClientToken) (\<lambda>qdmiClientToken.
     and_then (tomlDurationOrExpected T (subscript T submitterTable ''jobWaitTimeout'')
       ''submitter.jobWaitTimeout'' DefaultJobWaitTimeout NonNegative) (\<lambda>jobWaitTimeout.
     and_then (tomlDurationOrExpected T (subscript T (subscript T submitterTable ''backendRegistry'') ''entryTimeToLive'')
       ''submitter.backendRegistry.entryTimeToLive'' DefaultEntryTimeToLive Positive) (\<lambda>submitterEntryTimeToLive.
     and_then (tomlDurationOrExpected T (subscript T submitterTable ''backendStatusPublishInterval'')
       ''submitter.backendStatusPublishInterval'' DefaultBackendStatusPublishInterval Positive)
       (\<lambda>backendStatusPublishInterval.
     if wrap64 (submitterEntryTimeToLive * 1000) \<le> backendStatusPublishInterval then
       Inl (config_key_error ''submitter.backendRegistry.entryTimeToLive''
         ('' must be greater than '' @ quoted ''submitter.backendStatusPublishInterval''))
     else
     Inr (SubmitterConfig_of logDir submitterQueue submitterLogger qdmiDriver qdmiDeviceName qdmiDeviceId qdmiClientToken
       jobWaitTimeout submitterEntryTimeToLive backendStatusPublishInterval))))))))))"

definition assembleConfig :: "'n toml \<Rightarrow> 'n platform \<Rightarrow> 'n \<Rightarrow> Config result" where
  "assembleConfig T P root =
     and_then (checkSchema T root) (\<lambda>_.
     and_then (assembleCommon T P (subscript T (Some root) ''common'')) (\<lambda>common.
     and_then (assembleSelector T P (subscript T (Some root) ''selector'') (com_logDir common)) (\<lambda>selector.
     and_then (assembleCompiler T P (subscript T (Some root) ''compiler'') (com_logDir common)) (\<lambda>compiler.
     and_then (assembleSubmitter T P (subscript T (Some root) ''submitter'') (com_logDir common)) (\<lambda>submitter.
     Inr \<lparr>cfg_common = common, cfg_selector = selector, cfg_compiler = compiler, cfg_submitter = submitter\<rparr>)))))"

text \<open>The overload that takes a path, and the one that discovers it.\<close>

definition loadConfigFrom :: "'n toml \<Rightarrow> 'n platform \<Rightarrow> string \<Rightarrow> Config result" where
  "loadConfigFrom T P configFile = and_then (parseConfigFile T P configFile) (assembleConfig T P)"

definition loadConfig :: "'n toml \<Rightarrow> 'n platform \<Rightarrow> Config result" where
  "loadConfig T P = loadConfigFrom T P (getEnvOr P ''QRMCI_CONFIG_FILE'' DefaultConfigFilePath)"


section \<open>The readers\<close>

text \<open>The three layers of a setting: the environment wins over the file, the file over the default.\<close>

definition layered :: "'a option \<Rightarrow> 'a option \<Rightarrow> 'a \<Rightarrow> 'a" where
  "layered env file dflt = (case env of Some v \<Rightarrow> v | None \<Rightarrow> (case file of Some v \<Rightarrow> v | None \<Rightarrow> dflt))"

lemma layered_simps [simp]:
  "layered (Some v) f d = v"
  "layered None (Some v) d = v"
  "layered None None d = d"
  by (simp_all add: layered_def)

text \<open>A present node has the expected type.\<close>

definition well_typed :: "('n \<Rightarrow> 'a option) \<Rightarrow> 'n option \<Rightarrow> bool" where
  "well_typed val node \<longleftrightarrow> (\<forall>n. node = Some n \<longrightarrow> val n \<noteq> None)"

lemma tomlValue_Inr_iff [config_simps]:
  "tomlValueOrExpected val node key d = Inr v \<longleftrightarrow> well_typed val node \<and> v = layered None (Option.bind node val) d"
  by (cases node) (auto simp: tomlValueOrExpected_def well_typed_def split: option.splits)

lemma stringField_Inr_iff [config_simps]:
  "stringField T P node key env d = Inr v \<longleftrightarrow>
     well_typed (value_string T) node \<and> v = layered (getenv P env) (Option.bind node (value_string T)) d"
  unfolding stringField_def transform_Inr_iff tomlValue_Inr_iff
  by (cases node) (auto simp: getEnvOr_def layered_def split: option.splits)

lemma requiredStringField_Inr_iff [config_simps]:
  "requiredStringField T P node key env d = Inr v \<longleftrightarrow>
     well_typed (value_string T) node \<and> v = layered (getenv P env) (Option.bind node (value_string T)) d \<and> v \<noteq> []"
  by (auto simp: requiredStringField_def and_then_Inr_iff stringField_Inr_iff)

lemma tomlDuration_Inr_iff [config_simps]:
  "tomlDurationOrExpected T node key d durationRange = Inr v \<longleftrightarrow>
     well_typed (value_int64 T) node \<and> v = layered None (Option.bind node (value_int64 T)) d \<and>
     (case durationRange of Positive \<Rightarrow> 0 < v | NonNegative \<Rightarrow> 0 \<le> v)"
  by (cases node; cases durationRange)
    (auto simp: tomlDurationOrExpected_def well_typed_def Let_def split: option.splits if_splits)

lemma getEnvInt_Inr_iff [config_simps]:
  "getEnvIntOrExpected P name d = Inr i \<longleftrightarrow>
     (case getenv P name of None \<Rightarrow> i = d | Some v \<Rightarrow> from_chars v = Some (i, []))"
  by (auto simp: getEnvIntOrExpected_def split: option.splits prod.splits list.splits)

lemma parseSelectionPolicy_Inr_iff [config_simps]:
  "parseSelectionPolicy v key = Inr policy \<longleftrightarrow>
     v = (case policy of LowestName \<Rightarrow> ''lowest-name'' | SmallestSufficient \<Rightarrow> ''smallest-sufficient'')"
  by (cases policy) (auto simp: parseSelectionPolicy_def)

text \<open>Every reader's error is a configuration error that names its key.\<close>

definition names_key :: "string \<Rightarrow> Error \<Rightarrow> bool" where
  "names_key key e \<longleftrightarrow> (\<exists>what. e = config_key_error key what)"

lemma reader_errors:
  "tomlValueOrExpected val node key d = Inl e \<Longrightarrow> names_key key e"
  "stringField T P node key env str = Inl e \<Longrightarrow> names_key key e"
  "requiredStringField T P node key env str = Inl e \<Longrightarrow> names_key key e"
  "tomlDurationOrExpected T node key i durationRange = Inl e \<Longrightarrow> names_key key e"
  "parseSelectionPolicy v key = Inl e \<Longrightarrow> names_key key e"
proof -
  show val: "tomlValueOrExpected val node key d = Inl e \<Longrightarrow> names_key key e" for val :: "'x \<Rightarrow> 'y option" and node d
    by (auto simp: tomlValueOrExpected_def names_key_def split: option.splits)
  show str: "stringField T P node key env str = Inl e \<Longrightarrow> names_key key e"
    by (auto simp: stringField_def transform_def split: sum.splits dest: val)
  show "requiredStringField T P node key env str = Inl e \<Longrightarrow> names_key key e"
    by (auto simp: requiredStringField_def and_then_Inl_iff names_key_def split: if_splits dest: str [unfolded names_key_def])
  show "tomlDurationOrExpected T node key i durationRange = Inl e \<Longrightarrow> names_key key e"
    by (auto simp: tomlDurationOrExpected_def names_key_def Let_def split: option.splits if_splits)
  show "parseSelectionPolicy v key = Inl e \<Longrightarrow> names_key key e"
    by (auto simp: parseSelectionPolicy_def names_key_def split: if_splits)
qed

definition malformed_port_error :: Error where
  "malformed_port_error =
     mk_error ConfigError (''Environment variable '' @ quoted ''QRMCI_AMQP_PORT'' @ '' is not a valid integer'')"

lemma getEnvInt_error:
  "getEnvIntOrExpected P ''QRMCI_AMQP_PORT'' d = Inl e \<Longrightarrow> e = malformed_port_error"
  by (auto simp: getEnvIntOrExpected_def malformed_port_error_def split: option.splits list.splits)


section \<open>The groups\<close>

definition node_at :: "'n toml \<Rightarrow> 'n \<Rightarrow> string list \<Rightarrow> 'n option" where
  "node_at T root path = foldl (subscript T) (Some root) path"

definition file_value :: "'n toml \<Rightarrow> ('n \<Rightarrow> 'a option) \<Rightarrow> 'n \<Rightarrow> string list \<Rightarrow> 'a option" where
  "file_value T val root path = Option.bind (node_at T root path) val"

text \<open>What every accepted configuration satisfies.\<close>

definition valid_connection :: "RabbitMqConnectionConfig \<Rightarrow> bool" where
  "valid_connection c \<longleftrightarrow> con_host c \<noteq> [] \<and> 1 \<le> con_port c \<and> con_port c \<le> 65535"

definition valid_submitter :: "SubmitterConfig \<Rightarrow> bool" where
  "valid_submitter c \<longleftrightarrow>
     sub_qdmiDriver c \<noteq> [] \<and> sub_qdmiDeviceName c \<noteq> [] \<and> sub_qdmiDeviceId c \<noteq> [] \<and>
     0 \<le> sub_jobWaitTimeout c \<and> 0 < reg_entryTimeToLive (sub_backendRegistry c) \<and>
     0 < sub_backendStatusPublishInterval c \<and>
     sub_backendStatusPublishInterval c < wrap64 (reg_entryTimeToLive (sub_backendRegistry c) * 1000)"

definition valid_config :: "Config \<Rightarrow> bool" where
  "valid_config c \<longleftrightarrow>
     valid_connection (com_connection (cfg_common c)) \<and> com_qrmciQueue (cfg_common c) \<noteq> [] \<and>
     0 < com_stagePollInterval (cfg_common c) \<and>
     sel_backendStatusQueue (cfg_selector c) \<noteq> [] \<and> 0 < reg_entryTimeToLive (sel_backendRegistry (cfg_selector c)) \<and>
     cmp_queue (cfg_compiler c) \<noteq> [] \<and> 0 \<le> cmp_taskReceiveTimeout (cfg_compiler c) \<and>
     valid_submitter (cfg_submitter c)"

lemma assembleConnection_Inr:
  assumes "assembleConnection T P v = Inr c"
  shows "valid_connection c \<and>
    con_host c = layered (getenv P ''QRMCI_AMQP_HOST'') (Option.bind (subscript T v ''host'') (value_string T)) AMQPHost \<and>
    (case getenv P ''QRMCI_AMQP_PORT'' of
       None \<Rightarrow> con_port c = layered None (Option.bind (subscript T v ''port'') (value_int T)) AMQPPort
     | Some text \<Rightarrow> from_chars text = Some (con_port c, [])) \<and>
    con_user c = layered (getenv P ''QRMCI_AMQP_USER'') (Option.bind (subscript T v ''user'') (value_string T)) AMQPUser \<and>
    con_password c =
      layered (getenv P ''QRMCI_AMQP_PASSWORD'') (Option.bind (subscript T v ''password'') (value_string T)) AMQPPassword \<and>
    con_vhost c = layered (getenv P ''QRMCI_AMQP_VHOST'') (Option.bind (subscript T v ''vhost'') (value_string T)) AMQPVHost"
  using assms unfolding assembleConnection_def valid_connection_def
  by (auto simp: and_then_Inr_iff config_simps split: if_splits option.splits)

lemma assembleCommon_Inr:
  assumes "assembleCommon T P v = Inr c"
  shows "assembleConnection T P (subscript T v ''connection'') = Inr (com_connection c) \<and>
    com_qrmciQueue c \<noteq> [] \<and> 0 < com_stagePollInterval c \<and>
    com_logDir c = layered (getenv P ''QRMCI_LOG_DIR'') (Option.bind (subscript T v ''logDir'') (value_string T)) LogDir \<and>
    com_qrmciQueue c =
      layered (getenv P ''QRMCI_QRMCI_QUEUE'') (Option.bind (subscript T v ''qrmciQueue'') (value_string T)) QRMCIQueue \<and>
    com_resultsQueue c =
      layered (getenv P ''QRMCI_RESULTS_QUEUE'') (Option.bind (subscript T v ''resultsQueue'') (value_string T)) ResultsQueue \<and>
    com_schedulerQueue c =
      layered (getenv P ''QRMCI_SCHEDULER_QUEUE'') (Option.bind (subscript T v ''schedulerQueue'') (value_string T)) SchedulerQueue \<and>
    com_stagePollInterval c =
      layered None (Option.bind (subscript T v ''stagePollInterval'') (value_int64 T)) DefaultStagePollInterval"
  using assms unfolding assembleCommon_def
  by (auto simp: and_then_Inr_iff config_simps)

lemma assembleSelector_Inr:
  assumes "assembleSelector T P v logDir = Inr c"
  shows "sel_backendStatusQueue c \<noteq> [] \<and> 0 < reg_entryTimeToLive (sel_backendRegistry c) \<and>
    sel_backendStatusQueue c = layered (getenv P ''QRMCI_BACKEND_STATUS_QUEUE'')
      (Option.bind (subscript T v ''backendStatusQueue'') (value_string T)) BackendStatusQueue \<and>
    reg_entryTimeToLive (sel_backendRegistry c) = layered None
      (Option.bind (subscript T (subscript T v ''backendRegistry'') ''entryTimeToLive'') (value_int64 T)) DefaultEntryTimeToLive \<and>
    layered None (Option.bind (subscript T v ''selectionPolicy'') (value_string T)) ''lowest-name'' =
      (case sel_selectionPolicy c of LowestName \<Rightarrow> ''lowest-name'' | SmallestSufficient \<Rightarrow> ''smallest-sufficient'')"
  using assms unfolding assembleSelector_def
  by (auto simp: and_then_Inr_iff config_simps)

lemma assembleCompiler_Inr:
  assumes "assembleCompiler T P v logDir = Inr c"
  shows "cmp_queue c \<noteq> [] \<and> 0 \<le> cmp_taskReceiveTimeout c \<and>
    cmp_queue c = layered (getenv P ''QRMCI_COMPILER_QUEUE'') (Option.bind (subscript T v ''queue'') (value_string T)) CompilerQueue \<and>
    cmp_taskReceiveTimeout c =
      layered None (Option.bind (subscript T v ''taskReceiveTimeout'') (value_int64 T)) DefaultTaskReceiveTimeout"
  using assms unfolding assembleCompiler_def
  by (auto simp: and_then_Inr_iff config_simps)

lemma assembleSubmitter_Inr:
  assumes "assembleSubmitter T P v logDir = Inr c"
  shows "valid_submitter c \<and>
    sub_queue c = layered (getenv P ''QRMCI_SUBMITTER_QUEUE'') (Option.bind (subscript T v ''queue'') (value_string T)) SubmitterQueue \<and>
    sub_qdmiDriver c = layered (getenv P ''QRMCI_SUBMITTER_QDMI_DRIVER'')
      (Option.bind (subscript T v ''qdmiDriver'') (value_string T)) SubmitterqdmiDriver \<and>
    sub_qdmiDeviceName c = layered (getenv P ''QRMCI_SUBMITTER_QDMI_DEVICE_NAME'')
      (Option.bind (subscript T v ''qdmiDeviceName'') (value_string T)) SubmitterQdmiDeviceName \<and>
    sub_qdmiDeviceId c = layered (getenv P ''QRMCI_SUBMITTER_QDMI_DEVICE_ID'')
      (Option.bind (subscript T v ''qdmiDeviceId'') (value_string T)) SubmitterQdmiDeviceId \<and>
    sub_qdmiClientToken c = layered (getenv P ''QRMCI_SUBMITTER_QDMI_CLIENT_TOKEN'')
      (Option.bind (subscript T v ''qdmiClientToken'') (value_string T)) SubmitterQdmiClientToken \<and>
    sub_jobWaitTimeout c = layered None (Option.bind (subscript T v ''jobWaitTimeout'') (value_int64 T)) DefaultJobWaitTimeout \<and>
    reg_entryTimeToLive (sub_backendRegistry c) = layered None
      (Option.bind (subscript T (subscript T v ''backendRegistry'') ''entryTimeToLive'') (value_int64 T)) DefaultEntryTimeToLive \<and>
    sub_backendStatusPublishInterval c = layered None
      (Option.bind (subscript T v ''backendStatusPublishInterval'') (value_int64 T)) DefaultBackendStatusPublishInterval"
  using assms unfolding assembleSubmitter_def valid_submitter_def
  by (auto simp: and_then_Inr_iff config_simps not_le split: if_splits)

lemma assembleConfig_Inr:
  assumes "assembleConfig T P root = Inr c"
  shows "checkSchema T root = Inr ()"
    and "assembleCommon T P (subscript T (Some root) ''common'') = Inr (cfg_common c)"
    and "assembleSelector T P (subscript T (Some root) ''selector'') (com_logDir (cfg_common c)) = Inr (cfg_selector c)"
    and "assembleCompiler T P (subscript T (Some root) ''compiler'') (com_logDir (cfg_common c)) = Inr (cfg_compiler c)"
    and "assembleSubmitter T P (subscript T (Some root) ''submitter'') (com_logDir (cfg_common c)) = Inr (cfg_submitter c)"
  using assms unfolding assembleConfig_def by (auto simp: and_then_Inr_iff)

lemma assembleConfig_valid: "assembleConfig T P root = Inr c \<Longrightarrow> valid_config c"
  unfolding valid_config_def
  using assembleConfig_Inr [of T P root c] assembleCommon_Inr [of T P _ "cfg_common c"]
    assembleConnection_Inr [of T P _ "com_connection (cfg_common c)"] assembleSelector_Inr [of T P _ _ "cfg_selector c"]
    assembleCompiler_Inr [of T P _ _ "cfg_compiler c"] assembleSubmitter_Inr [of T P _ _ "cfg_submitter c"]
  by blast

lemma loadConfigFrom_Inr:
  assumes "loadConfigFrom T P f = Inr c"
  obtains root where "parseConfigFile T P f = Inr root" "assembleConfig T P root = Inr c"
  using assms by (auto simp: loadConfigFrom_def and_then_Inr_iff)


section \<open>The schema\<close>

text \<open>The tables a document may have and the keys of each; the root has the empty path.\<close>

definition schema :: "(string list \<times> string list) list" where
  "schema =
     [([], [''common'', ''selector'', ''compiler'', ''submitter'']),
      ([''common''], [''connection'', ''logDir'', ''daemonLogger'', ''qrmciQueue'', ''resultsQueue'',
         ''schedulerQueue'', ''schedulerLogger'', ''stagePollInterval'']),
      ([''common'', ''connection''], [''host'', ''port'', ''user'', ''password'', ''vhost'']),
      ([''selector''], [''backendStatusQueue'', ''logger'', ''backendRegistry'', ''selectionPolicy'']),
      ([''selector'', ''backendRegistry''], [''entryTimeToLive'']),
      ([''compiler''], [''queue'', ''logger'', ''taskReceiveTimeout'']),
      ([''submitter''], [''queue'', ''logger'', ''qdmiDriver'', ''qdmiDeviceName'', ''qdmiDeviceId'',
         ''qdmiClientToken'', ''jobWaitTimeout'', ''backendRegistry'', ''backendStatusPublishInterval'']),
      ([''submitter'', ''backendRegistry''], [''entryTimeToLive''])]"

text \<open>A node that is absent, or a table with known keys only.\<close>

definition known_table :: "'n toml \<Rightarrow> 'n option \<Rightarrow> string list \<Rightarrow> bool" where
  "known_table T node keys \<longleftrightarrow>
     (\<forall>n. node = Some n \<longrightarrow> (\<exists>table. as_table T n = Some table \<and> fst ` set table \<subseteq> set keys))"

definition schema_conforms :: "'n toml \<Rightarrow> 'n \<Rightarrow> bool" where
  "schema_conforms T root \<longleftrightarrow> (\<forall>(path, keys) \<in> set schema. known_table T (node_at T root path) keys)"

lemma checkKeys_Inr_iff: "checkKeys prefix keys table = Inr () \<longleftrightarrow> fst ` set table \<subseteq> set keys"
  by (induction prefix keys table rule: checkKeys.induct) auto

lemma checkTableKeys_Inr_iff [config_simps]: "checkTableKeys T node prefix keys = Inr () \<longleftrightarrow> known_table T node keys"
  by (cases node) (auto simp: checkTableKeys_def known_table_def checkKeys_Inr_iff split: option.splits)

lemma checkSchema_Inr_iff: "checkSchema T root = Inr () \<longleftrightarrow> schema_conforms T root"
  by (simp add: checkSchema_def schema_conforms_def schema_def node_at_def and_then_Inr_iff config_simps Let_def)

definition dotted :: "string list \<Rightarrow> string" where
  "dotted path = concat (map (\<lambda>k. k @ ''.'') path)"

lemma checkKeys_error:
  "checkKeys prefix keys table = Inl e \<Longrightarrow>
   \<exists>key. key \<in> fst ` set table \<and> key \<notin> set keys \<and>
     e = mk_error ConfigError (''Unknown configuration key '' @ quoted (prefix @ key))"
  by (induction prefix keys table rule: checkKeys.induct) (auto split: if_splits)

text \<open>The error a document with an unknown or misplaced key gets.\<close>

definition schema_error :: "'n toml \<Rightarrow> 'n \<Rightarrow> Error \<Rightarrow> bool" where
  "schema_error T root e \<longleftrightarrow>
     (\<exists>(path, keys) \<in> set schema. \<exists>n. node_at T root path = Some n \<and>
        (as_table T n = None \<and> e = config_key_error (butlast (dotted path)) '' must be a table'' \<or>
         (\<exists>table key. as_table T n = Some table \<and> key \<in> fst ` set table \<and> key \<notin> set keys \<and>
            e = mk_error ConfigError (''Unknown configuration key '' @ quoted (dotted path @ key)))))"

lemma checkTableKeys_error:
  assumes "checkTableKeys T node (dotted path) keys = Inl e" and "(path, keys) \<in> set schema" and "node = node_at T root path"
  shows "schema_error T root e"
proof -
  from assms(1) obtain n where n: "node = Some n" and
    "as_table T n = None \<and> e = config_key_error (butlast (dotted path)) '' must be a table'' \<or>
     (\<exists>table. as_table T n = Some table \<and> checkKeys (dotted path) keys table = Inl e)"
    by (auto simp: checkTableKeys_def split: option.splits)
  then have "as_table T n = None \<and> e = config_key_error (butlast (dotted path)) '' must be a table'' \<or>
         (\<exists>table key. as_table T n = Some table \<and> key \<in> fst ` set table \<and> key \<notin> set keys \<and>
            e = mk_error ConfigError (''Unknown configuration key '' @ quoted (dotted path @ key)))"
    using checkKeys_error by metis
  with assms(2,3) n show ?thesis unfolding schema_error_def by fastforce
qed

lemma checkSchema_error: "checkSchema T root = Inl e \<Longrightarrow> schema_error T root e"
  unfolding checkSchema_def Let_def and_then_Inl_iff
  using checkTableKeys_error [of T _ "[]" _ e root] checkTableKeys_error [of T _ "[''common'']" _ e root]
    checkTableKeys_error [of T _ "[''common'', ''connection'']" _ e root] checkTableKeys_error [of T _ "[''selector'']" _ e root]
    checkTableKeys_error [of T _ "[''selector'', ''backendRegistry'']" _ e root] checkTableKeys_error [of T _ "[''compiler'']" _ e root]
    checkTableKeys_error [of T _ "[''submitter'']" _ e root] checkTableKeys_error [of T _ "[''submitter'', ''backendRegistry'']" _ e root]
  by (auto simp: dotted_def node_at_def schema_def)

section \<open>Errors of the groups\<close>

definition field_keys :: "string list" where
  "field_keys =
     [''common.logDir'', ''common.connection.host'', ''common.connection.port'', ''common.connection.user'',
      ''common.connection.password'', ''common.connection.vhost'', ''common.daemonLogger'', ''common.qrmciQueue'',
      ''common.resultsQueue'', ''common.schedulerQueue'', ''common.schedulerLogger'', ''common.stagePollInterval'',
      ''selector.backendStatusQueue'', ''selector.logger'', ''selector.backendRegistry.entryTimeToLive'',
      ''selector.selectionPolicy'', ''compiler.queue'', ''compiler.logger'', ''compiler.taskReceiveTimeout'',
      ''submitter.queue'', ''submitter.logger'', ''submitter.qdmiDriver'', ''submitter.qdmiDeviceName'',
      ''submitter.qdmiDeviceId'', ''submitter.qdmiClientToken'', ''submitter.jobWaitTimeout'',
      ''submitter.backendRegistry.entryTimeToLive'', ''submitter.backendStatusPublishInterval'']"

definition field_error :: "Error \<Rightarrow> bool" where
  "field_error e \<longleftrightarrow> e = malformed_port_error \<or> (\<exists>key \<in> set field_keys. names_key key e)"

lemma field_error_key: "names_key key e \<Longrightarrow> key \<in> set field_keys \<Longrightarrow> field_error e"
  by (auto simp: field_error_def)

lemma names_config_key_error [simp]: "names_key key (config_key_error key what)"
  by (auto simp: names_key_def)

text \<open>How the error of a group is traced to the reader that raised it.\<close>

lemmas field_errors = reader_errors [THEN field_error_key] field_error_key [OF names_config_key_error]

lemma field_error_port: "getEnvIntOrExpected P ''QRMCI_AMQP_PORT'' d = Inl e \<Longrightarrow> field_error e"
  by (simp add: getEnvInt_error field_error_def)

lemma assembleConnection_Inl: "assembleConnection T P v = Inl e \<Longrightarrow> field_error e"
  unfolding assembleConnection_def
  by (auto simp: and_then_Inl_iff field_keys_def intro: field_errors field_error_port split: if_splits)

lemma assembleCommon_Inl: "assembleCommon T P v = Inl e \<Longrightarrow> field_error e"
  unfolding assembleCommon_def
  by (auto simp: and_then_Inl_iff field_keys_def intro: field_errors assembleConnection_Inl)

lemma assembleSelector_Inl: "assembleSelector T P v logDir = Inl e \<Longrightarrow> field_error e"
  unfolding assembleSelector_def
  by (auto simp: and_then_Inl_iff field_keys_def intro: field_errors)

lemma assembleCompiler_Inl: "assembleCompiler T P v logDir = Inl e \<Longrightarrow> field_error e"
  unfolding assembleCompiler_def
  by (auto simp: and_then_Inl_iff field_keys_def intro: field_errors)

lemma assembleSubmitter_Inl: "assembleSubmitter T P v logDir = Inl e \<Longrightarrow> field_error e"
  unfolding assembleSubmitter_def
  by (auto simp: and_then_Inl_iff field_keys_def intro: field_errors split: if_splits)

lemma assembleConfig_Inl:
  "assembleConfig T P root = Inl e \<Longrightarrow>
   schema_error T root e \<and> \<not> schema_conforms T root \<or> field_error e \<and> schema_conforms T root"
  unfolding assembleConfig_def and_then_Inl_iff
  by (auto simp: checkSchema_Inr_iff [symmetric] dest: checkSchema_error assembleCommon_Inl assembleSelector_Inl
      assembleCompiler_Inl assembleSubmitter_Inl)

lemma schema_error_kind: "schema_error T root e \<Longrightarrow> kind e = ConfigError"
  by (auto simp: schema_error_def config_key_error_def)

lemma field_error_kind: "field_error e \<Longrightarrow> kind e = ConfigError"
  by (auto simp: field_error_def names_key_def config_key_error_def malformed_port_error_def)

section \<open>A concrete document type\<close>

text \<open>One instance of the parameters, for witnesses: documents as trees, one file, a list of
  environment variables.\<close>

datatype sample_node = TText string | TInt int | TTable "(string \<times> sample_node) list"

definition sample_toml :: "sample_node toml" where
  "sample_toml =
     \<lparr>as_table = (\<lambda>n. case n of TTable t \<Rightarrow> Some t | _ \<Rightarrow> None),
      value_string = (\<lambda>n. case n of TText t \<Rightarrow> Some t | _ \<Rightarrow> None),
      value_int = (\<lambda>n. case n of TInt i \<Rightarrow> if fits32 i then Some i else None | _ \<Rightarrow> None),
      value_int64 = (\<lambda>n. case n of TInt i \<Rightarrow> if fits64 i then Some i else None | _ \<Rightarrow> None),
      empty_table = TTable []\<rparr>"

definition sample_platform :: "(string \<times> string) list \<Rightarrow> sample_node option \<Rightarrow> sample_node platform" where
  "sample_platform env doc =
     \<lparr>getenv = map_of env, file_exists = (\<lambda>f. doc \<noteq> None \<and> f = DefaultConfigFilePath),
      parse_file = (\<lambda>_. case doc of None \<Rightarrow> Inl ''no file'' | Some n \<Rightarrow> Inr n)\<rparr>"

lemma sample_toml_ok: "toml_ok sample_toml"
  by (auto simp: toml_ok_def sample_toml_def split: sample_node.splits if_splits)

lemmas sample_load_simps = Config_blocks
  loadConfig_def loadConfigFrom_def parseConfigFile_def assembleConfig_def checkSchema_def checkTableKeys_def
  assembleCommon_def assembleConnection_def assembleSelector_def assembleCompiler_def assembleSubmitter_def
  subscript_def stringField_def requiredStringField_def tomlValueOrExpected_def tomlDurationOrExpected_def
  getEnvOr_def getEnvIntOrExpected_def parseSelectionPolicy_def sample_toml_def sample_platform_def Let_def
  fits32_def fits64_def default_numbers DefaultConfigFilePath_def

section \<open>Properties\<close>

text \<open>C21: Every configuration the loader accepts is usable, whichever of the defaults, the file and the
  environment supplied a value: the port is a TCP port, the host, the queues tasks and statuses travel
  on and the QDMI target are not empty, the intervals are positive, the timeouts are not negative, and
  (for any time-to-live whose milliseconds fit 64 bits) the submitter's registry entries outlive the
  interval between two publications.\<close>

theorem loadConfig_valid:
  assumes "loadConfig T P = Inr c"
  shows "valid_config c \<and>
    (fits64 (reg_entryTimeToLive (sub_backendRegistry (cfg_submitter c)) * 1000) \<longrightarrow>
     sub_backendStatusPublishInterval (cfg_submitter c) <
       reg_entryTimeToLive (sub_backendRegistry (cfg_submitter c)) * 1000)"
proof -
  obtain root where "assembleConfig T P root = Inr c"
    using assms unfolding loadConfig_def by (rule loadConfigFrom_Inr)
  then have "valid_config c" by (rule assembleConfig_valid)
  then show ?thesis by (auto simp: valid_config_def valid_submitter_def wrap64_id)
qed

text \<open>A deployment: a file with a policy, a port and queues, and an environment that overrides the
  port and the host.\<close>

definition sample_document :: sample_node where
  "sample_document = TTable
     [(''common'', TTable [(''connection'', TTable [(''port'', TInt 5673)]), (''qrmciQueue'', TText ''tasks'')]),
      (''selector'', TTable [(''selectionPolicy'', TText ''smallest-sufficient'')]),
      (''submitter'', TTable [(''jobWaitTimeout'', TInt 60)])]"

definition sample_environment :: "(string \<times> string) list" where
  "sample_environment = [(''QRMCI_AMQP_HOST'', ''broker''), (''QRMCI_AMQP_PORT'', ''5674'')]"

lemma sample_port: "from_chars ''5674'' = Some (5674, [])"
  by (simp add: from_chars_def is_digit_def digits_val_def digit_val_def fits32_def)

lemma sample_load:
  "\<exists>c. loadConfig sample_toml (sample_platform sample_environment (Some sample_document)) = Inr c"
  by (simp add: sample_load_simps sample_document_def sample_environment_def sample_port default_texts wrap64_def
      signed_take_bit_int_eq_self)

theorem loadConfig_valid_witness:
  "\<exists>c. loadConfig sample_toml (sample_platform sample_environment (Some sample_document)) = Inr c \<and> valid_config c"
proof -
  obtain c where "loadConfig sample_toml (sample_platform sample_environment (Some sample_document)) = Inr c"
    using sample_load by blast
  with loadConfig_valid [OF this] show ?thesis by blast
qed





text \<open>A malformed port in the environment fails the load, whatever the file says about the port,
  and is reported by the variable's name; the error does not mention the dotted key
  \<open>common.connection.port\<close>, which every other error about the port does.\<close>

theorem malformed_port_names_variable:
  assumes "parseConfigFile T P f = Inr root" and "schema_conforms T root"
    and "well_typed (value_string T) (node_at T root [''common'', ''logDir''])"
    and "well_typed (value_string T) (node_at T root [''common'', ''connection'', ''host''])"
    and "well_typed (value_int T) (node_at T root [''common'', ''connection'', ''port''])"
    and "getenv P ''QRMCI_AMQP_HOST'' = Some host" and "host \<noteq> []"
    and "getenv P ''QRMCI_AMQP_PORT'' = Some v" and "\<forall>i. from_chars v \<noteq> Some (i, [])"
  shows "loadConfigFrom T P f = Inl malformed_port_error \<and>
    \<not> names_key ''common.connection.port'' malformed_port_error"
proof -
  let ?con = "subscript T (subscript T (Some root) ''common'') ''connection''"
  from assms(8,9) have env: "getEnvIntOrExpected P ''QRMCI_AMQP_PORT'' i = Inl malformed_port_error" for i
    by (auto simp: getEnvIntOrExpected_def malformed_port_error_def split: option.splits list.splits)
  obtain p where "tomlValueOrExpected (value_int T) (subscript T ?con ''port'') ''common.connection.port'' AMQPPort = Inr p"
    using assms(5) by (auto simp: config_simps node_at_def)
  moreover have "requiredStringField T P (subscript T ?con ''host'') ''common.connection.host'' ''QRMCI_AMQP_HOST'' AMQPHost = Inr host"
    using assms(4,6,7) by (simp add: config_simps node_at_def)
  ultimately have "assembleConnection T P ?con = Inl malformed_port_error" by (simp add: assembleConnection_def env)
  moreover obtain d where
    "stringField T P (subscript T (subscript T (Some root) ''common'') ''logDir'') ''common.logDir'' ''QRMCI_LOG_DIR'' LogDir = Inr d"
    using assms(3) by (auto simp: config_simps node_at_def)
  ultimately have "assembleCommon T P (subscript T (Some root) ''common'') = Inl malformed_port_error"
    by (simp add: assembleCommon_def)
  moreover have "\<not> names_key ''common.connection.port'' malformed_port_error"
    by (simp add: names_key_def malformed_port_error_def config_key_error_def)
  ultimately show ?thesis
    using assms(1,2) by (simp add: loadConfigFrom_def assembleConfig_def checkSchema_Inr_iff [symmetric])
qed

theorem malformed_port_names_variable_witness:
  "loadConfigFrom sample_toml (sample_platform [(''QRMCI_AMQP_HOST'', ''broker''), (''QRMCI_AMQP_PORT'', ''amqp'')] None) ''f'' =
   Inl malformed_port_error"
proof -
  let ?P = "sample_platform [(''QRMCI_AMQP_HOST'', ''broker''), (''QRMCI_AMQP_PORT'', ''amqp'')] None"
  have nodes: "node_at sample_toml (TTable []) (k # ks) = None" for k ks
  proof -
    have "foldl (subscript sample_toml) None ks = None" for ks by (induction ks) (simp_all add: subscript_def)
    then show ?thesis by (simp add: node_at_def subscript_def sample_toml_def)
  qed
  have "schema_conforms sample_toml (TTable [])"
    by (simp add: schema_conforms_def schema_def known_table_def nodes) (simp add: node_at_def sample_toml_def)
  moreover have "parseConfigFile sample_toml ?P ''f'' = Inr (TTable [])"
    by (simp add: parseConfigFile_def sample_platform_def sample_toml_def)
  moreover have "\<forall>i. from_chars ''amqp'' \<noteq> Some (i, [])"
    by (simp add: from_chars_def is_digit_def)
  ultimately show ?thesis
    using malformed_port_names_variable [of sample_toml ?P "''f''" "TTable []" "''broker''" "''amqp''"]
    by (simp add: nodes well_typed_def) (simp add: sample_platform_def)
qed

text \<open>With no configuration file and none of the variables set, the loader gives the documented
  defaults: the local broker, the stock queues, lowest-name selection, the example driver, and log
  files in the default directory.\<close>

theorem loadConfig_defaults:
  assumes "toml_ok T" and "\<And>name. getenv P name = None" and "\<not> file_exists P ''config/qrmci.toml''"
  shows "loadConfig T P = Inr
    \<lparr>cfg_common = \<lparr>com_connection = \<lparr>con_host = ''127.0.0.1'', con_port = 5672, con_user = ''guest'',
         con_password = ''guest'', con_vhost = ''/''\<rparr>, com_logDir = ''/var/log/qrmci'', com_daemonLogger = ''mqss::Daemon'',
       com_daemonLog = ''/var/log/qrmci/daemon.log'', com_qrmciQueue = ''qrmci.tasks.queue'',
       com_resultsQueue = ''test.results.queue'', com_schedulerQueue = ''scheduler.tasks.queue'',
       com_schedulerLogger = ''mqss::Scheduler'', com_schedulerLog = ''/var/log/qrmci/scheduler.log'',
       com_stagePollInterval = 100\<rparr>,
     cfg_selector = \<lparr>sel_backendStatusQueue = ''backend.status.queue'', sel_logger = ''mqss::Selector'',
       sel_logFile = ''/var/log/qrmci/selector.log'', sel_backendRegistry = \<lparr>reg_entryTimeToLive = 30\<rparr>,
       sel_selectionPolicy = LowestName\<rparr>,
     cfg_compiler = \<lparr>cmp_queue = ''compiler.tasks.queue'', cmp_logger = ''mqss::Compiler'',
       cmp_logFile = ''/var/log/qrmci/compiler.log'', cmp_taskReceiveTimeout = 500\<rparr>,
     cfg_submitter = \<lparr>sub_queue = ''submitter.tasks.queue'', sub_logger = ''mqss::Submitter'',
       sub_logFile = ''/var/log/qrmci/submitter.log'',
       sub_qdmiDriver = ''/usr/local/lib/qrmci/libqdmi_example_driver.so'',
       sub_qdmiDeviceName = ''C++ Device with 5 qubits'', sub_qdmiDeviceId = ''cxxdevice5q'',
       sub_qdmiClientToken = ''token'', sub_jobWaitTimeout = 0, sub_backendRegistry = \<lparr>reg_entryTimeToLive = 30\<rparr>,
       sub_backendStatusPublishInterval = 5000\<rparr>\<rparr>"
proof -
  have sub: "subscript T (Some (empty_table T)) key = None" "subscript T None key = None" for key
    using assms(1) by (simp_all add: subscript_def toml_ok_def)
  have "parseConfigFile T P ''config/qrmci.toml'' = Inr (empty_table T)" using assms(3) by (simp add: parseConfigFile_def)
  moreover have "checkSchema T (empty_table T) = Inr ()"
    using assms(1) by (simp add: checkSchema_def sub checkTableKeys_def toml_ok_def)
  ultimately show ?thesis
    using assms(2)
    by (simp add: loadConfig_def loadConfigFrom_def getEnvOr_def DefaultConfigFilePath_def assembleConfig_def sub
        Config_blocks assembleCommon_def assembleConnection_def assembleSelector_def assembleCompiler_def assembleSubmitter_def
        stringField_def requiredStringField_def tomlValueOrExpected_def tomlDurationOrExpected_def
        getEnvIntOrExpected_def parseSelectionPolicy_def default_texts default_numbers logPath_def wrap64_def
        signed_take_bit_int_eq_self)
qed

theorem loadConfig_defaults_witness:
  "\<exists>c. loadConfig sample_toml (sample_platform [] None) = Inr c \<and> sel_selectionPolicy (cfg_selector c) = LowestName"
  using loadConfig_defaults [OF sample_toml_ok, of "sample_platform [] None"]
  by (simp add: sample_platform_def)

end
