(* ===== verification/Publication_Throttle.thy ===== *)
theory Publication_Throttle
  imports Backend_Registry
begin

text \<open>
  \<open>PublicationThrottle\<close> (\<open>include/qrmci/PublicationThrottle.h\<close>): at most one status publication per
  interval, and its interplay with the registry's time-to-live. Times are steady-clock nanoseconds.
\<close>

section \<open>State and operations\<close>

record PublicationThrottle =
  publishInterval :: int
  lastClaimed :: "int option"

definition DefaultInterval :: int where
  "DefaultInterval = 5 * 1000000000"

definition PublicationThrottle_new :: "int \<Rightarrow> PublicationThrottle" where
  "PublicationThrottle_new interval = \<lparr>publishInterval = interval, lastClaimed = None\<rparr>"

definition claim :: "int \<Rightarrow> PublicationThrottle \<Rightarrow> bool \<times> PublicationThrottle" where
  "claim now t =
     (case lastClaimed t of
        Some prev \<Rightarrow> if now - prev < publishInterval t then (False, t)
                      else (True, t\<lparr>lastClaimed := Some now\<rparr>)
      | None \<Rightarrow> (True, t\<lparr>lastClaimed := Some now\<rparr>))"

text \<open>The claims a work loop makes at a sequence of times, and the times it was granted a slot.\<close>

fun claims :: "int list \<Rightarrow> PublicationThrottle \<Rightarrow> int list \<times> PublicationThrottle" where
  "claims [] t = ([], t)"
| "claims (now # nows) t =
     (let (granted, t) = claim now t; (later, t) = claims nows t
      in (if granted then now # later else later, t))"

section \<open>Lemmas\<close>

lemma claim_granted:
  "claim now t = (True, t') \<Longrightarrow>
     t' = t\<lparr>lastClaimed := Some now\<rparr> \<and> (\<forall>prev. lastClaimed t = Some prev \<longrightarrow> publishInterval t \<le> now - prev)"
  by (auto simp: claim_def split: option.splits if_splits)

lemma claim_refused:
  "claim now t = (False, t') \<Longrightarrow> t' = t \<and> (\<exists>prev. lastClaimed t = Some prev \<and> now - prev < publishInterval t)"
  by (auto simp: claim_def split: option.splits if_splits)

lemma claim_interval [simp]: "publishInterval (snd (claim now t)) = publishInterval t"
  by (auto simp: claim_def split: option.splits)

text \<open>Granted slots are spaced by the interval, also from an earlier claim.\<close>

fun spaced :: "int \<Rightarrow> int list \<Rightarrow> bool" where
  "spaced d (a # b # ts) = (d \<le> b - a \<and> spaced d (b # ts))"
| "spaced d _ = True"

lemma spaced_Cons: "spaced d (a # ts) \<longleftrightarrow> (ts = [] \<or> d \<le> hd ts - a) \<and> spaced d ts"
  by (cases ts) auto

lemma claims_spaced:
  "claims nows t = (granted, t') \<Longrightarrow>
     spaced (publishInterval t) granted \<and>
     (\<forall>prev. lastClaimed t = Some prev \<longrightarrow> spaced (publishInterval t) (prev # granted))"
proof (induction nows arbitrary: t granted t')
  case Nil
  then show ?case by simp
next
  case (Cons now nows)
  obtain b t1 where c: "claim now t = (b, t1)" by (cases "claim now t")
  obtain later t2 where l: "claims nows t1 = (later, t2)" by (cases "claims nows t1")
  show ?case
  proof (cases b)
    case True
    with c have granted: "claim now t = (True, t1)" by simp
    have t1: "t1 = t\<lparr>lastClaimed := Some now\<rparr>"
      and gap: "\<forall>prev. lastClaimed t = Some prev \<longrightarrow> publishInterval t \<le> now - prev"
      using claim_granted [OF granted] by simp_all
    from Cons.IH [OF l] t1 have "spaced (publishInterval t) (now # later)" by simp
    with Cons.prems c l True gap show ?thesis by auto
  next
    case False
    with c have "t1 = t" using claim_refused [of now t t1] by simp
    with Cons.IH [OF l] Cons.prems c l False show ?thesis by auto
  qed
qed

lemma spaced_span: "spaced d ts \<Longrightarrow> ts \<noteq> [] \<Longrightarrow> int (length ts - 1) * d \<le> last ts - hd ts"
proof (induction d ts rule: spaced.induct)
  case (1 d a b ts)
  then have "int (length (b # ts) - 1) * d \<le> last (b # ts) - b" and "d \<le> b - a" by auto
  then show ?case by (simp add: algebra_simps)
qed auto

lemma claims_subset: "claims nows t = (granted, t') \<Longrightarrow> set granted \<subseteq> set nows"
  by (induction nows arbitrary: t granted t') (fastforce split: prod.splits if_splits)+

section \<open>Properties\<close>

text \<open>C38: A throttle grants at most one slot per interval: whatever the times at which a work loop
  asks, consecutive granted slots are at least the interval apart, the first request is always
  granted, and requests that all fall inside a window are granted at most one more than the number
  of whole intervals the window holds.\<close>

theorem throttle_rate:
  assumes "claims nows (PublicationThrottle_new interval) = (granted, t')" and "0 < interval"
  shows "spaced interval granted \<and>
         (nows \<noteq> [] \<longrightarrow> granted \<noteq> [] \<and> hd granted = hd nows) \<and>
         (\<forall>start width. set nows \<subseteq> {start..start + width} \<longrightarrow> 0 \<le> width \<longrightarrow>
            int (length granted) \<le> width div interval + 1)"
proof (intro conjI allI impI)
  show sp: "spaced interval granted"
    using claims_spaced [OF assms(1)] by (simp add: PublicationThrottle_new_def)
  show "granted \<noteq> []" and "hd granted = hd nows" if "nows \<noteq> []"
    using assms(1) that
    by (cases nows; auto simp: PublicationThrottle_new_def claim_def split: prod.splits)+
  fix start width :: int
  assume within: "set nows \<subseteq> {start..start + width}" and "0 \<le> width"
  show "int (length granted) \<le> width div interval + 1"
  proof (cases "granted = []")
    case True
    then show ?thesis using assms(2) \<open>0 \<le> width\<close> by (simp add: pos_imp_zdiv_nonneg_iff)
  next
    case False
    then have "int (length granted - 1) * interval \<le> last granted - hd granted"
      using spaced_span [OF sp] by simp
    moreover have "hd granted \<in> {start..start + width}" "last granted \<in> {start..start + width}"
      using False within claims_subset [OF assms(1)] by (meson hd_in_set last_in_set subset_iff)+
    ultimately have "int (length granted - 1) * interval \<le> width" by auto
    then have "int (length granted - 1) \<le> width div interval"
      using assms(2) zdiv_mono1 [of "int (length granted - 1) * interval" width interval] by simp
    then show ?thesis using False by (simp add: of_nat_diff Suc_le_eq)
  qed
qed

theorem throttle_rate_witness:
  "fst (claims [0, 1, 4, 5, 9, 11] (PublicationThrottle_new 5)) = [0, 5, 11] \<and>
   spaced 5 (fst (claims [0, 1, 4, 5, 9, 11] (PublicationThrottle_new 5)))"
proof -
  have "claims [0, 1, 4, 5, 9, 11] (PublicationThrottle_new 5) =
          ([0, 5, 11], \<lparr>publishInterval = 5, lastClaimed = Some 11\<rparr>)"
    by (simp add: claim_def PublicationThrottle_new_def)
  then show ?thesis using throttle_rate [of "[0, 1, 4, 5, 9, 11]" 5] by auto
qed

end
