(* ===== verification/Logger.thy ===== *)
theory Logger
  imports External_Env
begin

text \<open>
  \<open>Logger.h\<close>: the logger a daemon installs as its process-wide default. The logging library is not code
  of this repository: a logger is the record of what the code configures it with, and opening the
  rotating file is an external call that may fail (the \<open>spdlog_ex\<close> the code catches). The lines a logger
  writes are not modelled.
\<close>

section \<open>Definitions\<close>

definition MaxLogFileBytes :: "64 word" where
  "MaxLogFileBytes = 50 * 1024 * 1024"

definition MaxLogFiles :: "64 word" where
  "MaxLogFiles = 5"

datatype sink =
    StdoutColorSink
  | RotatingFileSink string "64 word" "64 word"

datatype log_level = level_info | level_other int

record logger =
  log_name :: string
  log_sinks :: "sink list"
  log_pattern :: string
  log_level :: log_level
  log_flush_on :: log_level

definition makeLogger ::
  "'w environment \<Rightarrow> string \<Rightarrow> string \<Rightarrow> ('w, 'z) io_scheme \<Rightarrow> logger \<times> ('w, 'z) io_scheme" where
  "makeLogger E name logFile s =
     (let sinks = [StdoutColorSink];
          (sinks, s) =
            (if logFile \<noteq> [] then
               let (opened, s) = ext_call (env_openLogFile E logFile MaxLogFileBytes MaxLogFiles)
                     (LogFileOpened logFile MaxLogFileBytes MaxLogFiles) s
               in case opened of
                    Inr _ \<Rightarrow> (sinks @ [RotatingFileSink logFile MaxLogFileBytes MaxLogFiles], s)
                  | Inl e \<Rightarrow> (sinks, s)
             else (sinks, s))
      in (\<lparr>log_name = name, log_sinks = sinks,
           log_pattern = ''[%Y-%m-%d %H:%M:%S.%e] [%n] [%^%l%$] %v'',
           log_level = level_info, log_flush_on = level_info\<rparr>, s))"

section \<open>Lemmas\<close>

fun log_event :: "event \<Rightarrow> bool" where
  "log_event (LogFileOpened _ _ _ _) = True"
| "log_event _ = False"

lemma log_not_broker: "log_event e \<Longrightarrow> \<not> broker_event e"
  by (cases e) simp_all

lemma makeLogger_emits: "makeLogger E name logFile s = (l, t) \<Longrightarrow> emits log_event s t"
  by (auto simp: makeLogger_def Let_def split: prod.splits if_splits sum.splits dest: emits_ext_call [where A = log_event])

text \<open>The console sink is always there, and a file that cannot be opened costs only the file sink.\<close>

lemma makeLogger_sinks:
  assumes "makeLogger E name logFile s = (l, t)"
  shows "log_name l = name \<and> log_sinks l =
    StdoutColorSink # (if \<exists>n k. LogFileOpened logFile n k (Inr ()) \<in> set (new_events s t)
      then [RotatingFileSink logFile (50 * 1024 * 1024) 5] else [])"
    and "logFile = '''' \<Longrightarrow> t = s"
    and "logFile \<noteq> '''' \<Longrightarrow> \<exists>r. new_events s t = [LogFileOpened logFile (50 * 1024 * 1024) 5 r]"
proof -
  obtain r u where c: "ext_call (env_openLogFile E logFile MaxLogFileBytes MaxLogFiles)
      (LogFileOpened logFile MaxLogFileBytes MaxLogFiles) s = (r, u)"
    by (cases "ext_call (env_openLogFile E logFile MaxLogFileBytes MaxLogFiles)
      (LogFileOpened logFile MaxLogFileBytes MaxLogFiles) s")
  note u = ext_call_extends [OF c]
  show "logFile = '''' \<Longrightarrow> t = s" using assms by (simp add: makeLogger_def)
  show "logFile \<noteq> '''' \<Longrightarrow> \<exists>r. new_events s t = [LogFileOpened logFile (50 * 1024 * 1024) 5 r]"
    using assms c u by (auto simp: makeLogger_def Let_def MaxLogFileBytes_def MaxLogFiles_def split: sum.splits)
  show "log_name l = name \<and> log_sinks l =
    StdoutColorSink # (if \<exists>n k. LogFileOpened logFile n k (Inr ()) \<in> set (new_events s t)
      then [RotatingFileSink logFile (50 * 1024 * 1024) 5] else [])"
    using assms c u by (auto simp: makeLogger_def Let_def MaxLogFileBytes_def MaxLogFiles_def split: sum.splits if_splits)
qed

end
