(* ===== verification/Termination_Signal.thy ===== *)
theory Termination_Signal
  imports External_Env
begin

text \<open>
  The termination flag of \<open>Daemon.h\<close>. \<open>installTerminationHandlers\<close> routes SIGINT and SIGTERM to a handler
  that stores \<open>true\<close> into \<open>terminationRequested\<close>, which is constant-initialised to \<open>false\<close>. A signal may
  be delivered between any two steps of the program, so in the daemons the flag is read from the
  environment; what these readings are, given the signals that arrive, is what this theory says.
\<close>

section \<open>Definitions\<close>

text \<open>The handler: the value of the flag after it ran for a signal.\<close>

definition terminationHandler :: "signal \<Rightarrow> bool \<Rightarrow> bool" where
  "terminationHandler sig requested =
     (if sig = SIGINT \<or> sig = SIGTERM then True else requested)"

definition installTerminationHandlers :: "'w environment \<Rightarrow> ('w, 'z) io_scheme \<Rightarrow> ('w, 'z) io_scheme" where
  "installTerminationHandlers E s =
     (let (_, s) = ext_call (env_signal E SIGINT) (\<lambda>_. HandlerInstalled SIGINT) s;
          (_, s) = ext_call (env_signal E SIGTERM) (\<lambda>_. HandlerInstalled SIGTERM) s
      in s)"

text \<open>
  The values that successive loads of the flag return: before each load the handler ran for the signals
  delivered since the last one.
\<close>

fun flag_loads :: "bool \<Rightarrow> signal list list \<Rightarrow> bool list" where
  "flag_loads requested [] = []"
| "flag_loads requested (delivered # later) =
     (let requested = fold terminationHandler delivered requested
      in requested # flag_loads requested later)"

section \<open>Lemmas\<close>

lemma ex_le_Suc: "(\<exists>j \<le> Suc k. R j) \<longleftrightarrow> R 0 \<or> (\<exists>j \<le> k. R (Suc j))"
  by (metis Suc_le_mono le0 not0_implies_Suc)

lemma fold_terminationHandler:
  "fold terminationHandler delivered b \<longleftrightarrow> b \<or> SIGINT \<in> set delivered \<or> SIGTERM \<in> set delivered"
  by (induction delivered arbitrary: b) (auto simp: terminationHandler_def)

lemma length_flag_loads [simp]: "length (flag_loads b arrivals) = length arrivals"
  by (induction arrivals arbitrary: b) (simp_all add: Let_def)

lemma flag_loads_set: "flag_loads True arrivals = replicate (length arrivals) True"
  by (induction arrivals) (simp_all add: Let_def fold_terminationHandler)

text \<open>Once a load returned true, every later one does.\<close>

lemma flag_loads_latch: "flag_loads b arrivals = xs @ True # ys \<Longrightarrow> False \<notin> set ys"
proof (induction xs arbitrary: b arrivals)
  case Nil
  then obtain d later where "arrivals = d # later" "fold terminationHandler d b" "ys = flag_loads True later"
    by (cases arrivals) (auto simp: Let_def)
  then show ?case by (simp add: flag_loads_set)
next
  case (Cons x xs)
  then obtain d later where "flag_loads (fold terminationHandler d b) later = xs @ True # ys"
    by (cases arrivals) (auto simp: Let_def)
  then show ?case by (rule Cons.IH)
qed

fun signal_event :: "event \<Rightarrow> bool" where
  "signal_event (HandlerInstalled _) = True"
| "signal_event _ = False"

lemma signal_not_broker: "signal_event e \<Longrightarrow> \<not> broker_event e"
  by (cases e) simp_all

lemma installTerminationHandlers_trace:
  "trace (installTerminationHandlers E s) = trace s @ [HandlerInstalled SIGINT, HandlerInstalled SIGTERM]"
  "io.more (installTerminationHandlers E s) = io.more s"
  by (simp_all add: installTerminationHandlers_def ext_call_def split: prod.splits)

lemma installTerminationHandlers_emits: "emits signal_event s (installTerminationHandlers E s)"
  using installTerminationHandlers_trace [of E s]
  by (simp add: emits_def io_extends_def new_events_def)

section \<open>Properties\<close>

text \<open>The termination flag says exactly whether a shutdown was asked for: a load returns true if and
  only if SIGINT or SIGTERM was delivered at some time before it, no matter how many other signals
  arrived; so it latches, and no reading after a true one is false.\<close>

theorem terminationRequested_latches:
  assumes "i < length arrivals"
  shows "(flag_loads False arrivals ! i \<longleftrightarrow> (\<exists>j \<le> i. SIGINT \<in> set (arrivals ! j) \<or> SIGTERM \<in> set (arrivals ! j))) \<and>
    (\<forall>k. i \<le> k \<and> k < length arrivals \<and> flag_loads False arrivals ! i \<longrightarrow> flag_loads False arrivals ! k)"
proof -
  have loads: "flag_loads b arrivals ! i \<longleftrightarrow> b \<or> (\<exists>j \<le> i. SIGINT \<in> set (arrivals ! j) \<or> SIGTERM \<in> set (arrivals ! j))"
    if "i < length arrivals" for b i
    using that
  proof (induction arrivals arbitrary: b i)
    case (Cons d later)
    show ?case
    proof (cases i)
      case 0
      then show ?thesis by (simp add: Let_def fold_terminationHandler)
    next
      case (Suc k)
      with Cons.IH [of k] Cons.prems show ?thesis by (simp add: Let_def fold_terminationHandler ex_le_Suc disj_ac)
    qed
  qed simp
  show ?thesis using loads [of _ False] assms by (auto intro: order_trans)
qed

theorem terminationRequested_latches_witness:
  "flag_loads False [[Signal_other 1], [SIGTERM], []] ! 2"
  using terminationRequested_latches [of 2 "[[Signal_other 1], [SIGTERM], []]"]
  by (auto intro: exI [of _ 1])

end
