(* ===== verification/Daemon_Core.thy ===== *)
theory Daemon_Core
  imports Messaging Config_Loader Publication_Throttle Logger Termination_Signal
begin

text \<open>
  \<open>Daemon.h\<close> and \<open>src/Daemon.cpp\<close>: what the daemons share. The variables of a process that owns a device
  (registry, publication throttle, compiler, scheduler) extend the state \<open>io\<close>. The scheduler is a
  library: a record of functions over an arbitrary state \<open>'q\<close>; what the daemons rely on is that it
  keeps the tasks it is given until it hands them out. Log lines are not modelled, except those of
  \<open>logRegisteredBackends\<close>, whose only effect they are.
\<close>

section \<open>State and libraries\<close>

record 'w node = "'w io" +
  registry :: BackendRegistry

record ('w, 'c, 'q) daemon = "'w node" +
  throttle :: PublicationThrottle
  compilerState :: 'c
  schedulerState :: 'q

record 'q scheduler =
  scheduleTask :: "QuantumTask \<Rightarrow> 'q \<Rightarrow> 'q"
  getNextReadyTask :: "'q \<Rightarrow> QuantumTask option \<times> 'q"

text \<open>
  What a scheduler promises, over the multiset of tasks it holds: a scheduled task is held, a task
  handed out was held and is no longer, and when none is ready nothing is lost.
\<close>

definition scheduler_ok :: "'q scheduler \<Rightarrow> ('q \<Rightarrow> QuantumTask multiset) \<Rightarrow> bool" where
  "scheduler_ok Q contents \<longleftrightarrow>
     (\<forall>task q. contents (scheduleTask Q task q) = add_mset task (contents q)) \<and>
     (\<forall>q task q'. getNextReadyTask Q q = (Some task, q') \<longrightarrow> contents q = add_mset task (contents q')) \<and>
     (\<forall>q q'. getNextReadyTask Q q = (None, q') \<longrightarrow> contents q' = contents q)"

section \<open>Starting up\<close>

text \<open>The configuration, and the logger installed as the process-wide default, if one was.\<close>

definition initializeDaemon ::
  "'n toml \<Rightarrow> 'n platform \<Rightarrow> 'w environment \<Rightarrow> ('w, 'z) io_scheme \<Rightarrow> Config result \<times> logger option \<times> ('w, 'z) io_scheme" where
  "initializeDaemon T F E s =
     (let s = installTerminationHandlers E s in
      case loadConfig T F of
        Inl e \<Rightarrow> (Inl e, None, s)
      | Inr config \<Rightarrow>
          let (l, s) = makeLogger E (com_daemonLogger (cfg_common config)) (com_daemonLog (cfg_common config)) s
          in (Inr config, Some l, s))"

definition optionalSetting :: "string \<Rightarrow> string option" where
  "optionalSetting v = (if v = [] then None else Some v)"

definition openConfiguredDevice ::
  "'w environment \<Rightarrow> SubmitterConfig \<Rightarrow> ('w, 'z) io_scheme \<Rightarrow> unit result \<times> ('w, 'z) io_scheme" where
  "openConfiguredDevice E config s =
     (let token = optionalSetting (sub_qdmiClientToken config);
          deviceId = optionalSetting (sub_qdmiDeviceId config);
          driver = sub_qdmiDriver config;
          name = sub_qdmiDeviceName config;
          (opened, s) = ext_call (env_openDevice E driver name token deviceId) (DeviceOpened driver name token deviceId) s
      in (transform_error opened (toQrmciError DriverUnavailable), s))"

definition registerOwnDevice ::
  "'w environment \<Rightarrow> string \<Rightarrow> ('w, 'z) node_scheme \<Rightarrow> unit result \<times> ('w, 'z) node_scheme" where
  "registerOwnDevice E dispatchQueue s =
     (let (backend, s) = fromSubmitter E dispatchQueue s in
      case backend of
        Inl e \<Rightarrow> (Inl e, s)
      | Inr b \<Rightarrow>
          let (now, s) = Clock_now E s
          in (Inr (), s\<lparr>registry := snd (insertOrRefresh b now (registry s))\<rparr>))"

definition refreshOwnDeviceStatus ::
  "'w environment \<Rightarrow> protocol \<Rightarrow> string \<Rightarrow> ('w, 'c, 'q, 'z) daemon_scheme \<Rightarrow>
   Backend option \<times> ('w, 'c, 'q, 'z) daemon_scheme" where
  "refreshOwnDeviceStatus E P dispatchQueue s =
     (let (now, s) = Clock_now E s;
          (granted, th) = claim now (throttle s);
          s = s\<lparr>throttle := th\<rparr>
      in if \<not> granted then (None, s)
         else
           let (refreshed, s) = fromSubmitter E dispatchQueue s in
           case refreshed of
             Inl e \<Rightarrow> (None, s)
           | Inr b \<Rightarrow>
               let status = toBackend P b;
                   (now, s) = Clock_now E s
               in (Some status, s\<lparr>registry := snd (insertOrRefresh b now (registry s))\<rparr>))"

text \<open>\<open>availableBackends.expire()\<close>, as the work loops call it.\<close>

definition expireBackends :: "'w environment \<Rightarrow> ('w, 'z) node_scheme \<Rightarrow> ('w, 'z) node_scheme" where
  "expireBackends E s = (let (now, s) = Clock_now E s in s\<lparr>registry := snd (expire now (registry s))\<rparr>)"

text \<open>The lines \<open>logRegisteredBackends\<close> logs.\<close>

definition logRegisteredBackends :: "protocol \<Rightarrow> BackendRegistry \<Rightarrow> string list" where
  "logRegisteredBackends P backends =
     forEachBackend (\<lambda>logLines name b.
         logLines @
         [concat [''Backend: '', name, '', Qubits: '', string_of_nat (unat (bw_numQubits b)), '', Status: '',
            backendStatusLabel P (bw_status b)]] @
         map (\<lambda>fmt. ''  Supported format: '' @ circuitFormatLabel P fmt) (bw_supportedCircuitFormats b))
       [''Available backends:''] backends"

section \<open>Intake\<close>

text \<open>The task is modified in place, so it is returned beside the outcome.\<close>

definition compileAndSchedule ::
  "'c compiler \<Rightarrow> 'q scheduler \<Rightarrow> QuantumTask \<Rightarrow> ('w, 'c, 'q, 'z) daemon_scheme \<Rightarrow>
   unit result \<times> QuantumTask \<times> ('w, 'c, 'q, 'z) daemon_scheme" where
  "compileAndSchedule C Q task s =
     (case registry_find (registry s) (scheduled_qpu task) of
        None \<Rightarrow>
          (Inl (mk_error NoBackendAvailable
             (''Backend '' @ quoted (scheduled_qpu task) @ '' is not registered with this process.'')), task, s)
      | Some backendInfo \<Rightarrow>
          (let (compiled, task, c) = compileQuantumTask C task backendInfo (compilerState s);
               s = s\<lparr>compilerState := c\<rparr>
           in case compiled of
                Inl e \<Rightarrow> (Inl e, task, s)
              | Inr _ \<Rightarrow> (Inr (), task, s\<lparr>schedulerState := scheduleTask Q task (schedulerState s)\<rparr>)))"

definition selectCompileAndSchedule ::
  "'c compiler \<Rightarrow> 'q scheduler \<Rightarrow> BackendSelectionPolicy \<Rightarrow> QuantumTask \<Rightarrow> ('w, 'c, 'q, 'z) daemon_scheme \<Rightarrow>
   unit result \<times> QuantumTask \<times> ('w, 'c, 'q, 'z) daemon_scheme" where
  "selectCompileAndSchedule C Q policy task s =
     (case chooseBackend (getSupportedInputFormats C) task (registry s) policy of
        Inl e \<Rightarrow> (Inl e, task, s)
      | Inr chosenBackend \<Rightarrow> compileAndSchedule C Q (task\<lparr>scheduled_qpu := chosenBackend\<rparr>) s)"

section \<open>The work loop\<close>

text \<open>
  \<open>while (!terminationRequested.load()) \<dots>\<close> over a turn of a daemon; a turn or the loop that does not end
  is \<open>None\<close>.
\<close>

partial_function (option) workLoop ::
  "'w environment \<Rightarrow> (('w, 'z) io_scheme \<Rightarrow> ('w, 'z) io_scheme option) \<Rightarrow> ('w, 'z) io_scheme \<Rightarrow>
   ('w, 'z) io_scheme option" where
  "workLoop E turn s =
     (let (terminate, s) = terminationRequested E s in
      if terminate then Some s
      else Option.bind (turn s) (\<lambda>s. workLoop E turn s))"

declare workLoop.simps [code]

text \<open>The end of a turn that did nothing: \<open>std::this_thread::sleep_for\<close>.\<close>

definition sleepFor :: "'w environment \<Rightarrow> int \<Rightarrow> ('w, 'z) io_scheme \<Rightarrow> ('w, 'z) io_scheme" where
  "sleepFor E milliseconds s = snd (ext_call (env_sleep E milliseconds) (\<lambda>_. Slept milliseconds) s)"

datatype exit_code = EXIT_SUCCESS | EXIT_FAILURE


section \<open>Frames\<close>

text \<open>An external call leaves the variables of a daemon alone.\<close>

lemma node_frame: "io_extends s t \<Longrightarrow> registry t = registry s"
  by (cases s, cases t) (simp add: io_extends_def)

lemma daemon_frame:
  assumes "io_extends s t"
  shows "registry t = registry s" "throttle t = throttle s" "compilerState t = compilerState s"
    "schedulerState t = schedulerState s"
  using assms by (cases s, cases t, simp add: io_extends_def)+

lemma send_registry [simp]:
  "registry (send E m q s) = registry s" "registry (sendFailure E task e s) = registry s"
  "registry (sendResult E task res s) = registry s"
  by (simp_all add: sendFailure_def sendResult_def node_frame [OF send_extends])

lemma send_scheduler [simp]:
  "schedulerState (send E m q s) = schedulerState s" "schedulerState (sendFailure E task e s) = schedulerState s"
  "schedulerState (sendResult E task res s) = schedulerState s"
  by (simp_all add: sendFailure_def sendResult_def daemon_frame(4) [OF send_extends])

text \<open>Setting a variable of a daemon is no external call.\<close>

lemma trace_updates [simp]:
  "trace (s\<lparr>registry := r\<rparr>) = trace s" "world (s\<lparr>registry := r\<rparr>) = world s"
  "trace (d\<lparr>throttle := th\<rparr>) = trace d" "world (d\<lparr>throttle := th\<rparr>) = world d"
  "trace (d\<lparr>compilerState := c\<rparr>) = trace d" "world (d\<lparr>compilerState := c\<rparr>) = world d"
  "trace (d\<lparr>schedulerState := q\<rparr>) = trace d" "world (d\<lparr>schedulerState := q\<rparr>) = world d"
  by simp_all

text \<open>Calls that look after the daemon itself: its clock, its device, its rest.\<close>

fun upkeep_event :: "event \<Rightarrow> bool" where
  "upkeep_event (ClockRead _) = True"
| "upkeep_event QubitsNumRead = True"
| "upkeep_event StatusRead = True"
| "upkeep_event OperationNamesRead = True"
| "upkeep_event CouplingMapRead = True"
| "upkeep_event PayloadFormatsRead = True"
| "upkeep_event (Slept _) = True"
| "upkeep_event _ = False"

lemma upkeep_not_broker: "upkeep_event e \<Longrightarrow> \<not> broker_event e"
  by (cases e) simp_all

lemma upkeep_sleepFor: "emits upkeep_event s (sleepFor E ms s)"
proof -
  obtain u t where c: "ext_call (env_sleep E ms) (\<lambda>_. Slept ms) s = (u, t)"
    by (cases "ext_call (env_sleep E ms) (\<lambda>_. Slept ms) s")
  from emits_ext_call [OF c, of upkeep_event] c show ?thesis by (simp add: sleepFor_def)
qed

lemmas silent_sleepFor = silent_emits [OF upkeep_sleepFor upkeep_not_broker]

lemma upkeep_Clock_now: "Clock_now E s = (now, t) \<Longrightarrow> emits upkeep_event s t"
  by (simp add: emits_Clock_now)

lemma upkeep_fromSubmitter:
  assumes "fromSubmitter E q s = (r, t)"
  shows "emits upkeep_event s t"
proof -
  from fromSubmitter_reads [OF assms] obtain n where "new_events s t = take n device_reads" by blast
  then have "e \<in> set device_reads" if "e \<in> set (new_events s t)" for e
    using that by (auto dest: in_set_takeD)
  then show ?thesis
    using fromSubmitter_extends [OF assms] by (fastforce simp: emits_def list_all_iff device_reads_def)
qed

section \<open>The scheduler's books\<close>

definition held_tickets :: "('q \<Rightarrow> QuantumTask multiset) \<Rightarrow> ('w, 'c, 'q, 'z) daemon_scheme \<Rightarrow> ticket multiset" where
  "held_tickets contents s = image_mset ticket (contents (schedulerState s))"

lemma held_tickets_frame: "io.more s = io.more t \<Longrightarrow> held_tickets contents s = held_tickets contents t"
  by (cases s, cases t) (simp add: held_tickets_def)

interpretation scheduling: ledger answered_ticket "held_tickets contents" for contents
  by unfold_locales (auto elim: answered_ticket.elims intro: held_tickets_frame)

text \<open>A step that neither calls out nor changes the scheduler.\<close>

lemma settles_local:
  assumes "trace t = trace s" and "schedulerState t = schedulerState s"
  shows "settles answered_ticket (held_tickets contents) {#} s t"
  using assms by (auto simp: settles_def held_tickets_def)

lemma compileAndSchedule_ticket:
  assumes "compileAndSchedule C Q task s = (r, task', t)"
  shows "ticket task' = ticket task" "trace t = trace s" "registry t = registry s" "throttle t = throttle s"
  using assms
  by (auto simp: compileAndSchedule_def ticket_def Let_def split: option.splits prod.splits sum.splits
      dest: compileQuantumTask_same)

lemma compileAndSchedule_scheduled:
  assumes "compileAndSchedule C Q task s = (r, task', t)"
  shows "schedulerState t = (case r of Inr _ \<Rightarrow> scheduleTask Q task' (schedulerState s) | Inl _ \<Rightarrow> schedulerState s)"
  using assms
  by (auto simp: compileAndSchedule_def Let_def split: option.splits prod.splits sum.splits)

text \<open>The whole intake of a received task: scheduled, or answered with the failure.\<close>

lemma settles_intake:
  assumes "scheduler_ok Q contents" and "compileAndSchedule C Q task s = (r, task', t)"
  shows "settles answered_ticket (held_tickets contents) {#ticket task#} s
    (case r of Inl e \<Rightarrow> sendFailure E task' e t | Inr _ \<Rightarrow> t)"
proof (cases r)
  case (Inl e)
  have "settles answered_ticket (held_tickets contents) {#} s t"
    using compileAndSchedule_ticket(2) [OF assms(2)] compileAndSchedule_scheduled [OF assms(2)] Inl
    by (intro settles_local) simp_all
  from settles_trans [OF this scheduling.failure [of contents task' t E e]] show ?thesis
    using Inl compileAndSchedule_ticket(1) [OF assms(2)] by simp
next
  case (Inr u)
  have "held_tickets contents t = add_mset (ticket task) (held_tickets contents s)"
    using compileAndSchedule_scheduled [OF assms(2)] compileAndSchedule_ticket(1) [OF assms(2)] Inr assms(1)
    by (simp add: held_tickets_def scheduler_ok_def)
  with compileAndSchedule_ticket(2) [OF assms(2)] Inr show ?thesis
    unfolding settles_def by (intro exI [of _ "[]"] exI [of _ "{#}"]) simp
qed

text \<open>Taking a task out of the scheduler makes its ticket due.\<close>

lemma settles_next:
  assumes "scheduler_ok Q contents" and "getNextReadyTask Q (schedulerState s) = (Some task, q)"
    and "settles answered_ticket (held_tickets contents) (add_mset (ticket task) due) (s\<lparr>schedulerState := q\<rparr>) t"
  shows "settles answered_ticket (held_tickets contents) due s t"
proof -
  have "held_tickets contents s = add_mset (ticket task) (held_tickets contents (s\<lparr>schedulerState := q\<rparr>))"
    using assms(1,2) by (simp add: held_tickets_def scheduler_ok_def)
  with assms(3) show ?thesis by (simp add: settles_def)
qed

lemma settles_none:
  assumes "scheduler_ok Q contents" and "getNextReadyTask Q (schedulerState s) = (None, q)"
  shows "settles answered_ticket (held_tickets contents) {#} s (s\<lparr>schedulerState := q\<rparr>)"
  using assms unfolding settles_def by (intro exI [of _ "[]"] exI [of _ "{#}"]) (simp add: held_tickets_def scheduler_ok_def)

text \<open>A scheduler that says that nothing is ready only when it is empty.\<close>

definition scheduler_eager :: "'q scheduler \<Rightarrow> ('q \<Rightarrow> QuantumTask multiset) \<Rightarrow> bool" where
  "scheduler_eager Q contents \<longleftrightarrow> (\<forall>q q'. getNextReadyTask Q q = (None, q') \<longrightarrow> contents q' = {#})"

text \<open>Tasks that are due are given up when a shutdown was requested meanwhile.\<close>

lemma settles_abandoned:
  assumes "silent s t" and "FlagRead True \<in> set (new_events s t)"
  shows "settles answered_ticket (held_tickets contents) due s t"
proof -
  have "received_ticket e = None \<and> answered_ticket e = None" if "e \<in> set (new_events s t)" for e
    using assms(1) that by (cases e) (auto simp: silent_def)
  then have "tally received_ticket (new_events s t) = {#}" "tally answered_ticket (new_events s t) = {#}"
    by (simp_all add: tally_none)
  moreover have "held_tickets contents t = held_tickets contents s"
    using daemon_frame(4) [OF silent_extends [OF assms(1)]] by (simp add: held_tickets_def)
  ultimately show ?thesis unfolding settles_def
    using io_extends_trace [OF silent_extends [OF assms(1)]] assms(2)
    by (intro exI [of _ "new_events s t"] exI [of _ due]) simp
qed

section \<open>The work loop\<close>

lemma workLoop_induct [consumes 1, case_names stop turn]:
  assumes "workLoop E turn s = Some t"
    and stop: "\<And>s t. terminationRequested E s = (True, t) \<Longrightarrow> P s t"
    and turn: "\<And>s s1 s2 t. terminationRequested E s = (False, s1) \<Longrightarrow> turn s1 = Some s2 \<Longrightarrow> P s2 t \<Longrightarrow> P s t"
  shows "P s t"
proof -
  let ?Q = "\<lambda>E' turn' s t. E' = E \<and> turn' = turn \<longrightarrow> P s t"
  have "?Q E turn s t"
    by (rule workLoop.raw_induct [where P = ?Q, OF _ assms(1)])
      (auto simp: Let_def split: prod.splits Option.bind_splits if_splits, (blast intro: stop turn)+)
  then show ?thesis by simp
qed

text \<open>
  The states at the head of the loop. A daemon that is never asked to stop has no final state, so what
  holds of a daemon is stated of every state its loop reaches.
\<close>

inductive turns ::
  "'w environment \<Rightarrow> (('w, 'z) io_scheme \<Rightarrow> ('w, 'z) io_scheme option) \<Rightarrow> ('w, 'z) io_scheme \<Rightarrow> ('w, 'z) io_scheme \<Rightarrow> bool"
  for E turn s where
  start: "turns E turn s s"
| again: "turns E turn s t \<Longrightarrow> terminationRequested E t = (False, u) \<Longrightarrow> turn u = Some v \<Longrightarrow> turns E turn s v"

lemma turns_before: "turns E turn s2 t \<Longrightarrow> terminationRequested E s = (False, s1) \<Longrightarrow> turn s1 = Some s2 \<Longrightarrow> turns E turn s t"
  by (induction rule: turns.induct) (blast intro: turns.intros)+

text \<open>A run ends in the state in which, at the head of the loop, a shutdown request was read.\<close>

lemma workLoop_turns:
  "workLoop E turn s = Some t \<Longrightarrow> \<exists>u. turns E turn s u \<and> terminationRequested E u = (True, t)"
  by (induction rule: workLoop_induct) (blast intro: turns.start turns_before)+

text \<open>
  What a daemon's turn promises its work loop: a relation between states, closed under sequencing,
  that reading the termination flag and a turn both establish. Then it relates the start to every
  state the loop reaches, and to the final one.
\<close>

locale work_loop =
  fixes E :: "'w environment"
    and turn :: "('w, 'z) io_scheme \<Rightarrow> ('w, 'z) io_scheme option"
    and promise :: "('w, 'z) io_scheme \<Rightarrow> ('w, 'z) io_scheme \<Rightarrow> bool"
  assumes promise_refl: "promise s s"
    and promise_trans: "promise s t \<Longrightarrow> promise t u \<Longrightarrow> promise s u"
    and promise_flag: "terminationRequested E s = (b, t) \<Longrightarrow> promise s t"
    and promise_turn: "turn s = Some t \<Longrightarrow> promise s t"
begin

lemma reached: "turns E turn s t \<Longrightarrow> promise s t"
  by (induction rule: turns.induct) (blast intro: promise_refl promise_trans promise_flag promise_turn)+

lemma run: "workLoop E turn s = Some t \<Longrightarrow> promise s t"
  using workLoop_turns reached promise_flag promise_trans by blast

end

text \<open>The state after a number of turns, each begun whatever the flag says, and when it says to stop.\<close>

primrec after_turns ::
  "'w environment \<Rightarrow> (('w, 'z) io_scheme \<Rightarrow> ('w, 'z) io_scheme option) \<Rightarrow> nat \<Rightarrow> ('w, 'z) io_scheme \<Rightarrow> ('w, 'z) io_scheme option" where
  "after_turns E turn 0 s = Some s"
| "after_turns E turn (Suc n) s = Option.bind (turn (snd (terminationRequested E s))) (after_turns E turn n)"

definition asked_after ::
  "'w environment \<Rightarrow> (('w, 'z) io_scheme \<Rightarrow> ('w, 'z) io_scheme option) \<Rightarrow> nat \<Rightarrow> ('w, 'z) io_scheme \<Rightarrow> bool" where
  "asked_after E turn n s \<longleftrightarrow>
     (case after_turns E turn n s of None \<Rightarrow> False | Some t \<Rightarrow> fst (terminationRequested E t))"

lemma after_turns_returns: "(\<And>s. \<exists>t. turn s = Some t) \<Longrightarrow> \<exists>t. after_turns E turn n s = Some t"
proof (induction n arbitrary: s)
  case (Suc n)
  then obtain u where "turn (snd (terminationRequested E s)) = Some u" by blast
  with Suc show ?case by simp
qed simp

text \<open>If the flag is set by the time a number of turns is over, the loop ends.\<close>

lemma workLoop_ends: "asked_after E turn n s \<Longrightarrow> \<exists>t. workLoop E turn s = Some t"
proof (induction n arbitrary: s)
  case 0
  then obtain t where "terminationRequested E s = (True, t)" by (cases "terminationRequested E s") (simp add: asked_after_def)
  then show ?case by (subst workLoop.simps) simp
next
  case (Suc n)
  obtain b s1 where f: "terminationRequested E s = (b, s1)" by (cases "terminationRequested E s")
  with Suc.prems obtain s2 where turn: "turn s1 = Some s2" and "asked_after E turn n s2"
    by (cases "turn s1") (auto simp: asked_after_def)
  with Suc.IH obtain t where "workLoop E turn s2 = Some t" by blast
  with f turn show ?case by (subst workLoop.simps) simp
qed

lemma workLoop_ends_on_request: "workLoop E turn s = Some t \<Longrightarrow> last (trace t) = FlagRead True"
  using workLoop_turns terminationRequested_last by blast


text \<open>The promise of the two daemons that own a device: to keep the books of the tasks.\<close>

definition books_kept ::
  "'q scheduler \<Rightarrow> ('q \<Rightarrow> QuantumTask multiset) \<Rightarrow> ('w, 'c, 'q, 'z) daemon_scheme \<Rightarrow> ('w, 'c, 'q, 'z) daemon_scheme \<Rightarrow> bool" where
  "books_kept Q contents s t \<longleftrightarrow>
     (scheduler_ok Q contents \<longrightarrow> settles answered_ticket (held_tickets contents) {#} s t)"

lemma books_kept_refl: "books_kept Q contents s s"
  by (simp add: books_kept_def settles_refl)

lemma books_kept_trans: "books_kept Q contents s t \<Longrightarrow> books_kept Q contents t u \<Longrightarrow> books_kept Q contents s u"
  unfolding books_kept_def using settles_trans by fastforce

lemma books_kept_flag: "terminationRequested E s = (b, t) \<Longrightarrow> books_kept Q contents s t"
  unfolding books_kept_def
  using scheduling.silent [OF silent_flag [OF flag_ok_terminationRequested]] by blast


section \<open>Looking after the own device\<close>

definition clock_readings :: "event list \<Rightarrow> int list" where
  "clock_readings es = List.map_filter (\<lambda>e. case e of ClockRead i \<Rightarrow> Some i | _ \<Rightarrow> None) es"

lemma clock_readings_simps [simp]:
  "clock_readings [] = []"
  "clock_readings (ClockRead i # es) = i # clock_readings es"
  "clock_readings (es @ fs) = clock_readings es @ clock_readings fs"
  by (simp_all add: clock_readings_def List.map_filter_def)

lemma clock_readings_device: "fromSubmitter E q s = (r, t) \<Longrightarrow> clock_readings (new_events s t) = []"
proof -
  assume "fromSubmitter E q s = (r, t)"
  from fromSubmitter_reads [OF this] obtain n where "new_events s t = take n device_reads" by blast
  then have "\<forall>e \<in> set (new_events s t). (case e of ClockRead i \<Rightarrow> Some i | _ \<Rightarrow> None) = None"
    by (auto simp: device_reads_def dest!: in_set_takeD)
  then show ?thesis by (simp add: clock_readings_def List.map_filter_def)
qed

text \<open>A device that answers every query, whenever it is asked.\<close>

definition device_readable :: "'w environment \<Rightarrow> bool" where
  "device_readable E \<longleftrightarrow>
     (\<forall>w. has_value (fst (env_qubitsNum E w)) \<and> has_value (fst (env_status E w)) \<and>
        has_value (fst (env_operationNames E w)) \<and> has_value (readCouplingMap (fst (env_couplingMap E w))) \<and>
        has_value (fst (env_supportedPayloadFormats E w)))"

lemma ext_call_value:
  assumes "\<And>w. has_value (fst (f w))"
  obtains a t where "ext_call f ev s = (Inr a, t)"
  using assms [of "world s"] that by (cases "f (world s)") (auto simp: has_value_iff ext_call_def)

lemma fromSubmitter_readable:
  assumes "device_readable E"
  shows "\<exists>b t. fromSubmitter E q s = (Inr b, t)"
proof -
  obtain n s1 where 1: "ext_call (env_qubitsNum E) (\<lambda>_. QubitsNumRead) s = (Inr n, s1)"
    using assms unfolding device_readable_def by (meson ext_call_value)
  obtain st s2 where 2: "ext_call (env_status E) (\<lambda>_. StatusRead) s1 = (Inr st, s2)"
    using assms unfolding device_readable_def by (meson ext_call_value)
  obtain ops s3 where 3: "ext_call (env_operationNames E) (\<lambda>_. OperationNamesRead) s2 = (Inr ops, s3)"
    using assms unfolding device_readable_def by (meson ext_call_value)
  obtain c s4 where 4: "ext_call (env_couplingMap E) (\<lambda>_. CouplingMapRead) s3 = (c, s4)"
    by (cases "ext_call (env_couplingMap E) (\<lambda>_. CouplingMapRead) s3")
  then have "c = fst (env_couplingMap E (world s3))" by (metis ext_call_simps(1) fst_conv)
  then obtain m where m: "readCouplingMap c = Inr m" using assms by (auto simp: device_readable_def has_value_iff)
  obtain fs s5 where 5: "ext_call (env_supportedPayloadFormats E) (\<lambda>_. PayloadFormatsRead) s4 = (Inr fs, s5)"
    using assms unfolding device_readable_def by (meson ext_call_value)
  from 1 2 3 4 m 5 show ?thesis by (simp add: fromSubmitter_def)
qed

text \<open>What one call of \<open>refreshOwnDeviceStatus\<close> does, on its three paths.\<close>

lemma read_own_device:
  assumes "Clock_now E s = (now, s1)" and "fromSubmitter E q (s1\<lparr>throttle := th\<rparr>) = (r, t)"
  obtains es where "trace t = trace s @ es" "clock_readings es = [now]" "registry t = registry s" "throttle t = th"
proof
  note c = Clock_now_extends [OF assms(1)] and d = fromSubmitter_extends [OF assms(2)]
  show "trace t = trace s @ ClockRead now # new_events (s1\<lparr>throttle := th\<rparr>) t"
    using io_extends_trace [OF d] io_extends_trace [OF conjunct1 [OF c]] c by simp
  show "clock_readings (ClockRead now # new_events (s1\<lparr>throttle := th\<rparr>) t) = [now]"
    using clock_readings_device [OF assms(2)] by simp
  show "registry t = registry s" "throttle t = th" using daemon_frame [OF d] daemon_frame [OF conjunct1 [OF c]] by simp_all
qed

lemma refreshOwnDeviceStatus_cases:
  assumes "refreshOwnDeviceStatus E P q s = (st, t)"
  obtains
    (not_due) now where "st = None" "\<not> fst (claim now (throttle s))" "registry t = registry s" "throttle t = throttle s"
      "clock_readings (new_events s t) = [now]"
  | (unreadable) now where "st = None" "fst (claim now (throttle s))" "registry t = registry s"
      "throttle t = snd (claim now (throttle s))" "clock_readings (new_events s t) = [now]"
      "\<not> device_readable E"
  | (refreshed) now b stamp where "st = Some (toBackend P b)" "fst (claim now (throttle s))"
      "registry t = snd (insertOrRefresh b stamp (registry s))" "throttle t = snd (claim now (throttle s))"
      "clock_readings (new_events s t) = [now, stamp]" "bw_name b = env_deviceId E" "bw_queueName b = q"
      "protocol_ok P \<Longrightarrow> device_known P E \<Longrightarrow> wrapper_known P b"
proof -
  obtain now s1 where c: "Clock_now E s = (now, s1)" by (cases "Clock_now E s")
  note s1 = Clock_now_extends [OF c]
  obtain granted th where g: "claim now (throttle s) = (granted, th)" by (cases "claim now (throttle s)")
  let ?s2 = "s1\<lparr>throttle := th\<rparr>"
  obtain r s3 where d: "fromSubmitter E q ?s2 = (r, s3)" by (cases "fromSubmitter E q ?s2")
  obtain es where s3: "trace s3 = trace s @ es" "clock_readings es = [now]" "registry s3 = registry s" "throttle s3 = th"
    using read_own_device [OF c d] .
  have fr: "throttle s1 = throttle s" "registry s1 = registry s" using daemon_frame s1 by blast+
  consider "\<not> granted" | (failed) e where granted "r = Inl e" | (read) b where granted "r = Inr b" by (cases r) auto
  then show thesis
  proof cases
    case 1
    with assms c g fr have "st = None" "t = ?s2" by (auto simp: refreshOwnDeviceStatus_def)
    moreover have "th = throttle s" using claim_refused [of now "throttle s" th] g 1 by simp
    moreover have "new_events s ?s2 = [ClockRead now]" using s1 by (simp add: new_events_def)
    ultimately show ?thesis using not_due [of now] g 1 fr by simp
  next
    case (failed e)
    with assms c g fr d have "st = None" "t = s3" by (auto simp: refreshOwnDeviceStatus_def)
    with unreadable [of now] fromSubmitter_readable [of E q ?s2] d failed g s3 new_events_eq [OF s3(1)]
    show ?thesis by auto
  next
    case (read b)
    obtain stamp s4 where c': "Clock_now E s3 = (stamp, s4)" by (cases "Clock_now E s3")
    note s4 = Clock_now_extends [OF c']
    from assms c g fr d read c' have t: "st = Some (toBackend P b)"
      "t = s4\<lparr>registry := snd (insertOrRefresh b stamp (registry s4))\<rparr>"
      by (auto simp: refreshOwnDeviceStatus_def)
    have "trace t = trace s @ es @ [ClockRead stamp]" using t(2) s3(1) io_extends_trace [OF conjunct1 [OF s4]] s4 by simp
    from new_events_eq [OF this] s3(2) have "clock_readings (new_events s t) = [now, stamp]" by simp
    with refreshed [of b now stamp] t g read daemon_frame [OF conjunct1 [OF s4]] s3 d
      fromSubmitter_fields [of E q ?s2 b s3] fromSubmitter_known [of P E q ?s2 b s3]
    show ?thesis by simp
  qed
qed

text \<open>A stretch of upkeep in which, besides, variables of the daemon other than the scheduler may change.\<close>

definition housekept :: "('w, 'c, 'q, 'z) daemon_scheme \<Rightarrow> ('w, 'c, 'q, 'z) daemon_scheme \<Rightarrow> bool" where
  "housekept s t \<longleftrightarrow> (\<exists>es. trace t = trace s @ es \<and> list_all upkeep_event es) \<and>
     schedulerState t = schedulerState s"

lemma housekept_trans: "housekept s t \<Longrightarrow> housekept t u \<Longrightarrow> housekept s u"
  by (fastforce simp: housekept_def)

lemma housekept_upkeep: "emits upkeep_event s t \<Longrightarrow> housekept s t"
  using emits_trace [of upkeep_event s t] daemon_frame(4) [of s t] by (auto simp: housekept_def emits_def)

lemma housekept_update [simp]:
  "housekept s (t\<lparr>registry := r\<rparr>) = housekept s t"
  "housekept s (t\<lparr>throttle := th\<rparr>) = housekept s t"
  "housekept (s\<lparr>throttle := th\<rparr>) t = housekept s t"
  by (simp_all add: housekept_def)

lemma housekept_refresh: "refreshOwnDeviceStatus E P q s = (st, t) \<Longrightarrow> housekept s t"
  unfolding refreshOwnDeviceStatus_def Let_def
  by (auto split: prod.splits if_splits sum.splits dest!: upkeep_Clock_now upkeep_fromSubmitter housekept_upkeep)
    (meson housekept_trans)+

lemma housekept_expire: "housekept s (expireBackends E s)"
  by (auto simp: expireBackends_def split: prod.splits dest: upkeep_Clock_now housekept_upkeep)

lemma housekept_register: "registerOwnDevice E q s = (r, t) \<Longrightarrow> housekept s t"
  unfolding registerOwnDevice_def Let_def
  by (auto split: prod.splits sum.splits dest!: upkeep_Clock_now upkeep_fromSubmitter housekept_upkeep)
    (meson housekept_trans)+

lemma silent_openConfiguredDevice: "openConfiguredDevice E config s = (r, t) \<Longrightarrow> silent s t"
  unfolding openConfiguredDevice_def Let_def by (auto split: prod.splits intro: silent_ext_call)

lemma settles_housekept: "housekept s t \<Longrightarrow> settles answered_ticket (held_tickets contents) {#} s t"
proof -
  assume "housekept s t"
  then obtain es where es: "trace t = trace s @ es" "list_all upkeep_event es" "schedulerState t = schedulerState s"
    by (auto simp: housekept_def)
  have "received_ticket e = None \<and> answered_ticket e = None" if "e \<in> set es" for e
    using es(2) that by (cases e) (auto simp: list_all_iff)
  then have "tally received_ticket es = {#}" "tally answered_ticket es = {#}" by (simp_all add: tally_none)
  with es show ?thesis unfolding settles_def by (intro exI [of _ es] exI [of _ "{#}"]) (simp add: held_tickets_def)
qed

lemma new_events_housekept: "housekept s t \<Longrightarrow> housekept t u \<Longrightarrow> new_events s u = new_events s t @ new_events t u"
  by (auto simp: housekept_def new_events_def)

text \<open>The own device is registered under its own queue, refreshed no earlier than the last slot claimed.\<close>

definition own_registered :: "'w environment \<Rightarrow> string \<Rightarrow> ('w, 'c, 'q, 'z) daemon_scheme \<Rightarrow> bool" where
  "own_registered E q s \<longleftrightarrow>
     registry_wf (registry s) \<and>
     (\<exists>b stamp. registry_abs (registry s) (env_deviceId E) = Some (b, stamp) \<and> bw_queueName b = q \<and>
        (\<forall>prev. lastClaimed (throttle s) = Some prev \<longrightarrow> prev \<le> stamp))"

lemma expireBackends_abs:
  assumes "registry_wf (registry s)"
  obtains now where "clock_readings (new_events s (expireBackends E s)) = [now]"
    "registry_abs (registry (expireBackends E s)) = spec_expire (entryTimeToLive (registry s)) now (registry_abs (registry s))"
    "registry_wf (registry (expireBackends E s))"
proof -
  obtain now u where c: "Clock_now E s = (now, u)" by (cases "Clock_now E s")
  note u = Clock_now_extends [OF c]
  have "trace (expireBackends E s) = trace s @ [ClockRead now]"
    using c io_extends_trace [OF conjunct1 [OF u]] u by (simp add: expireBackends_def)
  from new_events_eq [OF this] have "clock_readings (new_events s (expireBackends E s)) = [now]" by simp
  moreover have "registry u = registry s" using node_frame u by blast
  ultimately show thesis
    using that [of now] c assms by (simp add: expireBackends_def registry_simps registry_wf_expire)
qed

lemma expireBackends_throttle: "throttle (expireBackends E s) = throttle s"
  by (auto simp: expireBackends_def split: prod.splits dest!: Clock_now_extends daemon_frame(2))

text \<open>The status a refresh returns describes what is registered.\<close>

lemma refreshed_status_registered:
  assumes "protocol_ok P" and "device_known P E" and "q \<noteq> ''''" and "env_deviceId E \<noteq> ''''"
    and "own_registered E q s" and "refreshOwnDeviceStatus E P q s = (Some status, t)"
  shows "\<exists>b. fromPublishedStatus P status = Inr b \<and> registry_find (registry t) (env_deviceId E) = Some b \<and>
    bw_queueName b = q"
  using assms(6)
proof (cases rule: refreshOwnDeviceStatus_cases)
  case (refreshed now b stamp)
  then have "fromPublishedStatus P status = Inr b"
    using assms(1-4) by (simp add: fromPublishedStatus_Inr_iff BackendWrapper_of_toBackend) (simp add: toBackend_def)
  moreover from assms(5) obtain old stamp' where
    "registry_abs (registry s) (env_deviceId E) = Some (old, stamp')" "bw_queueName old = q"
    by (auto simp: own_registered_def)
  then have "registry_find (registry t) (env_deviceId E) = Some b"
    using refreshed by (simp add: registry_simps spec_insert_apply queue_conflict_def)
  ultimately show ?thesis using refreshed by blast
qed simp_all

lemma refreshed_status_name: "refreshOwnDeviceStatus E P q s = (Some status, t) \<Longrightarrow> pb_name status = env_deviceId E"
  by (cases rule: refreshOwnDeviceStatus_cases) (auto simp: toBackend_def)

section \<open>Starting a device-owning daemon\<close>

text \<open>The calls made before the broker is used.\<close>

definition startup_event :: "event \<Rightarrow> bool" where
  "startup_event e \<longleftrightarrow> signal_event e \<or> log_event e"

lemma startup_not_broker: "startup_event e \<Longrightarrow> \<not> broker_event e"
  using signal_not_broker log_not_broker by (auto simp: startup_event_def)

lemma initializeDaemon_failure:
  "loadConfig T F = Inl e \<Longrightarrow> initializeDaemon T F E s = (Inl e, None, installTerminationHandlers E s)"
  by (simp add: initializeDaemon_def)

lemma initializeDaemon_success:
  assumes "loadConfig T F = Inr config"
  obtains l t where "initializeDaemon T F E s = (Inr config, Some l, t)" "emits startup_event s t"
    "makeLogger E (com_daemonLogger (cfg_common config)) (com_daemonLog (cfg_common config))
       (installTerminationHandlers E s) = (l, t)"
proof -
  let ?s = "installTerminationHandlers E s"
  obtain l t where m: "makeLogger E (com_daemonLogger (cfg_common config)) (com_daemonLog (cfg_common config)) ?s = (l, t)"
    by (cases "makeLogger E (com_daemonLogger (cfg_common config)) (com_daemonLog (cfg_common config)) ?s")
  have "emits startup_event s ?s" "emits startup_event ?s t"
    by (rule emits_mono [OF installTerminationHandlers_emits] emits_mono [OF makeLogger_emits [OF m]],
        simp add: startup_event_def)+
  with m assms that show thesis by (auto simp: initializeDaemon_def intro: emits_trans)
qed

lemma registerOwnDevice_registered:
  assumes "registerOwnDevice E q s = (Inr u, t)" and "registry s = BackendRegistry_new ttl" and "lastClaimed (throttle s) = None"
  shows "own_registered E q t \<and> entryTimeToLive (registry t) = ttl \<and> throttle t = throttle s"
proof -
  obtain r s1 where f: "fromSubmitter E q s = (r, s1)" by (cases "fromSubmitter E q s")
  obtain now s2 where c: "Clock_now E s1 = (now, s2)" by (cases "Clock_now E s1")
  from assms(1) f c obtain b where b: "r = Inr b" and t: "t = s2\<lparr>registry := snd (insertOrRefresh b now (registry s2))\<rparr>"
    by (auto simp: registerOwnDevice_def split: sum.splits)
  have same: "registry s2 = registry s" "throttle s2 = throttle s"
    using daemon_frame [OF fromSubmitter_extends [OF f]] daemon_frame [of s1 s2] Clock_now_extends [OF c] by simp_all
  have "bw_name b = env_deviceId E" "bw_queueName b = q" using fromSubmitter_fields [of E q s b s1] f b by simp_all
  with same assms(2,3) show ?thesis
    unfolding own_registered_def t by (auto simp: registry_simps spec_insert_apply queue_conflict_def)
      (auto simp: BackendRegistry_new_def)
qed

text \<open>The variables of a daemon that owns a device when they are constructed.\<close>

definition newDaemon :: "Config \<Rightarrow> 'c \<Rightarrow> 'q \<Rightarrow> 'w io \<Rightarrow> ('w, 'c, 'q) daemon" where
  "newDaemon config c q s =
     \<lparr>world = world s, trace = trace s,
      registry = BackendRegistry_new (nanoseconds (reg_entryTimeToLive (sub_backendRegistry (cfg_submitter config)))),
      throttle = PublicationThrottle_new (nanoseconds_of_ms (sub_backendStatusPublishInterval (cfg_submitter config))),
      compilerState = c, schedulerState = q\<rparr>"

text \<open>
  The shape that the \<open>main\<close> functions of the standalone daemon and of the worker share, with the
  dispatch queue they advertise and the turn of their loop as parameters.
\<close>

definition deviceMain ::
  "'n toml \<Rightarrow> 'n platform \<Rightarrow> 'w environment \<Rightarrow> (Config \<Rightarrow> string) \<Rightarrow>
   (Config \<Rightarrow> ('w, 'c, 'q) daemon \<Rightarrow> ('w, 'c, 'q) daemon option) \<Rightarrow> 'c \<Rightarrow> 'q \<Rightarrow> 'w io \<Rightarrow> (exit_code \<times> 'w io) option" where
  "deviceMain T F E dispatchQueue turn c q s =
     (case initializeDaemon T F E s of
        (Inl e, _, s) \<Rightarrow> Some (EXIT_FAILURE, s)
      | (Inr config, _, s) \<Rightarrow>
     (case openConfiguredDevice E (cfg_submitter config) s of
        (Inl e, s) \<Rightarrow> Some (EXIT_FAILURE, s)
      | (Inr _, s) \<Rightarrow>
          case registerOwnDevice E (dispatchQueue config) (newDaemon config c q s) of
            (Inl e, d) \<Rightarrow> Some (EXIT_FAILURE, \<lparr>world = world d, trace = trace d\<rparr>)
          | (Inr _, d) \<Rightarrow>
              Option.bind (workLoop E (turn config) d)
                (\<lambda>d. Some (EXIT_SUCCESS, \<lparr>world = world d, trace = trace d\<rparr>))))"

text \<open>What a process started with an empty scheduler state \<open>q\<close> is when its loop begins.\<close>

definition started ::
  "'w environment \<Rightarrow> string \<Rightarrow> Config \<Rightarrow> 'w io \<Rightarrow> 'q \<Rightarrow> ('w, 'c, 'q) daemon \<Rightarrow> bool" where
  "started E dispatchQueue config s q d \<longleftrightarrow>
     own_registered E dispatchQueue d \<and> schedulerState d = q \<and>
     entryTimeToLive (registry d) = nanoseconds (reg_entryTimeToLive (sub_backendRegistry (cfg_submitter config))) \<and>
     throttle d = PublicationThrottle_new (nanoseconds_of_ms (sub_backendStatusPublishInterval (cfg_submitter config))) \<and>
     (\<exists>es. trace d = trace s @ es \<and> (\<forall>e \<in> set es. \<not> broker_event e))"

lemma deviceMain_cases [consumes 1]:
  assumes "deviceMain T F E dispatchQueue turn c q s = Some (rc, t)"
  obtains (unconfigured) e where "loadConfig T F = Inl e" "rc = EXIT_FAILURE" "t = installTerminationHandlers E s"
  | (no_device) config l s0 e where "loadConfig T F = Inr config" "initializeDaemon T F E s = (Inr config, Some l, s0)"
      "openConfiguredDevice E (cfg_submitter config) s0 = (Inl e, t)" "rc = EXIT_FAILURE"
  | (unreadable) config l s0 s1 e d where "loadConfig T F = Inr config" "initializeDaemon T F E s = (Inr config, Some l, s0)"
      "openConfiguredDevice E (cfg_submitter config) s0 = (Inr (), s1)"
      "registerOwnDevice E (dispatchQueue config) (newDaemon config c q s1) = (Inl e, d)"
      "rc = EXIT_FAILURE" "t = \<lparr>world = world d, trace = trace d\<rparr>"
  | (ran) config l s0 s1 d d2 where "loadConfig T F = Inr config" "initializeDaemon T F E s = (Inr config, Some l, s0)"
      "openConfiguredDevice E (cfg_submitter config) s0 = (Inr (), s1)"
      "registerOwnDevice E (dispatchQueue config) (newDaemon config c q s1) = (Inr (), d)"
      "workLoop E (turn config) d = Some d2" "rc = EXIT_SUCCESS" "t = \<lparr>world = world d2, trace = trace d2\<rparr>"
proof (cases "loadConfig T F")
  case (Inl e)
  with initializeDaemon_failure [OF Inl, of E s] assms unconfigured show thesis by (simp add: deviceMain_def)
next
  case config: (Inr config)
  obtain l s0 where i: "initializeDaemon T F E s = (Inr config, Some l, s0)"
    using initializeDaemon_success [OF config, of E s] .
  obtain opened s1 where o: "openConfiguredDevice E (cfg_submitter config) s0 = (opened, s1)"
    by (cases "openConfiguredDevice E (cfg_submitter config) s0")
  obtain r d where reg: "registerOwnDevice E (dispatchQueue config) (newDaemon config c q s1) = (r, d)"
    by (cases "registerOwnDevice E (dispatchQueue config) (newDaemon config c q s1)")
  show thesis
  proof (cases opened)
    case (Inl e)
    with assms i o no_device config show thesis by (simp add: deviceMain_def)
  next
    case opened: (Inr u)
    show thesis
    proof (cases r)
      case (Inl e)
      with assms i o opened reg unreadable config show thesis by (simp add: deviceMain_def)
    next
      case (Inr v)
      with assms i o opened reg ran config show thesis by (simp add: deviceMain_def split: Option.bind_splits)
    qed
  qed
qed

lemma registered_quietly:
  assumes "registerOwnDevice E dispatchQueue (newDaemon config c q s) = (r, d)"
  obtains es where "trace d = trace s @ es" "\<forall>e \<in> set es. \<not> broker_event e" "schedulerState d = q"
  using housekept_register [OF assms] upkeep_not_broker by (auto simp: housekept_def newDaemon_def list_all_iff)

lemma started_newDaemon:
  assumes "silent s s1" and "registerOwnDevice E dispatchQueue (newDaemon config c q s1) = (Inr u, d)"
  shows "started E dispatchQueue config s q d"
proof -
  obtain es where "trace d = trace s1 @ es" "\<forall>e \<in> set es. \<not> broker_event e" "schedulerState d = q"
    using registered_quietly [OF assms(2)] .
  with registerOwnDevice_registered [OF assms(2)] io_extends_trace [OF silent_extends [OF assms(1)]] assms(1) show ?thesis
    by (auto simp: started_def newDaemon_def silent_def PublicationThrottle_new_def)
qed

lemma deviceMain_outcome:
  assumes "deviceMain T F E dispatchQueue turn c q s = Some (rc, t)"
  shows "(rc = EXIT_FAILURE \<longrightarrow> silent s t) \<and>
    (rc = EXIT_SUCCESS \<longrightarrow>
       (\<exists>config d u. loadConfig T F = Inr config \<and> started E (dispatchQueue config) config s q d \<and>
          turns E (turn config) d u \<and> trace t = trace u @ [FlagRead True]))"
proof -
  have quiet: "silent s s1" if "loadConfig T F = Inr config" "initializeDaemon T F E s = (Inr config, Some l, s0)"
    "openConfiguredDevice E (cfg_submitter config) s0 = (r, s1)" for config l s0 r s1
    using initializeDaemon_success [OF that(1), of E s] that(2) silent_openConfiguredDevice [OF that(3)]
      silent_emits [OF _ startup_not_broker] silent_trans by (metis Pair_inject)
  from assms show ?thesis
  proof (cases rule: deviceMain_cases)
    case (unconfigured e)
    then show ?thesis using silent_emits [OF installTerminationHandlers_emits signal_not_broker] by simp
  next
    case (no_device config l s0 e)
    with quiet [OF no_device(1-3)] show ?thesis by simp
  next
    case (unreadable config l s0 s1 e d)
    obtain es where "trace d = trace s1 @ es" "\<forall>e \<in> set es. \<not> broker_event e" using registered_quietly [OF unreadable(4)] .
    then have "silent s1 t" using unreadable(6) by (auto simp: silent_def io_extends_def new_events_def)
    with quiet [OF unreadable(1-3)] unreadable(5) show ?thesis by (auto intro: silent_trans)
  next
    case (ran config l s0 s1 d d2)
    from workLoop_turns [OF ran(5)] obtain u where u: "turns E (turn config) d u" "terminationRequested E u = (True, d2)" by blast
    from terminationRequested_trace [OF u(2)] io_extends_trace [of u d2] have "trace t = trace u @ [FlagRead True]"
      using ran(7) by simp
    with started_newDaemon [OF quiet [OF ran(1-3)] ran(4)] ran(1,6) u(1) show ?thesis by auto
  qed
qed

lemma own_registered_expire:
  assumes "registry_wf (registry s)" and "registry_abs (registry s) (env_deviceId E) = Some (b, stamp)" "bw_queueName b = q"
    and claimed: "\<And>prev. lastClaimed (throttle s) = Some prev \<Longrightarrow> prev \<le> stamp"
    and young: "\<And>now. clock_readings (new_events s (expireBackends E s)) = [now] \<Longrightarrow> now - stamp \<le> entryTimeToLive (registry s)"
  shows "own_registered E q (expireBackends E s)"
proof -
  let ?t = "expireBackends E s"
  obtain now where "clock_readings (new_events s ?t) = [now]"
    "registry_abs (registry ?t) = spec_expire (entryTimeToLive (registry s)) now (registry_abs (registry s))"
    "registry_wf (registry ?t)"
    using expireBackends_abs [OF assms(1), of E] .
  with young assms(2) have "registry_abs (registry ?t) (env_deviceId E) = Some (b, stamp)" "registry_wf (registry ?t)"
    by (auto simp: spec_expire_def)
  with assms(3) claimed show ?thesis unfolding own_registered_def expireBackends_throttle by blast
qed

lemma expireBackends_intervals:
  "entryTimeToLive (registry (expireBackends E s)) = entryTimeToLive (registry s)"
  "publishInterval (throttle (expireBackends E s)) = publishInterval (throttle s)"
  unfolding expireBackends_throttle
  by (auto simp: expireBackends_def split: prod.splits dest!: Clock_now_extends node_frame)

text \<open>
  The upkeep of a turn: the refresh, calls that read no clock (the publication, in the worker), the
  expiry. The own device stays registered if what passes between the first and the last reading of the
  clock is within the slack between time-to-live and publication interval.
\<close>

lemma upkeep_times:
  assumes "refreshOwnDeviceStatus E P q s = (st, u)" and "io_extends u v" and "clock_readings (new_events u v) = []"
  shows "clock_readings (new_events s (expireBackends E v)) =
    clock_readings (new_events s u) @ clock_readings (new_events v (expireBackends E v))"
proof -
  obtain es where es: "trace u = trace s @ es" using housekept_refresh [OF assms(1)] by (auto simp: housekept_def)
  obtain fs where fs: "trace (expireBackends E v) = trace v @ fs" using housekept_expire [of v E] by (auto simp: housekept_def)
  have "trace (expireBackends E v) = trace s @ es @ new_events u v @ fs" using es fs io_extends_trace [OF assms(2)] by simp
  with assms(3) show ?thesis
    by (simp only: new_events_eq [OF es] new_events_eq [OF fs] new_events_eq clock_readings_simps append_Nil)
qed

lemma own_registered_upkeep:
  assumes "own_registered E q s" and "device_readable E" and r: "refreshOwnDeviceStatus E P q s = (st, u)"
    and ext: "io_extends u v" and quiet: "clock_readings (new_events u v) = []" and t: "t = expireBackends E v"
    and sorted: "sorted (clock_readings (new_events s t))"
    and slack: "last (clock_readings (new_events s t)) - hd (clock_readings (new_events s t))
           \<le> entryTimeToLive (registry s) - publishInterval (throttle s)"
    and interval: "0 \<le> publishInterval (throttle s)"
  shows "own_registered E q t \<and> publishInterval (throttle t) = publishInterval (throttle s) \<and>
    entryTimeToLive (registry t) = entryTimeToLive (registry s)"
proof -
  from assms(1) obtain old stamp0 where wf: "registry_wf (registry s)" and
    own: "registry_abs (registry s) (env_deviceId E) = Some (old, stamp0)" "bw_queueName old = q"
    and claimed: "\<And>prev. lastClaimed (throttle s) = Some prev \<Longrightarrow> prev \<le> stamp0"
    by (auto simp: own_registered_def)
  note v = daemon_frame(1,2) [OF ext]
  note times = upkeep_times [OF r ext quiet, folded t]
  have ttl_t: "entryTimeToLive (registry t) = entryTimeToLive (registry u)"
    and int_t: "publishInterval (throttle t) = publishInterval (throttle u)"
    unfolding t expireBackends_intervals v by simp_all
  from r show ?thesis
  proof (cases rule: refreshOwnDeviceStatus_cases)
    case (not_due now)
    obtain prev where prev: "lastClaimed (throttle s) = Some prev" "now - prev < publishInterval (throttle s)"
      using not_due(2) claim_refused [of now "throttle s" "snd (claim now (throttle s))"] by (metis prod.collapse)
    have "own_registered E q t" unfolding t
    proof (rule own_registered_expire [of _ _ old stamp0])
      show "now' - stamp0 \<le> entryTimeToLive (registry v)" if "clock_readings (new_events v (expireBackends E v)) = [now']" for now'
        using sorted slack prev claimed [OF prev(1)] that [folded t] times not_due(3,5) v(1) by simp
    qed (use wf own claimed not_due v in simp_all)
    with not_due ttl_t int_t show ?thesis by simp
  next
    case (unreadable now)
    with assms(2) show ?thesis by simp
  next
    case (refreshed now b stamp)
    have "throttle u = (throttle s)\<lparr>lastClaimed := Some now\<rparr>"
      using claim_granted [of now "throttle s" "throttle u"] refreshed by (metis prod.collapse)
    moreover have "own_registered E q t" unfolding t
    proof (rule own_registered_expire [of _ _ b stamp])
      show "registry_wf (registry v)" using refreshed(3) wf v(1) by auto
      show "registry_abs (registry v) (env_deviceId E) = Some (b, stamp)" "bw_queueName b = q"
        using refreshed own v(1) by (simp_all add: registry_simps spec_insert_apply queue_conflict_def)
      show "prev \<le> stamp" if "lastClaimed (throttle v) = Some prev" for prev
        using that calculation sorted times refreshed(5) v(2) by simp
      show "now' - stamp \<le> entryTimeToLive (registry v)" if "clock_readings (new_events v (expireBackends E v)) = [now']" for now'
        using sorted slack interval that [folded t] times refreshed(3,5) v(1) by simp
    qed
    ultimately show ?thesis using refreshed(3) ttl_t int_t by simp
  qed
qed

section \<open>A concrete daemon\<close>

text \<open>A first-in first-out scheduler and a daemon that has registered its device, for witnesses.\<close>

definition sample_scheduler :: "QuantumTask list scheduler" where
  "sample_scheduler =
     \<lparr>scheduleTask = (\<lambda>task q. q @ [task]),
      getNextReadyTask = (\<lambda>q. case q of [] \<Rightarrow> (None, []) | task # q \<Rightarrow> (Some task, q))\<rparr>"

lemma sample_scheduler_ok: "scheduler_ok sample_scheduler mset"
  by (auto simp: scheduler_ok_def sample_scheduler_def split: list.splits)

lemma sample_scheduler_eager: "scheduler_eager sample_scheduler mset"
  by (auto simp: scheduler_eager_def sample_scheduler_def split: list.splits)

definition own_backend :: BackendWrapper where
  "own_backend = sample_backend\<lparr>bw_name := ''cxxdevice5q'', bw_queueName := ''compiler.q''\<rparr>"

definition sample_daemon :: "(nat, unit, QuantumTask list) daemon" where
  "sample_daemon =
     \<lparr>world = 0, trace = [],
      registry = snd (insertOrRefresh own_backend 0 (BackendRegistry_new 30000000000)),
      throttle = PublicationThrottle_new 5000000000, compilerState = (), schedulerState = []\<rparr>"

lemma sample_daemon_wf: "registry_wf (registry sample_daemon)"
  by (auto simp: sample_daemon_def)

lemma sample_daemon_abs: "registry_abs (registry sample_daemon) = [''cxxdevice5q'' \<mapsto> (own_backend, 0)]"
  by (simp add: sample_daemon_def registry_simps spec_insert_def own_backend_def)

lemma sample_daemon_registered: "own_registered sample_env ''compiler.q'' sample_daemon"
  unfolding own_registered_def
  by (simp add: sample_daemon_wf sample_daemon_abs sample_env_def)
    (simp add: own_backend_def sample_daemon_def PublicationThrottle_new_def)

lemma sample_env_readable: "device_readable sample_env"
  by (simp add: device_readable_def sample_env_def readCouplingMap_def)

lemma sample_env_known: "device_known sample_protocol sample_env"
  by (simp add: device_known_def sample_env_def wire_known_def sample_protocol_def sample_status_of_number_def
      sample_format_of_number_def)

definition sample_config :: Config where
  "sample_config =
    \<lparr>cfg_common = \<lparr>com_connection = \<lparr>con_host = ''127.0.0.1'', con_port = 5672, con_user = ''guest'',
         con_password = ''guest'', con_vhost = ''/''\<rparr>, com_logDir = '''', com_daemonLogger = '''',
       com_daemonLog = '''', com_qrmciQueue = ''tasks'', com_resultsQueue = '''', com_schedulerQueue = '''',
       com_schedulerLogger = '''', com_schedulerLog = '''', com_stagePollInterval = 100\<rparr>,
     cfg_selector = \<lparr>sel_backendStatusQueue = ''status'', sel_logger = '''', sel_logFile = '''',
       sel_backendRegistry = \<lparr>reg_entryTimeToLive = 30\<rparr>, sel_selectionPolicy = LowestName\<rparr>,
     cfg_compiler = \<lparr>cmp_queue = ''compiler.q'', cmp_logger = '''', cmp_logFile = '''', cmp_taskReceiveTimeout = 500\<rparr>,
     cfg_submitter = \<lparr>sub_queue = '''', sub_logger = '''', sub_logFile = '''', sub_qdmiDriver = ''driver'',
       sub_qdmiDeviceName = ''device'', sub_qdmiDeviceId = ''cxxdevice5q'', sub_qdmiClientToken = '''',
       sub_jobWaitTimeout = 60, sub_backendRegistry = \<lparr>reg_entryTimeToLive = 30\<rparr>,
       sub_backendStatusPublishInterval = 5000\<rparr>\<rparr>"

text \<open>
  A trace on which no shutdown request was read, an environment that requests one once time has passed,
  and an environment in which the first reading is one.
\<close>

definition no_shutdown :: "event list \<Rightarrow> bool" where
  "no_shutdown es = list_all (\<lambda>e. case e of FlagRead b \<Rightarrow> \<not> b | _ \<Rightarrow> True) es"

definition interrupted_env :: "nat environment" where
  "interrupted_env = sample_env\<lparr>env_terminationRequested := (\<lambda>w. (0 < w, w))\<rparr>"

lemma interrupted_env_steady: "steady_env interrupted_env (\<lambda>w. int w * 1000000000)"
  by (simp add: steady_env_def interrupted_env_def sample_env_def)

lemma interrupted_env_backlog: "finite_backlog interrupted_env (\<lambda>_. 0)"
  by (simp add: finite_backlog_def drains_def interrupted_env_def sample_env_def has_value_iff)

definition halted_env :: "nat environment" where
  "halted_env = sample_env\<lparr>env_terminationRequested := (\<lambda>w. (True, w))\<rparr>"

section \<open>Properties\<close>

text \<open>C12: The intake of a task either schedules it, ready to run, or leaves the scheduler alone. On
  success exactly one task was added: the received one, assigned to a registered, online backend that
  admits it, and (if it has circuits and a positive shot count) accepted by the submission check in a
  format that backend lists. On failure nothing was scheduled and the task keeps its circuits. The
  registry is not touched and nothing is sent in either case.\<close>

theorem selectCompileAndSchedule_correct:
  assumes "registry_wf (registry s)" and "selectCompileAndSchedule C Q policy task s = (r, task', t)"
  shows "registry t = registry s \<and> trace t = trace s \<and> ticket task' = ticket task \<and>
    (case r of
       Inr _ \<Rightarrow> \<exists>b. registry_find (registry s) (scheduled_qpu task') = Some b \<and> isOnline b \<and>
         canRun (getSupportedInputFormats C) b task \<and>
         schedulerState t = scheduleTask Q task' (schedulerState s) \<and>
         (circuit_files task \<noteq> [] \<and> 0 < sint (n_shots task) \<longrightarrow>
            (\<exists>fmt. validateSubmission task' = Inr fmt \<and> fmt \<in> set (bw_supportedCircuitFormats b)))
     | Inl e \<Rightarrow> schedulerState t = schedulerState s \<and> circuit_files task' = circuit_files task \<and>
         circuit_file_type task' = circuit_file_type task)"
proof (cases "chooseBackend (getSupportedInputFormats C) task (registry s) policy")
  case (Inl e)
  with assms(2) show ?thesis by (auto simp: selectCompileAndSchedule_def)
next
  case (Inr n)
  obtain b where b: "registry_find (registry s) n = Some b" "isOnline b" "canRun (getSupportedInputFormats C) b task"
    using chooseBackend_Inr [OF assms(1) Inr] .
  let ?task = "task\<lparr>scheduled_qpu := n\<rparr>"
  from assms(2) Inr have run: "compileAndSchedule C Q ?task s = (r, task', t)" by (simp add: selectCompileAndSchedule_def)
  note same = compileAndSchedule_ticket [OF run] and sched = compileAndSchedule_scheduled [OF run]
  obtain cr c where comp: "compileQuantumTask C ?task b (compilerState s) = (cr, task', c)"
    and r: "has_value r = has_value cr"
    using run b(1) by (auto simp: compileAndSchedule_def Let_def split: prod.splits sum.splits)
  have adm: "canRun (getSupportedInputFormats C) b ?task" using b(3) by simp
  have tk: "ticket task' = ticket task" using same(1) by (simp add: ticket_def)
  show ?thesis
  proof (cases r)
    case (Inl e)
    with r obtain e' where "cr = Inl e'" by (cases cr) auto
    with comp have "task' = ?task" by (auto dest: compileQuantumTask_Inl)
    with Inl sched same tk show ?thesis by simp
  next
    case (Inr u)
    with r obtain u' where cr: "cr = Inr u'" by (cases cr) auto
    have "scheduled_qpu task' = n" using compileQuantumTask_same(3) [OF comp] by simp
    moreover have "circuit_files task \<noteq> [] \<and> 0 < sint (n_shots task) \<longrightarrow>
        (\<exists>fmt. validateSubmission task' = Inr fmt \<and> fmt \<in> set (bw_supportedCircuitFormats b))"
      using admitted_submittable [OF adm comp [unfolded cr]] by auto
    ultimately show ?thesis using Inr sched same tk b by simp
  qed
qed

theorem selectCompileAndSchedule_correct_witness:
  "\<exists>task' t. selectCompileAndSchedule sample_compiler sample_scheduler LowestName sample_quake_task sample_daemon =
     (Inr (), task', t) \<and> scheduled_qpu task' = ''cxxdevice5q'' \<and> schedulerState t = [task'] \<and>
     (\<exists>fmt. validateSubmission task' = Inr fmt \<and> fmt \<in> set (bw_supportedCircuitFormats own_backend))"
proof -
  obtain r task' t where run:
    "selectCompileAndSchedule sample_compiler sample_scheduler LowestName sample_quake_task sample_daemon = (r, task', t)"
    by (cases "selectCompileAndSchedule sample_compiler sample_scheduler LowestName sample_quake_task sample_daemon")
  have r: "r = Inr ()" "scheduled_qpu task' = ''cxxdevice5q''"
    using run
    by (auto simp: selectCompileAndSchedule_def chooseBackend_def usablePreferred_def forEachBackend_def considerBackend_def
        isOnline_def isOnlineBackendStatus_def canRun_def canPrepareTaskForBackend_def compileAndSchedule_def
        compileQuantumTask_def compilerTarget_def sample_daemon_def own_backend_def sample_backend_def sample_quake_task_def
        sample_task_def sample_compiler_def validateInputFormatIsSupportedCircuitFormat_def getCompilerOptimizationLevel_def
        TaskCircuitTypeToCompilerInputFormatMapping_def chooseCompilerTarget_def CompilerTargetPriority_def
        insertOrRefresh_def BackendRegistry_new_def registry_find_def Let_def)
  have task: "circuit_files sample_quake_task \<noteq> []" "0 < sint (n_shots sample_quake_task)"
    by (simp_all add: sample_quake_task_def sample_task_def)
  have "schedulerState sample_daemon = []" by (simp add: sample_daemon_def)
  with selectCompileAndSchedule_correct [OF sample_daemon_wf run] r task run show ?thesis
    by (auto simp: registry_simps sample_daemon_abs sample_scheduler_def)
qed

text \<open>A device that can be read never drops out of its own registry. If the own device is
  registered before a turn's housekeeping (refresh, then expire), the device is readable, the clock
  does not go back and no more than the slack between the time-to-live and the publication interval
  passes from the claim of the slot to the expiry, then it is registered after it, under the same
  queue, whether or not a slot was due; so the condition carries over to every later turn.\<close>

theorem own_device_stays_registered:
  assumes "own_registered E q s" and "device_readable E"
    and "t = expireBackends E (snd (refreshOwnDeviceStatus E P q s))"
    and "sorted (clock_readings (new_events s t))"
    and "last (clock_readings (new_events s t)) - hd (clock_readings (new_events s t))
           \<le> entryTimeToLive (registry s) - publishInterval (throttle s)"
    and "0 \<le> publishInterval (throttle s)"
  shows "own_registered E q t \<and> publishInterval (throttle t) = publishInterval (throttle s) \<and>
    entryTimeToLive (registry t) = entryTimeToLive (registry s)"
proof -
  obtain st u where r: "refreshOwnDeviceStatus E P q s = (st, u)" by (cases "refreshOwnDeviceStatus E P q s")
  with assms(3) have t: "t = expireBackends E u" by simp
  show ?thesis by (rule own_registered_upkeep [OF assms(1,2) r io_extends_refl _ t assms(4-6)]) simp
qed

theorem own_device_stays_registered_witness:
  "own_registered sample_env ''compiler.q''
     (expireBackends sample_env (snd (refreshOwnDeviceStatus sample_env sample_protocol ''compiler.q'' sample_daemon)))"
proof -
  let ?t = "expireBackends sample_env (snd (refreshOwnDeviceStatus sample_env sample_protocol ''compiler.q'' sample_daemon))"
  have "clock_readings (trace ?t) = [0, 1000000000, 2000000000]"
    by (simp add: refreshOwnDeviceStatus_def expireBackends_def Clock_now_def ext_call_def fromSubmitter_def sample_env_def
        sample_daemon_def PublicationThrottle_new_def claim_def readCouplingMap_def clock_readings_def List.map_filter_def)
  then have times: "clock_readings (new_events sample_daemon ?t) = [0, 1000000000, 2000000000]"
    by (simp add: new_events_def sample_daemon_def)
  have "entryTimeToLive (registry sample_daemon) = 30000000000" "publishInterval (throttle sample_daemon) = 5000000000"
    by (simp_all add: sample_daemon_def BackendRegistry_new_def PublicationThrottle_new_def)
  with own_device_stays_registered [OF sample_daemon_registered sample_env_readable refl] times show ?thesis by simp
qed

text \<open>C40: How a process comes up. The handlers for SIGINT and SIGTERM are installed before anything else is
  done, so that no request made later is lost; the configuration is the one the loader yields. When it
  cannot be loaded no logger is installed and nothing else happens. Otherwise the default logger has the
  configured name and always writes to the console; it also writes to the configured file, rotated at
  fifty mebibytes with five old files kept, unless no file is configured or it cannot be opened, and a
  file that cannot be opened does not keep the process from starting.\<close>

theorem initializeDaemon_contract:
  assumes "initializeDaemon T F E s = (config, l, t)"
  shows "config = loadConfig T F \<and>
    (\<exists>es. trace t = trace s @ HandlerInstalled SIGINT # HandlerInstalled SIGTERM # es \<and>
      (case config of
         Inl _ \<Rightarrow> l = None \<and> es = []
       | Inr c \<Rightarrow> \<exists>log opened. l = Some log \<and> log_name log = com_daemonLogger (cfg_common c) \<and>
           es = (if com_daemonLog (cfg_common c) = '''' then []
                 else [LogFileOpened (com_daemonLog (cfg_common c)) (50 * 1024 * 1024) 5 opened]) \<and>
           log_sinks log = StdoutColorSink #
             (if com_daemonLog (cfg_common c) \<noteq> '''' \<and> opened = Inr ()
              then [RotatingFileSink (com_daemonLog (cfg_common c)) (50 * 1024 * 1024) 5] else [])))"
proof (cases "loadConfig T F")
  case (Inl e)
  with initializeDaemon_failure [OF Inl, of E s] assms installTerminationHandlers_trace(1) [of E s] show ?thesis by auto
next
  case (Inr c)
  let ?file = "com_daemonLog (cfg_common c)" and ?s = "installTerminationHandlers E s"
  obtain log u where init: "initializeDaemon T F E s = (Inr c, Some log, u)"
    and make: "makeLogger E (com_daemonLogger (cfg_common c)) ?file ?s = (log, u)"
    using initializeDaemon_success [OF Inr, of E s] by metis
  have tr: "trace u = trace s @ HandlerInstalled SIGINT # HandlerInstalled SIGTERM # new_events ?s u"
    using makeLogger_emits [OF make] io_extends_trace [of ?s u] installTerminationHandlers_trace(1) [of E s] by (simp add: emits_def)
  note sinks = makeLogger_sinks [OF make]
  have "\<exists>opened. new_events ?s u = (if ?file = '''' then [] else [LogFileOpened ?file (50 * 1024 * 1024) 5 opened]) \<and>
      log_sinks log = StdoutColorSink # (if ?file \<noteq> '''' \<and> opened = Inr ()
        then [RotatingFileSink ?file (50 * 1024 * 1024) 5] else [])"
  proof (cases "?file = ''''")
    case True
    with sinks show ?thesis by simp
  next
    case False
    with sinks(3) obtain opened where "new_events ?s u = [LogFileOpened ?file (50 * 1024 * 1024) 5 opened]" by blast
    with sinks(1) False show ?thesis by (intro exI [of _ opened]) auto
  qed
  with init tr sinks(1) Inr assms show ?thesis by auto
qed

text \<open>A platform whose log directory cannot be written.\<close>

definition unwritable_env :: "nat environment" where
  "unwritable_env = sample_env\<lparr>env_openLogFile := (\<lambda>_ _ _ w. (Inl ''permission denied'', w))\<rparr>"

theorem initializeDaemon_contract_witness:
  "\<exists>config log t. initializeDaemon sample_toml (sample_platform sample_environment (Some sample_document)) unwritable_env sample_io =
       (Inr config, Some log, t) \<and> log_sinks log = [StdoutColorSink]"
proof -
  obtain config where "loadConfig sample_toml (sample_platform sample_environment (Some sample_document)) = Inr config"
    using sample_load by blast
  from initializeDaemon_success [OF this, of unwritable_env sample_io] obtain log t where
    init: "initializeDaemon sample_toml (sample_platform sample_environment (Some sample_document)) unwritable_env sample_io =
      (Inr config, Some log, t)"
    and make: "makeLogger unwritable_env (com_daemonLogger (cfg_common config)) (com_daemonLog (cfg_common config))
       (installTerminationHandlers unwritable_env sample_io) = (log, t)" .
  have refused: "LogFileOpened f n k (Inr ()) \<notin> set (trace t)" for f n k
    using make by (auto simp: makeLogger_def Let_def installTerminationHandlers_def ext_call_def unwritable_env_def sample_env_def
        sample_io_def split: if_splits)
  from initializeDaemon_contract [OF init] refused have "log_sinks log = [StdoutColorSink]" by (auto split: if_splits)
  with init show ?thesis by blast
qed

end
