(* ===== verification/External_Protocol.thy ===== *)
theory External_Protocol
  imports Daemon_Core
begin

text \<open>
  How the daemons talk to the outside. The abstract specification: a trace is a conversation, a sequence
  of exchanges, each a short run of external calls that belong together. Besides results, which every
  daemon may send, a conversation has only the messages that the role of the daemon allows, the parameter
  \<open>may\<close>. Polling, submitting and waiting
  are preceded by a reading of the termination flag that found it clear; a delivery is acknowledged at
  once; the counts of a job are read right after it was reported done; jobs are cancelled only right
  after a shutdown request was read; requests and results are well formed. The operations of
  \<open>Runners.cpp\<close>, \<open>CommunicationHandler.h\<close>, \<open>DaemonMessaging.h\<close> and \<open>Daemon.cpp\<close> are shown here to hold
  conversations; a monitor, an automaton that every exchange leads from a resting state to a resting
  state, then accepts every trace they produce.
\<close>

section \<open>Exchanges\<close>

text \<open>What the device is sent: a known format, and a shot count in the range of the task's field.\<close>

definition well_formed_request :: "JobRequest \<Rightarrow> bool" where
  "well_formed_request req \<longleftrightarrow>
     req_format req \<noteq> CIRCUIT_FORMAT_UNSPECIFIED \<and> 0 < uint (req_numShots req) \<and> uint (req_numShots req) \<le> 2147483647"

text \<open>What an owner is sent on a queue: the result names that queue; it is complete or a cancellation.\<close>

definition well_formed_result :: "string \<Rightarrow> QuantumResult \<Rightarrow> bool" where
  "well_formed_result q res \<longleftrightarrow>
     destination res = q \<and>
     (if execution_status res
      then additional_information res = ''COMPLETED'' \<and> results res \<noteq> [] \<and>
        (\<forall>counts \<in> set (results res). \<forall>key v. counts key = Some v \<longrightarrow> 0 \<le> sint v)
      else results res = [] \<and> take 11 (additional_information res) = ''CANCELLED: '')"

fun cancel_event :: "event \<Rightarrow> bool" where
  "cancel_event (JobCancelled _ _) = True"
| "cancel_event _ = False"

inductive exchange :: "(string \<Rightarrow> Message \<Rightarrow> bool) \<Rightarrow> event list \<Rightarrow> bool" for may where
  flag: "exchange may [FlagRead b]"
| upkeep: "upkeep_event e \<Longrightarrow> exchange may [e]"
| startup: "startup_event e \<Longrightarrow> exchange may [e]"
| device_open: "exchange may [DeviceOpened driver name token deviceId r]"
| children: "exchange may [ChildrenRead]"
| submission: "well_formed_request req \<Longrightarrow> exchange may [FlagRead False, JobSubmitted req p r]"
| cancellation: "list_all cancel_event es \<Longrightarrow> exchange may (FlagRead True # es)"
| waiting: "r \<noteq> Inr Done \<Longrightarrow> exchange may [FlagRead False, JobWaited job r]"
| reading: "exchange may [FlagRead False, JobWaited job (Inr Done), CountsRead job c]"
| no_task: "exchange may [FlagRead False, TaskPolled q i (Inl e)]"
| task: "exchange may [FlagRead False, TaskPolled q i (Inr (m, d)), DeliveryAcked d a]"
| no_status: "exchange may [FlagRead False, BackendPolled q i (Inl e)]"
| status: "exchange may [FlagRead False, BackendPolled q i (Inr (b, d)), DeliveryAcked d a]"
| answer: "well_formed_result q res \<Longrightarrow> exchange may [MessageSent q (ResultMessage res) r]"
| forward: "may q (TaskMessage m) \<Longrightarrow> exchange may [MessageSent q (TaskMessage m) r]"
| announce: "may q (BackendMessage b) \<Longrightarrow> exchange may [MessageSent q (BackendMessage b) r]"

inductive conversation :: "(string \<Rightarrow> Message \<Rightarrow> bool) \<Rightarrow> event list \<Rightarrow> bool" for may where
  silence: "conversation may []"
| more: "conversation may es \<Longrightarrow> exchange may fs \<Longrightarrow> conversation may (es @ fs)"

lemma conversation_exchange: "exchange may es \<Longrightarrow> conversation may es"
  using conversation.more [OF conversation.silence] by simp

lemma conversation_append:
  assumes "conversation may es" and "conversation may fs"
  shows "conversation may (es @ fs)"
  using assms(2)
proof induction
  case (more gs hs)
  from conversation.more [OF more(3,2)] show ?case by simp
qed (simp add: assms(1))

text \<open>The state \<open>t\<close> is reached from \<open>s\<close> by a conversation.\<close>

definition converses :: "(string \<Rightarrow> Message \<Rightarrow> bool) \<Rightarrow> ('w, 'z) io_scheme \<Rightarrow> ('w, 'z) io_scheme \<Rightarrow> bool" where
  "converses may s t \<longleftrightarrow> (\<exists>es. trace t = trace s @ es \<and> conversation may es)"

lemma converses_refl [simp, intro]: "converses may s s"
  by (simp add: converses_def conversation.silence)

lemma converses_trans [trans]: "converses may s t \<Longrightarrow> converses may t u \<Longrightarrow> converses may s u"
  unfolding converses_def using conversation_append by fastforce

lemma converses_new_events: "converses may s t \<Longrightarrow> conversation may (new_events s t)"
  by (auto simp: converses_def new_events_def)

lemma converses_local: "trace t = trace s \<Longrightarrow> converses may s t"
  by (simp add: converses_def conversation.silence)

lemma converses_update [simp]:
  "converses may (s\<lparr>schedulerState := q\<rparr>) t = converses may s t"
  "converses may s (t\<lparr>schedulerState := q\<rparr>) = converses may s t"
  "converses may n (m\<lparr>registry := r\<rparr>) = converses may n m"
  by (simp_all add: converses_def)

lemma converses_exchange: "trace t = trace s @ es \<Longrightarrow> exchange may es \<Longrightarrow> converses may s t"
  using conversation_exchange by (auto simp: converses_def)

lemma conversation_emits: "list_all A es \<Longrightarrow> (\<And>e. A e \<Longrightarrow> exchange may [e]) \<Longrightarrow> conversation may es"
proof (induction es rule: rev_induct)
  case (snoc e es)
  then show ?case by (auto intro: conversation.more)
qed (simp add: conversation.silence)

lemma converses_emits: "emits A s t \<Longrightarrow> (\<And>e. A e \<Longrightarrow> exchange may [e]) \<Longrightarrow> converses may s t"
  using emits_trace conversation_emits unfolding converses_def by blast

lemma converses_housekept: "housekept s t \<Longrightarrow> converses may s t"
  unfolding housekept_def converses_def using conversation_emits [where A = upkeep_event] exchange.upkeep by blast

lemma flag_trace: "terminationRequested E s = (b, t) \<Longrightarrow> trace t = trace s @ [FlagRead b]"
  using terminationRequested_trace io_extends_trace by metis

lemma call_trace: "ext_call f ev s = (a, t) \<Longrightarrow> trace t = trace s @ [ev a]"
  using ext_call_extends io_extends_trace by metis

lemma converses_flag: "terminationRequested E s = (b, t) \<Longrightarrow> converses may s t"
  by (rule converses_exchange [OF flag_trace exchange.flag])

lemma converses_call: "ext_call f ev s = (a, t) \<Longrightarrow> exchange may [ev a] \<Longrightarrow> converses may s t"
  by (rule converses_exchange [OF call_trace])

lemma converses_clock: "Clock_now E s = (now, t) \<Longrightarrow> converses may s t"
  by (rule converses_call [of "env_now E" ClockRead]) (simp_all add: Clock_now_def exchange.upkeep)

section \<open>Submitting\<close>

lemma makeJobRequest_well_formed:
  assumes "validateSubmission task = Inr fmt"
  shows "well_formed_request (makeJobRequest task i fmt)"
proof -
  from assms have f: "fmt \<noteq> CIRCUIT_FORMAT_UNSPECIFIED" "0 < sint (n_shots task)"
    by (auto simp: validateSubmission_Inr_iff)
  moreover have "sint (n_shots task) < 2 ^ 31" using sint_lt [of "n_shots task"] by simp
  ultimately show ?thesis using scast_shots [OF f(2)] by (simp add: well_formed_request_def makeJobRequest_def)
qed

lemma cancelJobs_trace: "\<exists>es. trace (cancelJobs E jobs s) = trace s @ es \<and> list_all cancel_event es"
proof (induction jobs arbitrary: s)
  case (Cons j jobs)
  obtain r t where c: "ext_call (env_cancel E j) (JobCancelled j) s = (r, t)"
    by (cases "ext_call (env_cancel E j) (JobCancelled j) s")
  with Cons [of t] call_trace [OF c] show ?case by auto
qed simp

lemma converses_submitCircuits:
  assumes "validateSubmission task = Inr fmt" and "submitCircuits E (terminationRequested E) task fmt p is jobs s = (r, t)"
  shows "converses may s t"
  using assms(2)
proof (induction rule: submitCircuits_induct)
  case (finished jobs s)
  show ?case ..
next
  case (shutdown i "is" jobs s s1)
  obtain es where "trace (cancelJobs E jobs s1) = trace s1 @ es" "list_all cancel_event es" using cancelJobs_trace by blast
  with flag_trace [OF shutdown] show ?case by (intro converses_exchange [OF _ exchange.cancellation]) simp_all
next
  case (refused i "is" jobs s s1 e t)
  show ?case by (rule converses_exchange [OF _ exchange.submission [OF makeJobRequest_well_formed [OF assms(1)]]])
    (use flag_trace [OF refused(1)] call_trace [OF refused(2)] in simp)
next
  case (more i "is" jobs s s1 j s2 r t)
  have "converses may s s2"
    by (rule converses_exchange [OF _ exchange.submission [OF makeJobRequest_well_formed [OF assms(1)]]])
      (use flag_trace [OF more(1)] call_trace [OF more(2)] in simp)
  then show ?case using more(3) by (rule converses_trans)
qed

lemma converses_submitQuantumTask:
  assumes "submitQuantumTask E (terminationRequested E) task s = (r, t)"
  shows "converses may s t"
proof -
  obtain p s1 where c: "choosePlacement E s = (p, s1)" by (cases "choosePlacement E s")
  then have "converses may s s1"
    by (auto simp: choosePlacement_def split: prod.splits sum.splits list.splits if_splits
        intro: converses_call exchange.children)
  with assms c show ?thesis
    by (auto simp: submitQuantumTask_def split: sum.splits intro: converses_trans converses_submitCircuits)
qed

section \<open>Collecting\<close>

text \<open>A finished wait ends in the middle of an exchange: the counts are yet to be read.\<close>

definition waited :: "(string \<Rightarrow> Message \<Rightarrow> bool) \<Rightarrow> nat \<Rightarrow> unit result \<Rightarrow> ('w, 'z) io_scheme \<Rightarrow> ('w, 'z) io_scheme \<Rightarrow> bool" where
  "waited may job r s t \<longleftrightarrow>
     (case r of
        Inl _ \<Rightarrow> converses may s t
      | Inr _ \<Rightarrow> \<exists>u. converses may s u \<and> trace t = trace u @ [FlagRead False, JobWaited job (Inr Done)])"

lemma waited_trans: "converses may s u \<Longrightarrow> waited may job r u t \<Longrightarrow> waited may job r s t"
  unfolding waited_def by (auto split: sum.splits intro: converses_trans)

lemma waitSlice_waits:
  assumes "waitSlice E (terminationRequested E) waitTimeout job began s = (outcome, t)"
  shows "case outcome of None \<Rightarrow> converses may s t | Some r \<Rightarrow> waited may job r s t"
proof -
  obtain b s1 where f: "terminationRequested E s = (b, s1)" by (cases "terminationRequested E s")
  obtain st s2 where w: "ext_call (env_wait E job CollectionSlice) (JobWaited job) s1 = (st, s2)"
    by (cases "ext_call (env_wait E job CollectionSlice) (JobWaited job) s1")
  obtain now s3 where c: "Clock_now E s2 = (now, s3)" by (cases "Clock_now E s2")
  show ?thesis
  proof (cases b)
    case True
    with assms f converses_flag [OF f] show ?thesis by (auto simp: waitSlice_def waited_def)
  next
    case False
    have tr: "trace s2 = trace s @ [FlagRead False, JobWaited job st]"
      using flag_trace [OF f] call_trace [OF w] False by simp
    show ?thesis
    proof (cases "st = Inr Done")
      case True
      with assms f w False have "outcome = Some (Inr ())" "t = s2" by (auto simp: waitSlice_def)
      with tr True show ?thesis unfolding waited_def by auto
    next
      case other: False
      then have s2: "converses may s s2" by (rule converses_exchange [OF tr exchange.waiting])
      with converses_trans [OF s2 converses_clock [OF c]] assms f w c False other show ?thesis
        by (auto simp: waitSlice_def waited_def split: sum.splits if_splits)
    qed
  qed
qed

lemma waitForJob_waits:
  "waitForJob E (terminationRequested E) waitTimeout job began s = Some (r, t) \<Longrightarrow> waited may job r s t"
  by (induction rule: waitForJob_induct) (auto dest!: waitSlice_waits intro: waited_trans)

lemma converses_collectJobs:
  "collectJobs E (terminationRequested E) waitTimeout jobs h s = Some (r, t) \<Longrightarrow> converses may s t"
proof (induction jobs arbitrary: h s)
  case (Cons job jobs)
  obtain began s1 where c: "Clock_now E s = (began, s1)" by (cases "Clock_now E s")
  with Cons.prems obtain wr s2 where w: "waitForJob E (terminationRequested E) waitTimeout job began s1 = Some (wr, s2)"
    by (auto split: option.splits)
  note wait = waited_trans [OF converses_clock [OF c] waitForJob_waits [OF w]]
  obtain cr s3 where r: "ext_call (env_counts E job) (CountsRead job) s2 = (cr, s3)"
    by (cases "ext_call (env_counts E job) (CountsRead job) s2")
  show ?case
  proof (cases wr)
    case (Inl e)
    with Cons.prems c w wait show ?thesis by (auto simp: waited_def)
  next
    case (Inr u)
    with wait obtain v where v: "converses may s v" "trace s2 = trace v @ [FlagRead False, JobWaited job (Inr Done)]"
      by (auto simp: waited_def)
    have "converses may v s3" by (rule converses_exchange [OF _ exchange.reading]) (use v(2) call_trace [OF r] in simp)
    with v(1) have "converses may s s3" by (rule converses_trans)
    with Cons.prems Cons.IH c w r Inr show ?thesis by (auto split: sum.splits intro: converses_trans)
  qed
qed simp

lemma converses_collectQuantumResult:
  "collectQuantumResult E (terminationRequested E) task jobs waitTimeout s = Some (r, t) \<Longrightarrow> converses may s t"
  by (auto simp: collectQuantumResult_def split: option.splits prod.splits sum.splits intro: converses_collectJobs)

lemma converses_executeQuantumTask:
  "executeQuantumTask E (terminationRequested E) task waitTimeout s = Some (r, t) \<Longrightarrow> converses may s t"
  by (auto simp: executeQuantumTask_def split: prod.splits sum.splits
      intro: converses_submitQuantumTask converses_collectQuantumResult converses_trans)

section \<open>Results\<close>

lemma protoCounts_nonnegative:
  assumes "\<forall>(k, v) \<in> set counts. uint v \<le> 2147483647" and "protoCounts counts key = Some n"
  shows "0 \<le> sint n"
proof -
  from assms(2) obtain v where v: "map_of (rev counts) key = Some v" "n = ucast v" by (auto simp: protoCounts_apply)
  then have "(key, v) \<in> set counts" using map_of_SomeD by fastforce
  with assms(1) have "uint v \<le> 2147483647" by auto
  from sint_ucast_count [OF this] v(2) show ?thesis by simp
qed

lemma buildQuantumResult_well_formed:
  assumes "buildQuantumResult task h = Inr res" and "circuit_files task \<noteq> []"
  shows "well_formed_result (result_destination task) res"
proof -
  from assms(1) have res: "destination res = result_destination task" "execution_status res"
    "additional_information res = ''COMPLETED''" "results res = map (\<lambda>counts. protoCounts (the counts)) h"
    and h: "length h = length (circuit_files task)"
      "\<forall>c \<in> set h. \<exists>m. c = Some m \<and> (\<forall>(k, v) \<in> set m. uint v \<le> 2147483647)"
    by (simp_all add: buildQuantumResult_Inr)
  have "0 \<le> sint v" if "counts \<in> set (results res)" "counts key = Some v" for counts key v
    using that h(2) protoCounts_nonnegative unfolding res(4) by fastforce
  moreover have "h \<noteq> []" using h(1) assms(2) by auto
  ultimately show ?thesis using res unfolding well_formed_result_def by auto
qed

lemma cancelQuantumTask_well_formed: "well_formed_result (result_destination task) (cancelQuantumTask task why)"
  by (simp add: well_formed_result_def cancelQuantumTask_def)

lemma collectQuantumResult_well_formed:
  "collectQuantumResult E flag task jobs waitTimeout s = Some (Inr res, t) \<Longrightarrow> circuit_files task \<noteq> [] \<Longrightarrow>
     well_formed_result (result_destination task) res"
  by (auto simp: collectQuantumResult_def split: option.splits prod.splits sum.splits intro: buildQuantumResult_well_formed)

lemma submitQuantumTask_circuits: "submitQuantumTask E flag task s = (Inr jobs, t) \<Longrightarrow> circuit_files task \<noteq> []"
  by (auto simp: submitQuantumTask_def validateSubmission_def split: sum.splits if_splits)

lemma executeQuantumTask_well_formed:
  "executeQuantumTask E flag task waitTimeout s = Some (Inr res, t) \<Longrightarrow> well_formed_result (result_destination task) res"
  by (auto simp: executeQuantumTask_def split: prod.splits sum.splits
      dest: submitQuantumTask_circuits intro: collectQuantumResult_well_formed)

section \<open>Messages\<close>

lemma converses_send: "(\<And>r. exchange may [MessageSent q m r]) \<Longrightarrow> converses may s (send E m q s)"
  using send_spec [of E m q s] converses_exchange by blast

lemma converses_sendFailure: "converses may s (sendFailure E task e s)"
  unfolding sendFailure_def by (intro converses_send exchange.answer cancelQuantumTask_well_formed)

lemma converses_sendResult: "well_formed_result (result_destination task) res \<Longrightarrow> converses may s (sendResult E task res s)"
  unfolding sendResult_def by (intro converses_send exchange.answer)

text \<open>What a poll contributes, with the flag read before it.\<close>

definition poll_exchanges :: "(string \<Rightarrow> Message \<Rightarrow> bool) \<Rightarrow> 'm poll_event \<Rightarrow> bool" where
  "poll_exchanges may ev \<longleftrightarrow>
     (\<forall>q i e. exchange may [FlagRead False, ev q i (Inl e)]) \<and>
     (\<forall>q i m d a. exchange may [FlagRead False, ev q i (Inr (m, d)), DeliveryAcked d a])"

lemma poll_exchanges_simps [simp]: "poll_exchanges may TaskPolled" "poll_exchanges may BackendPolled"
  by (simp_all add: poll_exchanges_def exchange.no_task exchange.task exchange.no_status exchange.status)

lemma converses_receiveStep:
  assumes "poll_exchanges may ev" and "receiveStep E poll ev q timeout (terminationRequested E) s = (r, t)"
  shows "converses may s t"
proof -
  let ?i = "if timeout = WaitForever then DefaultReceiveTimeout else timeout"
  obtain b s1 where f: "terminationRequested E s = (b, s1)" by (cases "terminationRequested E s")
  obtain got s2 where p: "ext_call (poll q ?i) (ev q ?i) s1 = (got, s2)" by (cases "ext_call (poll q ?i) (ev q ?i) s1")
  show ?thesis
  proof (cases b)
    case True
    with assms(2) f converses_flag [OF f] show ?thesis by (auto simp: receiveStep_def Let_def)
  next
    case False
    have tr: "trace s2 = trace s @ [FlagRead False, ev q ?i got]"
      using flag_trace [OF f] call_trace [OF p] False by simp
    show ?thesis
    proof (cases got)
      case (Inl e)
      with assms(2) f p False have "t = s2" by (auto simp: receiveStep_def Let_def split: if_splits)
      moreover have "converses may s s2" using assms(1) Inl by (intro converses_exchange [OF tr]) (simp add: poll_exchanges_def)
      ultimately show ?thesis by simp
    next
      case (Inr x)
      obtain m d where x: "x = (m, d)" by (cases x)
      obtain a s3 where k: "ext_call (env_ack E d) (DeliveryAcked d) s2 = (a, s3)"
        by (cases "ext_call (env_ack E d) (DeliveryAcked d) s2")
      with assms(2) f p False Inr x have t: "t = s3" by (auto simp: receiveStep_def Let_def)
      have "trace t = trace s @ [FlagRead False, ev q ?i (Inr (m, d)), DeliveryAcked d a]"
        using tr call_trace [OF k] Inr x t by simp
      with assms(1) show ?thesis by (intro converses_exchange) (auto simp: poll_exchanges_def)
    qed
  qed
qed

lemma converses_receive:
  assumes "poll_exchanges may ev" and "receive E poll ev q timeout (terminationRequested E) s = Some (r, t)"
  shows "converses may s t"
  using assms(2)
  by (induction rule: receive_induct) (blast intro: converses_receiveStep [OF assms(1)] converses_trans)+

lemma converses_receiveNext:
  assumes "poll_exchanges may ev" and "\<And>m s. converses may s (handle m s)"
    and "receiveNext E poll ev q timeout (terminationRequested E) handle s = Some (b, t)"
  shows "converses may s t"
proof -
  from assms(3) obtain r u where r: "receive E poll ev q timeout (terminationRequested E) s = Some (r, u)"
    and t: "t = u \<or> (\<exists>m. t = handle m u)"
    by (auto simp: receiveNext_def split: option.splits prod.splits sum.splits)
  from converses_receive [OF assms(1) r] t show ?thesis using converses_trans assms(2) by blast
qed

lemma converses_drainQueue:
  assumes "poll_exchanges may ev" and "\<And>m s. converses may s (handle m s)"
    and "drainQueue E poll ev q (terminationRequested E) handle s = Some (b, t)"
  shows "converses may s t"
  using assms(3) unfolding drainQueue_def
proof (induction rule: drainLoop_induct)
  case (stop any s t)
  then show ?case by (rule converses_receiveNext [OF assms(1,2)])
next
  case (step any s u b t)
  from converses_trans [OF converses_receiveNext [OF assms(1,2) step(1)] step(2)] show ?case .
qed

section \<open>Daemon operations\<close>

lemma converses_expire: "converses may s (expireBackends E s)"
  by (auto simp: expireBackends_def split: prod.splits dest: converses_clock)

lemma converses_sleep: "converses may s (sleepFor E ms s)"
  by (rule converses_emits [OF upkeep_sleepFor exchange.upkeep])

lemma converses_open: "openConfiguredDevice E config s = (r, t) \<Longrightarrow> converses may s t"
  by (auto simp: openConfiguredDevice_def Let_def split: prod.splits intro: converses_call exchange.device_open)

lemma converses_initialize:
  assumes "initializeDaemon T F E s = (r, l, t)"
  shows "converses may s t"
proof (cases "loadConfig T F")
  case (Inl e)
  with assms have "t = installTerminationHandlers E s" by (simp add: initializeDaemon_failure)
  moreover have "converses may s (installTerminationHandlers E s)"
    by (rule converses_emits [OF installTerminationHandlers_emits]) (simp add: exchange.startup startup_event_def)
  ultimately show ?thesis by simp
next
  case (Inr config)
  from initializeDaemon_success [OF this, of E s] assms have "emits startup_event s t" by auto
  then show ?thesis by (rule converses_emits) (rule exchange.startup)
qed

section \<open>Monitors\<close>

text \<open>An automaton that reads a trace and stops at the first event it does not allow.\<close>

primrec watch :: "('m \<Rightarrow> event \<Rightarrow> 'm option) \<Rightarrow> 'm \<Rightarrow> event list \<Rightarrow> 'm option" where
  "watch step m [] = Some m"
| "watch step m (e # es) = Option.bind (step m e) (\<lambda>m. watch step m es)"

lemma watch_append: "watch step m (es @ fs) = Option.bind (watch step m es) (\<lambda>m. watch step m fs)"
  by (induction es arbitrary: m) simp_all

lemma watch_split:
  assumes "watch step m (es @ e # fs) = Some m'"
  obtains m1 m2 where "watch step m es = Some m1" "step m1 e = Some m2" "watch step m2 fs = Some m'"
  using assms by (auto simp: watch_append split: Option.bind_splits)

text \<open>A monitor: every exchange takes it from a resting state to a resting state.\<close>

locale monitor =
  fixes step :: "'m \<Rightarrow> event \<Rightarrow> 'm option" and rest :: "'m \<Rightarrow> bool"
  assumes exchange_ok: "exchange may es \<Longrightarrow> rest m \<Longrightarrow> \<exists>m'. watch step m es = Some m' \<and> rest m'"
begin

lemma conversation_ok: "conversation may es \<Longrightarrow> rest m \<Longrightarrow> \<exists>m'. watch step m es = Some m' \<and> rest m'"
proof (induction rule: conversation.induct)
  case (more es fs)
  then obtain m1 where "watch step m es = Some m1" "rest m1" by blast
  with exchange_ok [OF more(2)] show ?case by (simp add: watch_append)
qed simp

end

text \<open>After a shutdown request was read, no work until the flag is read clear.\<close>

fun work_event :: "event \<Rightarrow> bool" where
  "work_event (TaskPolled _ _ _) = True"
| "work_event (BackendPolled _ _ _) = True"
| "work_event (DeliveryAcked _ _) = True"
| "work_event (JobSubmitted _ _ _) = True"
| "work_event (JobWaited _ _) = True"
| "work_event (CountsRead _ _) = True"
| "work_event _ = False"

fun shutdown_step :: "bool \<Rightarrow> event \<Rightarrow> bool option" where
  "shutdown_step clear (FlagRead b) = Some (\<not> b)"
| "shutdown_step clear e = (if work_event e \<and> \<not> clear then None else Some clear)"

text \<open>A delivery is acknowledged before anything else happens; nothing else is acknowledged.\<close>

fun delivery_of :: "event \<Rightarrow> nat option" where
  "delivery_of (TaskPolled _ _ (Inr (_, d))) = Some d"
| "delivery_of (BackendPolled _ _ (Inr (_, d))) = Some d"
| "delivery_of _ = None"

fun delivery_step :: "nat option \<Rightarrow> event \<Rightarrow> nat option option" where
  "delivery_step (Some d) (DeliveryAcked d' a) = (if d' = d then Some None else None)"
| "delivery_step (Some d) e = None"
| "delivery_step None (DeliveryAcked d' a) = None"
| "delivery_step None e = Some (delivery_of e)"

text \<open>
  The counts of a job are read exactly when it was just reported done; a job is cancelled only when a
  shutdown request was just read. The state: the job reported done, and whether jobs may be cancelled.
\<close>

fun job_step :: "nat option \<times> bool \<Rightarrow> event \<Rightarrow> (nat option \<times> bool) option" where
  "job_step (Some j, c) (CountsRead j' r) = (if j' = j then Some (None, False) else None)"
| "job_step (Some j, c) e = None"
| "job_step (None, c) (CountsRead j' r) = None"
| "job_step (None, c) (JobCancelled j r) = (if c then Some (None, c) else None)"
| "job_step (None, c) (FlagRead b) = Some (None, b)"
| "job_step (None, c) (JobWaited j r) = Some (if r = Inr Done then Some j else None, False)"
| "job_step (None, c) e = Some (None, False)"

text \<open>What is sent is well formed.\<close>

fun typed_event :: "event \<Rightarrow> bool" where
  "typed_event (JobSubmitted req p r) = well_formed_request req"
| "typed_event (MessageSent q (ResultMessage res) r) = well_formed_result q res"
| "typed_event _ = True"

definition typed_step :: "unit \<Rightarrow> event \<Rightarrow> unit option" where
  "typed_step m e = (if typed_event e then Some () else None)"

lemma upkeep_steps:
  assumes "upkeep_event e \<or> startup_event e"
  shows "shutdown_step clear e = Some clear" "delivery_step None e = Some None"
    "job_step (None, c) e = Some (None, False)" "typed_event e"
  using assms by (cases e; simp add: startup_event_def)+

lemma watch_cancellations:
  assumes "list_all cancel_event es"
  shows "watch shutdown_step clear es = Some clear" "watch delivery_step None es = Some None"
    "watch job_step (None, True) es = Some (None, True)" "list_all typed_event es"
  using assms by (induction es) (auto elim!: cancel_event.elims)

interpretation shutdown_monitor: monitor shutdown_step "\<lambda>_. True"
  by unfold_locales (erule exchange.cases; simp add: upkeep_steps watch_cancellations ex_bool_eq)

interpretation delivery_monitor: monitor delivery_step "\<lambda>m. m = None"
  by unfold_locales (erule exchange.cases; simp add: upkeep_steps watch_cancellations)

interpretation job_monitor: monitor job_step "\<lambda>m. fst m = None"
  by unfold_locales (erule exchange.cases; auto simp: upkeep_steps watch_cancellations)

lemma watch_typed: "watch typed_step m es \<noteq> None \<longleftrightarrow> list_all typed_event es"
  by (induction es) (auto simp: typed_step_def)

interpretation type_monitor: monitor typed_step "\<lambda>_. True"
proof unfold_locales
  fix may es and m :: unit
  assume "exchange may es"
  then have "list_all typed_event es" by cases (simp_all add: upkeep_steps watch_cancellations)
  then show "\<exists>m'. watch typed_step m es = Some m' \<and> True" using watch_typed by blast
qed

section \<open>What the monitors mean\<close>

lemma shutdown_no_work:
  "watch shutdown_step clear fs \<noteq> None \<Longrightarrow> \<not> clear \<Longrightarrow> FlagRead False \<notin> set fs \<Longrightarrow> \<not> list_ex work_event fs"
proof (induction fs arbitrary: clear)
  case (Cons e fs)
  then show ?case by (cases e) (auto split: Option.bind_splits)
qed simp

lemma conversation_shutdown:
  assumes "conversation may (es @ FlagRead True # fs)" and "FlagRead False \<notin> set fs"
  shows "\<not> list_ex work_event fs"
proof -
  obtain m where "watch shutdown_step True (es @ FlagRead True # fs) = Some m"
    using shutdown_monitor.conversation_ok [OF assms(1)] by blast
  then have "watch shutdown_step False fs = Some m" by (rule watch_split) simp
  with shutdown_no_work assms(2) show ?thesis by blast
qed

lemma delivery_step_outstanding: "delivery_step (Some d) e = Some m \<Longrightarrow> \<exists>a. e = DeliveryAcked d a"
  by (cases e) (auto split: if_splits)

lemma delivery_step_delivered: "delivery_step m e = Some m' \<Longrightarrow> delivery_of e = Some d \<Longrightarrow> m' = Some d"
  by (cases m; cases e) (auto split: if_splits)

lemma delivery_step_taken: "delivery_step m e = Some (Some d) \<Longrightarrow> delivery_of e = Some d"
  by (cases m; cases e) (auto split: if_splits)

lemma conversation_delivery:
  assumes "conversation may (es @ e # fs)"
  shows "delivery_of e = Some d \<Longrightarrow> \<exists>a gs. fs = DeliveryAcked d a # gs"
    and "e = DeliveryAcked d a \<Longrightarrow> \<exists>ds e'. es = ds @ [e'] \<and> delivery_of e' = Some d"
proof -
  obtain m1 m2 where m: "watch delivery_step None es = Some m1" "delivery_step m1 e = Some m2" "watch delivery_step m2 fs = Some None"
    using delivery_monitor.conversation_ok [OF assms] by (auto elim: watch_split)
  show "\<exists>a gs. fs = DeliveryAcked d a # gs" if "delivery_of e = Some d"
    using m(3) delivery_step_delivered [OF m(2) that] delivery_step_outstanding
    by (cases fs) (auto split: Option.bind_splits)
  show "\<exists>ds e'. es = ds @ [e'] \<and> delivery_of e' = Some d" if "e = DeliveryAcked d a"
  proof -
    from m(2) that have "m1 = Some d" by (cases m1) (auto split: if_splits)
    with m(1) show ?thesis
      by (cases es rule: rev_cases) (auto simp: watch_append split: Option.bind_splits dest: delivery_step_taken)
  qed
qed

lemma job_step_reported: "job_step (Some j, c) e = Some m \<Longrightarrow> \<exists>r. e = CountsRead j r"
  by (cases e) (auto split: if_splits)

lemma job_step_done: "job_step m e = Some (Some j, c) \<Longrightarrow> e = JobWaited j (Inr Done)"
  by (cases m; cases "fst m"; cases e) (auto split: if_splits)

lemma job_step_cancelling: "job_step m e = Some (None, True) \<Longrightarrow> e = FlagRead True \<or> (cancel_event e \<and> m = (None, True))"
  by (cases m; cases "fst m"; cases e) (auto split: if_splits)

lemma watch_cancelling:
  "watch job_step (None, False) es = Some (None, True) \<Longrightarrow> \<exists>ds cs. es = ds @ FlagRead True # cs \<and> list_all cancel_event cs"
proof (induction es rule: rev_induct)
  case (snoc e es)
  then obtain m where m: "watch job_step (None, False) es = Some m" "job_step m e = Some (None, True)"
    by (auto simp: watch_append split: Option.bind_splits)
  from job_step_cancelling [OF m(2)] snoc.IH m(1) show ?case
  proof (elim disjE conjE)
    assume "e = FlagRead True"
    then show ?thesis by (intro exI [of _ es] exI [of _ "[]"]) simp
  next
    assume e: "cancel_event e" "m = (None, True)"
    with snoc.IH m(1) obtain ds cs where "es = ds @ FlagRead True # cs" "list_all cancel_event cs" by blast
    with e(1) show ?thesis by (intro exI [of _ ds] exI [of _ "cs @ [e]"]) simp
  qed
qed simp

lemma conversation_jobs:
  assumes "conversation may (es @ e # fs)"
  shows "e = JobWaited j (Inr Done) \<Longrightarrow> \<exists>r gs. fs = CountsRead j r # gs"
    and "e = CountsRead j r \<Longrightarrow> \<exists>ds. es = ds @ [JobWaited j (Inr Done)]"
    and "cancel_event e \<Longrightarrow> \<exists>ds cs. es = ds @ FlagRead True # cs \<and> list_all cancel_event cs"
proof -
  have "\<exists>m'. watch job_step (None, False) (es @ e # fs) = Some m' \<and> fst m' = None"
    using job_monitor.conversation_ok [OF assms] by simp
  then obtain m1 m2 m' where m: "watch job_step (None, False) es = Some m1" "job_step m1 e = Some m2"
    "watch job_step m2 fs = Some m'" "fst m' = None"
    by (auto elim: watch_split)
  show "\<exists>r gs. fs = CountsRead j r # gs" if "e = JobWaited j (Inr Done)"
  proof -
    from m(2) that have "m2 = (Some j, False)" by (cases m1; cases "fst m1") auto
    with m(3,4) show ?thesis by (cases fs) (auto split: Option.bind_splits dest: job_step_reported)
  qed
  show "\<exists>ds. es = ds @ [JobWaited j (Inr Done)]" if "e = CountsRead j r"
  proof -
    from m(2) that obtain c where "m1 = (Some j, c)" by (cases m1; cases "fst m1") (auto split: if_splits)
    with m(1) show ?thesis
      by (cases es rule: rev_cases) (auto simp: watch_append split: Option.bind_splits dest: job_step_done)
  qed
  show "\<exists>ds cs. es = ds @ FlagRead True # cs \<and> list_all cancel_event cs" if "cancel_event e"
  proof -
    from m(2) that have "m1 = (None, True)" by (cases m1; cases "fst m1"; cases e) (auto split: if_splits)
    with m(1) show ?thesis using watch_cancelling by blast
  qed
qed

text \<open>A message sent is a result or one that the role allows.\<close>

lemma conversation_sent:
  "conversation may es \<Longrightarrow> MessageSent q m r \<in> set es \<Longrightarrow> (\<exists>res. m = ResultMessage res) \<or> may q m"
proof (induction rule: conversation.induct)
  case (more es fs)
  have "MessageSent q m r \<in> set fs \<Longrightarrow> (\<exists>res. m = ResultMessage res) \<or> may q m"
    using more(2) by cases (auto simp: list_all_iff startup_event_def)
  with more show ?case by auto
qed simp

lemma conversation_typed: "conversation may es \<Longrightarrow> list_all typed_event es"
  using type_monitor.conversation_ok [of may es "()"] watch_typed [of "()" es] by auto

end
