(* ===== verification/Standalone_App.thy ===== *)
theory Standalone_App
  imports Daemon_Core
begin

text \<open>
  \<open>apps/standalone/main.cpp\<close>: the daemon that selects, compiles, schedules and executes in one process.
  A turn of its loop refreshes and expires the registry, drains the task queue into the scheduler,
  executes every ready task, and sleeps when there was nothing to do.
\<close>

section \<open>Definitions\<close>

text \<open>The handler the task queue is drained into.\<close>

definition standaloneIntake ::
  "'w environment \<Rightarrow> 'c compiler \<Rightarrow> 'q scheduler \<Rightarrow> Config \<Rightarrow> QuantumTask \<Rightarrow>
   ('w, 'c, 'q, 'z) daemon_scheme \<Rightarrow> ('w, 'c, 'q, 'z) daemon_scheme" where
  "standaloneIntake E C Q config task s =
     (case selectCompileAndSchedule C Q (sel_selectionPolicy (cfg_selector config)) task s of
        (Inl e, task, s) \<Rightarrow> sendFailure E task e s
      | (Inr _, _, s) \<Rightarrow> s)"

text \<open>\<open>while (auto nextTask = scheduler.getNextReadyTask())\<close>, with the variable \<open>executedTasks\<close>.\<close>

partial_function (option) executeReady ::
  "'w environment \<Rightarrow> 'q scheduler \<Rightarrow> Config \<Rightarrow> bool \<Rightarrow> ('w, 'c, 'q, 'z) daemon_scheme \<Rightarrow>
   (bool \<times> ('w, 'c, 'q, 'z) daemon_scheme) option" where
  "executeReady E Q config executedTasks s =
     (case getNextReadyTask Q (schedulerState s) of
        (None, q) \<Rightarrow> Some (executedTasks, s\<lparr>schedulerState := q\<rparr>)
      | (Some nextTask, q) \<Rightarrow>
          Option.bind (executeQuantumTask E (terminationRequested E) nextTask
              (sub_jobWaitTimeout (cfg_submitter config)) (s\<lparr>schedulerState := q\<rparr>))
            (\<lambda>(executionResult, s). case executionResult of
                Inr res \<Rightarrow> executeReady E Q config True (sendResult E nextTask res s)
              | Inl e \<Rightarrow>
                  if kind e = ShutdownRequested then Some (True, s)
                  else executeReady E Q config True (sendFailure E nextTask e s)))"

declare executeReady.simps [code]

definition standaloneTurn ::
  "'w environment \<Rightarrow> protocol \<Rightarrow> 'c compiler \<Rightarrow> 'q scheduler \<Rightarrow> Config \<Rightarrow> ('w, 'c, 'q, 'z) daemon_scheme \<Rightarrow>
   ('w, 'c, 'q, 'z) daemon_scheme option" where
  "standaloneTurn E P C Q config s =
     (let s = snd (refreshOwnDeviceStatus E P '''' s);
          s = expireBackends E s
      in Option.bind (drainQueue E (env_receiveTask E) TaskPolled (com_qrmciQueue (cfg_common config))
             (terminationRequested E) (standaloneIntake E C Q config) s)
           (\<lambda>(receivedTasks, s).
              Option.bind (executeReady E Q config False s)
                (\<lambda>(executedTasks, s).
                   Some (if \<not> receivedTasks \<and> \<not> executedTasks
                         then sleepFor E (com_stagePollInterval (cfg_common config)) s else s))))"

text \<open>
  \<open>main\<close>: the exit code and the world and trace left behind. \<open>c\<close> and \<open>q\<close> are a newly constructed compiler
  and an empty priority scheduler.
\<close>

definition standaloneMain ::
  "'n toml \<Rightarrow> 'n platform \<Rightarrow> 'w environment \<Rightarrow> protocol \<Rightarrow> 'c compiler \<Rightarrow> 'q scheduler \<Rightarrow> 'c \<Rightarrow> 'q \<Rightarrow> 'w io \<Rightarrow>
   (exit_code \<times> 'w io) option" where
  "standaloneMain T F E P C Q c q s =
     (case initializeDaemon T F E s of
        (Inl e, _, s) \<Rightarrow> Some (EXIT_FAILURE, s)
      | (Inr config, _, s) \<Rightarrow>
     (case openConfiguredDevice E (cfg_submitter config) s of
        (Inl e, s) \<Rightarrow> Some (EXIT_FAILURE, s)
      | (Inr _, s) \<Rightarrow>
          let sub = cfg_submitter config;
              d = \<lparr>world = world s, trace = trace s,
                   registry = BackendRegistry_new (nanoseconds (reg_entryTimeToLive (sub_backendRegistry sub))),
                   throttle = PublicationThrottle_new (nanoseconds_of_ms (sub_backendStatusPublishInterval sub)),
                   compilerState = c, schedulerState = q\<rparr>
          in case registerOwnDevice E '''' d of
               (Inl e, d) \<Rightarrow> Some (EXIT_FAILURE, \<lparr>world = world d, trace = trace d\<rparr>)
             | (Inr _, d) \<Rightarrow>
                 Option.bind (workLoop E (standaloneTurn E P C Q config) d)
                   (\<lambda>d. Some (EXIT_SUCCESS, \<lparr>world = world d, trace = trace d\<rparr>))))"

section \<open>Lemmas\<close>

lemma settles_standaloneIntake:
  assumes "scheduler_ok Q contents"
  shows "settles answered_ticket (held_tickets contents) {#ticket task#} s (standaloneIntake E C Q config task s)"
proof (cases "chooseBackend (getSupportedInputFormats C) task (registry s) (sel_selectionPolicy (cfg_selector config))")
  case (Inl e)
  then show ?thesis
    using scheduling.failure by (simp add: standaloneIntake_def selectCompileAndSchedule_def)
next
  case (Inr n)
  obtain r task' t where run: "compileAndSchedule C Q (task\<lparr>scheduled_qpu := n\<rparr>) s = (r, task', t)"
    by (cases "compileAndSchedule C Q (task\<lparr>scheduled_qpu := n\<rparr>) s")
  have "standaloneIntake E C Q config task s = (case r of Inl e \<Rightarrow> sendFailure E task' e t | Inr _ \<Rightarrow> t)"
    using Inr run by (cases r) (simp_all add: standaloneIntake_def selectCompileAndSchedule_def)
  with settles_intake [OF assms run, of E] show ?thesis by (simp add: ticket_def)
qed

lemma executeReady_induct [consumes 1, case_names none answered failed shutdown]:
  assumes "executeReady E Q config b s = Some (b', t)"
    and "\<And>b s q. getNextReadyTask Q (schedulerState s) = (None, q) \<Longrightarrow> R b s b (s\<lparr>schedulerState := q\<rparr>)"
    and "\<And>b s q task res u b' t. getNextReadyTask Q (schedulerState s) = (Some task, q) \<Longrightarrow>
        executeQuantumTask E (terminationRequested E) task (sub_jobWaitTimeout (cfg_submitter config)) (s\<lparr>schedulerState := q\<rparr>) =
          Some (Inr res, u) \<Longrightarrow> R True (sendResult E task res u) b' t \<Longrightarrow> R b s b' t"
    and "\<And>b s q task e u b' t. getNextReadyTask Q (schedulerState s) = (Some task, q) \<Longrightarrow>
        executeQuantumTask E (terminationRequested E) task (sub_jobWaitTimeout (cfg_submitter config)) (s\<lparr>schedulerState := q\<rparr>) =
          Some (Inl e, u) \<Longrightarrow> kind e \<noteq> ShutdownRequested \<Longrightarrow> R True (sendFailure E task e u) b' t \<Longrightarrow> R b s b' t"
    and "\<And>b s q task e u. getNextReadyTask Q (schedulerState s) = (Some task, q) \<Longrightarrow>
        executeQuantumTask E (terminationRequested E) task (sub_jobWaitTimeout (cfg_submitter config)) (s\<lparr>schedulerState := q\<rparr>) =
          Some (Inl e, u) \<Longrightarrow> kind e = ShutdownRequested \<Longrightarrow> R b s True u"
  shows "R b s b' t"
proof -
  let ?X = "\<lambda>E' Q' config' b s y. E' = E \<and> Q' = Q \<and> config' = config \<longrightarrow> R b s (fst y) (snd y)"
  have "?X E Q config b s (b', t)"
    by (rule executeReady.raw_induct [where P = ?X, OF _ assms(1)])
      (auto split: prod.splits option.splits Option.bind_splits sum.splits if_splits, (blast intro: assms(2-5))+)
  then show ?thesis by simp
qed


lemma settles_executeReady:
  assumes "scheduler_ok Q contents" and "executeReady E Q config b s = Some (b', t)"
  shows "settles answered_ticket (held_tickets contents) {#} s t"
  using assms(2)
proof (induction rule: executeReady_induct)
  case (none b s q)
  then show ?case by (rule settles_none [OF assms(1)])
next
  case (answered b s q task res u b' t)
  have "settles answered_ticket (held_tickets contents) {#} (s\<lparr>schedulerState := q\<rparr>) u"
    using silent_executeQuantumTask [OF flag_ok_terminationRequested answered(2)] by (rule scheduling.silent)
  from settles_trans [OF settles_trans [OF this scheduling.success [OF executeQuantumTask_id [OF answered(2)]]] answered(3)]
  show ?case by (intro settles_next [OF assms(1) answered(1)]) simp
next
  case (failed b s q task e u b' t)
  have "settles answered_ticket (held_tickets contents) {#} (s\<lparr>schedulerState := q\<rparr>) u"
    using silent_executeQuantumTask [OF flag_ok_terminationRequested failed(2)] by (rule scheduling.silent)
  from settles_trans [OF settles_trans [OF this scheduling.failure] failed(4)]
  show ?case by (intro settles_next [OF assms(1) failed(1)]) simp
next
  case (shutdown b s q task e u)
  show ?case
    by (rule settles_next [OF assms(1) shutdown(1)], rule settles_abandoned)
      (use silent_executeQuantumTask [OF flag_ok_terminationRequested shutdown(2)]
        executeQuantumTask_shutdown_flag [OF shutdown(2,3)] in simp_all)
qed

text \<open>A turn, taken apart at its stages.\<close>

lemma standaloneTurn_stages:
  assumes "standaloneTurn E P C Q config s = Some t"
  obtains s1 received s2 executed s3 where
    "housekept s s1"
    "drainQueue E (env_receiveTask E) TaskPolled (com_qrmciQueue (cfg_common config)) (terminationRequested E)
       (standaloneIntake E C Q config) s1 = Some (received, s2)"
    "executeReady E Q config False s2 = Some (executed, s3)"
    "housekept s3 t"
proof -
  let ?s1 = "expireBackends E (snd (refreshOwnDeviceStatus E P '''' s))"
  have "housekept s ?s1"
    using housekept_refresh [of E P "''''" s] housekept_expire housekept_trans by (metis prod.collapse)
  moreover from assms obtain received s2 executed s3 where
    "drainQueue E (env_receiveTask E) TaskPolled (com_qrmciQueue (cfg_common config)) (terminationRequested E)
       (standaloneIntake E C Q config) ?s1 = Some (received, s2)"
    "executeReady E Q config False s2 = Some (executed, s3)"
    "t = (if \<not> received \<and> \<not> executed then sleepFor E (com_stagePollInterval (cfg_common config)) s3 else s3)"
    unfolding standaloneTurn_def Let_def by (auto split: Option.bind_splits)
  moreover from this(3) have "housekept s3 t" using housekept_upkeep [OF upkeep_sleepFor] housekept_upkeep [OF emits_refl] by auto
  ultimately show thesis using that by blast
qed

lemma settles_standaloneTurn:
  assumes "scheduler_ok Q contents" and "standaloneTurn E P C Q config s = Some t"
  shows "settles answered_ticket (held_tickets contents) {#} s t"
  using assms(2)
proof (rule standaloneTurn_stages)
  fix s1 received s2 executed s3
  assume a: "housekept s s1" and d: "drainQueue E (env_receiveTask E) TaskPolled (com_qrmciQueue (cfg_common config))
       (terminationRequested E) (standaloneIntake E C Q config) s1 = Some (received, s2)"
    and x: "executeReady E Q config False s2 = Some (executed, s3)" and z: "housekept s3 t"
  note settles_housekept [OF a, of contents]
  also note scheduling.all_tasks [OF flag_ok_terminationRequested settles_standaloneIntake [OF assms(1)] d]
  finally (settles_trans) show ?thesis
    using settles_trans [OF _ settles_trans [OF settles_executeReady [OF assms(1) x] settles_housekept [OF z, of contents]]]
    by fastforce
qed

text \<open>The standalone daemon keeps the books over its whole run.\<close>

interpretation standalone: work_loop E "standaloneTurn E P C Q config" "books_kept Q contents"
  for E P C Q config contents
  by unfold_locales (rule books_kept_refl, erule (1) books_kept_trans, erule books_kept_flag,
      simp add: books_kept_def settles_standaloneTurn)

text \<open>Without a shutdown request the execution loop empties an eager scheduler.\<close>

lemma executeReady_exhausts:
  assumes "scheduler_eager Q contents" and "executeReady E Q config b s = Some (b', t)"
  shows "\<exists>es. trace t = trace s @ es \<and> (FlagRead True \<notin> set es \<longrightarrow> contents (schedulerState t) = {#})"
  using assms(2)
proof (induction rule: executeReady_induct)
  case (none b s q)
  then show ?case using assms(1) by (auto simp: scheduler_eager_def)
next
  case (answered b s q task res u b' t)
  from io_extends_trace [OF silent_extends [OF silent_executeQuantumTask [OF flag_ok_terminationRequested answered(2)]]]
    send_spec [of E "ResultMessage res" "result_destination task" u]
  have "\<exists>es. trace (sendResult E task res u) = trace s @ es" by (auto simp: sendResult_def)
  with answered(3) show ?case by auto
next
  case (failed b s q task e u b' t)
  from io_extends_trace [OF silent_extends [OF silent_executeQuantumTask [OF flag_ok_terminationRequested failed(2)]]]
    send_spec [of E "ResultMessage (cancelQuantumTask task (detail e))" "result_destination task" u]
  have "\<exists>es. trace (sendFailure E task e u) = trace s @ es" by (auto simp: sendFailure_def)
  with failed(4) show ?case by auto
next
  case (shutdown b s q task e u)
  with executeQuantumTask_shutdown_flag [OF shutdown(2,3)]
    io_extends_trace [OF silent_extends [OF silent_executeQuantumTask [OF flag_ok_terminationRequested shutdown(2)]]]
  show ?case by auto
qed

lemma executeReady_returns:
  assumes "scheduler_ok Q contents" and "steady_env E clock"
    and "0 < sub_jobWaitTimeout (cfg_submitter config)" and "fits64 (sub_jobWaitTimeout (cfg_submitter config) * 1000000000)"
  shows "\<exists>b' t. executeReady E Q config b s = Some (b', t)"
proof (induction "size (contents (schedulerState s))" arbitrary: b s rule: less_induct)
  case less
  obtain nextTask q where n: "getNextReadyTask Q (schedulerState s) = (nextTask, q)" by (cases "getNextReadyTask Q (schedulerState s)")
  show ?case
  proof (cases nextTask)
    case None
    with n show ?thesis by (subst executeReady.simps) simp
  next
    case (Some task)
    obtain r u where x: "executeQuantumTask E (terminationRequested E) task (sub_jobWaitTimeout (cfg_submitter config))
        (s\<lparr>schedulerState := q\<rparr>) = Some (r, u)"
      using executeQuantumTask_bounded [OF flag_ok_terminationRequested assms(2)
          flag_steady_terminationRequested [OF assms(2)] assms(3,4)] by blast
    from daemon_frame(4) [OF silent_extends [OF silent_executeQuantumTask [OF flag_ok_terminationRequested x]]]
    have "schedulerState u = q" by simp
    then have "size (contents (schedulerState (sendResult E task res u))) < size (contents (schedulerState s))"
      "size (contents (schedulerState (sendFailure E task e u))) < size (contents (schedulerState s))" for res e
      using assms(1) n Some by (simp_all add: scheduler_ok_def)
    with less n Some x show ?thesis
      by (subst executeReady.simps) (auto split: sum.splits)
  qed
qed

lemma standaloneIntake_backlog:
  assumes "finite_backlog E backlog"
  shows "backlog (world (standaloneIntake E C Q config task s)) \<le> backlog (world s)"
proof -
  obtain r task' t where run: "selectCompileAndSchedule C Q (sel_selectionPolicy (cfg_selector config)) task s = (r, task', t)"
    by (cases "selectCompileAndSchedule C Q (sel_selectionPolicy (cfg_selector config)) task s")
  then have "world t = world s"
    by (auto simp: selectCompileAndSchedule_def compileAndSchedule_def Let_def
        split: sum.splits option.splits prod.splits)
  moreover have "backlog (world (sendFailure E task' e t)) \<le> backlog (world t)" for e
    unfolding sendFailure_def by (rule send_backlog [OF assms])
  ultimately show ?thesis using run by (cases r) (simp_all add: standaloneIntake_def)
qed

section \<open>Properties\<close>


text \<open>A daemon with one task waiting in its queue.\<close>

definition one_task_env :: "nat environment" where
  "one_task_env = sample_env\<lparr>env_receiveTask := (\<lambda>_ _ w.
     if w < 4 then (Inr (sample_quake_task\<lparr>circuit_files := [''b'']\<rparr>, w), 4 + w) else (Inl \<lparr>status_code = StatusTimeout, reason = ''empty''\<rparr>, w))\<rparr>"

lemma sample_standalone_turn:
  "case standaloneTurn one_task_env sample_protocol sample_compiler sample_scheduler sample_config sample_daemon of
     None \<Rightarrow> False | Some t \<Rightarrow> no_shutdown (trace t)"
  by code_simp


text \<open>Over any number of turns the standalone daemon answers each task at most once and answers
  only tasks it received: the answers sent, together with the tasks still scheduled, are among the
  tasks received and those scheduled at the start. Nothing is missing from them unless a shutdown
  request was seen.\<close>

theorem standalone_run_accounts:
  assumes "scheduler_ok Q contents" and "turns E (standaloneTurn E P C Q config) s t"
  shows "tally answered_ticket (new_events s t) + image_mset ticket (contents (schedulerState t)) \<subseteq>#
      tally received_ticket (new_events s t) + image_mset ticket (contents (schedulerState s)) \<and>
    (FlagRead True \<notin> set (new_events s t) \<longrightarrow>
      tally answered_ticket (new_events s t) + image_mset ticket (contents (schedulerState t)) =
      tally received_ticket (new_events s t) + image_mset ticket (contents (schedulerState s)))"
proof -
  from standalone.reached [OF assms(2), of contents] assms(1)
  have "settles answered_ticket (held_tickets contents) {#} s t" by (simp add: books_kept_def)
  from settles_books [OF this] show ?thesis by (simp add: held_tickets_def)
qed

text \<open>The loop that receives and executes one task.\<close>

lemma sample_standalone_again:
  "case standaloneTurn one_task_env sample_protocol sample_compiler sample_scheduler sample_config
      (snd (terminationRequested one_task_env sample_daemon)) of
     None \<Rightarrow> False | Some t \<Rightarrow> no_shutdown (trace t) \<and> schedulerState t = []"
  by code_simp

theorem standalone_run_accounts_witness:
  "\<exists>t. turns one_task_env (standaloneTurn one_task_env sample_protocol sample_compiler sample_scheduler sample_config)
      sample_daemon t \<and> tally answered_ticket (trace t) = tally received_ticket (trace t)"
proof -
  let ?turn = "standaloneTurn one_task_env sample_protocol sample_compiler sample_scheduler sample_config"
  obtain t where turn: "?turn (snd (terminationRequested one_task_env sample_daemon)) = Some t"
    and t: "no_shutdown (trace t)" "schedulerState t = []" using sample_standalone_again by (auto split: option.splits)
  have "terminationRequested one_task_env sample_daemon = (False, snd (terminationRequested one_task_env sample_daemon))"
    by (simp add: terminationRequested_def ext_call_def one_task_env_def sample_env_def)
  with turn have run: "turns one_task_env ?turn sample_daemon t" by (blast intro: turns.intros)
  have ev: "new_events sample_daemon t = trace t" and none: "schedulerState sample_daemon = []"
    by (simp_all add: new_events_def sample_daemon_def)
  have "FlagRead True \<notin> set (trace t)" using t(1) by (auto simp: no_shutdown_def list_all_iff)
  with standalone_run_accounts [OF sample_scheduler_ok run] run none t(2) show ?thesis by (auto simp: ev)
qed

text \<open>Every turn of the standalone daemon ends: with finitely many tasks waiting in its queue, a job
  timeout set (and representable in nanoseconds), a device whose timed-out waits last as long as asked
  and a scheduler that keeps its promise, the drain and the execution of every task return, whatever the
  compiler and the jobs do.\<close>

theorem standaloneTurn_returns:
  assumes "finite_backlog E backlog" and "scheduler_ok Q contents" and "steady_env E clock"
    and "0 < sub_jobWaitTimeout (cfg_submitter config)" and "fits64 (sub_jobWaitTimeout (cfg_submitter config) * 1000000000)"
  shows "\<exists>t. standaloneTurn E P C Q config s = Some t"
proof -
  let ?s1 = "expireBackends E (snd (refreshOwnDeviceStatus E P '''' s))"
  have "drains backlog (env_receiveTask E)" using assms(1) by (simp add: finite_backlog_def)
  then have "\<exists>r s2. drainQueue E (env_receiveTask E) TaskPolled (com_qrmciQueue (cfg_common config)) (terminationRequested E)
      (standaloneIntake E C Q config) ?s1 = Some (r, s2)"
    by (rule drainQueue_returns [OF _ assms(1)]) (rule standaloneIntake_backlog [OF assms(1)])
  then obtain r s2 where d: "drainQueue E (env_receiveTask E) TaskPolled (com_qrmciQueue (cfg_common config))
      (terminationRequested E) (standaloneIntake E C Q config) ?s1 = Some (r, s2)" by blast
  obtain b s3 where "executeReady E Q config False s2 = Some (b, s3)" using executeReady_returns [OF assms(2-5)] by blast
  with d show ?thesis by (simp add: standaloneTurn_def Let_def)
qed

text \<open>A daemon with tasks scheduled and one waiting, on a device whose jobs never finish.\<close>

definition stuck_daemon_env :: "nat environment" where
  "stuck_daemon_env = stuck_env\<lparr>env_receiveTask := (\<lambda>_ _ w.
     if w < 4 then (Inr (sample_task, w), 4 + w) else (Inl \<lparr>status_code = StatusTimeout, reason = ''empty''\<rparr>, w))\<rparr>"

theorem standaloneTurn_returns_witness:
  "\<exists>t. standaloneTurn stuck_daemon_env sample_protocol sample_compiler sample_scheduler sample_config
     (sample_daemon\<lparr>schedulerState := [sample_task, sample_task]\<rparr>) = Some t"
proof (rule standaloneTurn_returns [OF _ sample_scheduler_ok])
  show "finite_backlog stuck_daemon_env (\<lambda>w. if w < 4 then 1 else 0)"
    by (auto simp: finite_backlog_def drains_def stuck_daemon_env_def stuck_env_def sample_env_def has_value_iff)
  show "steady_env stuck_daemon_env (\<lambda>w. int w * 1000000000)"
    using stuck_env_steady by (simp add: steady_env_def stuck_daemon_env_def)
qed (simp_all add: sample_config_def fits64_def)

text \<open>C34: No turn of the standalone daemon hangs, and a daemon asked to stop exits. With finitely many tasks
  waiting in its queue, a job timeout set (and representable in nanoseconds), a device whose timed-out
  waits last as long as asked and a scheduler that keeps its promise, any number of turns can be taken,
  whatever the compiler and the jobs do; and if the termination flag is set by the time they are over,
  the whole loop ends, with a shutdown request as the last thing read.\<close>

theorem standalone_exits_when_asked:
  assumes "finite_backlog E backlog" and "scheduler_ok Q contents" and "steady_env E clock"
    and "0 < sub_jobWaitTimeout (cfg_submitter config)" and "fits64 (sub_jobWaitTimeout (cfg_submitter config) * 1000000000)"
  shows "(\<exists>t. after_turns E (standaloneTurn E P C Q config) n s = Some t) \<and>
    (asked_after E (standaloneTurn E P C Q config) n s \<longrightarrow>
      (\<exists>t. workLoop E (standaloneTurn E P C Q config) s = Some t \<and> last (trace t) = FlagRead True))"
proof
  show "\<exists>t. after_turns E (standaloneTurn E P C Q config) n s = Some t"
    by (rule after_turns_returns) (rule standaloneTurn_returns [OF assms])
  show "asked_after E (standaloneTurn E P C Q config) n s \<longrightarrow>
      (\<exists>t. workLoop E (standaloneTurn E P C Q config) s = Some t \<and> last (trace t) = FlagRead True)"
    using workLoop_ends workLoop_ends_on_request by blast
qed

lemma sample_standalone_asked:
  "asked_after interrupted_env (standaloneTurn interrupted_env sample_protocol sample_compiler sample_scheduler sample_config) 1
     sample_daemon"
  by code_simp

theorem standalone_exits_when_asked_witness:
  "\<exists>t. workLoop interrupted_env (standaloneTurn interrupted_env sample_protocol sample_compiler sample_scheduler sample_config)
     sample_daemon = Some t \<and> last (trace t) = FlagRead True"
proof -
  have "0 < sub_jobWaitTimeout (cfg_submitter sample_config)" "fits64 (sub_jobWaitTimeout (cfg_submitter sample_config) * 1000000000)"
    by (simp_all add: sample_config_def fits64_def)
  from standalone_exits_when_asked [OF interrupted_env_backlog sample_scheduler_ok interrupted_env_steady this] sample_standalone_asked
  show ?thesis by blast
qed

lemma standaloneMain_eq:
  "standaloneMain T F E P C Q c q s = deviceMain T F E (\<lambda>_. '''') (standaloneTurn E P C Q) c q s"
  unfolding standaloneMain_def deviceMain_def newDaemon_def Let_def by (rule refl)

text \<open>A standalone daemon that cannot start (no valid configuration, no device, or a device that
  cannot be read) exits with the failure code without having touched the broker: no task is taken
  from a queue and nothing is sent. It exits with the success code only by a shutdown request read at
  the head of its loop, which it entered with its device registered, the registry and the publication
  throttle set up from the configuration, and the broker untouched.\<close>

theorem standaloneMain_starts_clean:
  assumes "standaloneMain T F E P C Q c q s = Some (rc, t)"
  shows "(rc = EXIT_FAILURE \<longrightarrow> silent s t) \<and>
    (rc = EXIT_SUCCESS \<longrightarrow>
       (\<exists>config d u. loadConfig T F = Inr config \<and> started E '''' config s q d \<and>
          turns E (standaloneTurn E P C Q config) d u \<and> trace t = trace u @ [FlagRead True]))"
  using deviceMain_outcome [OF assms [unfolded standaloneMain_eq]] .

theorem standaloneMain_starts_clean_witness:
  "\<exists>t. standaloneMain sample_toml (sample_platform sample_environment (Some sample_document)) halted_env sample_protocol
       sample_compiler sample_scheduler () [] sample_io = Some (EXIT_SUCCESS, t) \<and> last (trace t) = FlagRead True"
proof -
  let ?F = "sample_platform sample_environment (Some sample_document)"
  obtain config where "loadConfig sample_toml ?F = Inr config" using sample_load by blast
  from initializeDaemon_success [OF this, of halted_env sample_io] obtain l s0 where
    "initializeDaemon sample_toml ?F halted_env sample_io = (Inr config, Some l, s0)" .
  then obtain t where run: "standaloneMain sample_toml ?F halted_env sample_protocol sample_compiler sample_scheduler () [] sample_io =
      Some (EXIT_SUCCESS, t)"
    by (simp add: standaloneMain_def openConfiguredDevice_def registerOwnDevice_def fromSubmitter_def
        readCouplingMap_def ext_call_def Clock_now_def halted_env_def sample_env_def workLoop.simps terminationRequested_def)
  with standaloneMain_starts_clean [OF run] show ?thesis by auto
qed

end
