(* ===== verification/Selector_App.thy ===== *)
theory Selector_App
  imports Daemon_Core
begin

text \<open>
  \<open>apps/distributed/selector/main.cpp\<close>: the stage that assigns tasks to backends. A turn of its loop
  drains the status queue into the registry, expires stale entries, drains the task queue, forwarding
  each task to the dispatch queue of the backend chosen for it or answering it with a failure, and
  sleeps when no task came. The selector owns no device: its state is a \<open>node\<close>.
\<close>

section \<open>Definitions\<close>

text \<open>The handler the status queue is drained into. The result of \<open>insertOrRefresh\<close> is only logged.\<close>

definition selectorStatus ::
  "'w environment \<Rightarrow> protocol \<Rightarrow> Backend \<Rightarrow> ('w, 'z) node_scheme \<Rightarrow> ('w, 'z) node_scheme" where
  "selectorStatus E P status s =
     (case fromPublishedStatus P status of
        Inl e \<Rightarrow> s
      | Inr backend \<Rightarrow>
          let (now, s) = Clock_now E s
          in s\<lparr>registry := snd (insertOrRefresh backend now (registry s))\<rparr>)"

text \<open>The handler the task queue is drained into.\<close>

definition selectorTask ::
  "'w environment \<Rightarrow> 'c compiler \<Rightarrow> Config \<Rightarrow> QuantumTask \<Rightarrow> ('w, 'z) node_scheme \<Rightarrow> ('w, 'z) node_scheme" where
  "selectorTask E C config task s =
     (case chooseBackend (getSupportedInputFormats C) task (registry s) (sel_selectionPolicy (cfg_selector config)) of
        Inl e \<Rightarrow> sendFailure E task e s
      | Inr backendName \<Rightarrow>
     (case registry_find (registry s) backendName of
        None \<Rightarrow>
          sendFailure E task
            (mk_error NoBackendAvailable (''Backend '' @ quoted backendName @ '' is no longer registered.'')) s
      | Some backend \<Rightarrow>
          send E (TaskMessage (task\<lparr>scheduled_qpu := backendName\<rparr>)) (bw_queueName backend) s))"

definition selectorTurn ::
  "'w environment \<Rightarrow> protocol \<Rightarrow> 'c compiler \<Rightarrow> Config \<Rightarrow> ('w, 'z) node_scheme \<Rightarrow> ('w, 'z) node_scheme option" where
  "selectorTurn E P C config s =
     Option.bind (drainQueue E (env_receiveBackend E) BackendPolled (sel_backendStatusQueue (cfg_selector config))
         (terminationRequested E) (selectorStatus E P) s)
       (\<lambda>(_, s). let s = expireBackends E s in
          Option.bind (drainQueue E (env_receiveTask E) TaskPolled (com_qrmciQueue (cfg_common config))
              (terminationRequested E) (selectorTask E C config) s)
            (\<lambda>(receivedTasks, s).
               Some (if \<not> receivedTasks then sleepFor E (com_stagePollInterval (cfg_common config)) s else s)))"

definition selectorMain ::
  "'n toml \<Rightarrow> 'n platform \<Rightarrow> 'w environment \<Rightarrow> protocol \<Rightarrow> 'c compiler \<Rightarrow> 'w io \<Rightarrow> (exit_code \<times> 'w io) option" where
  "selectorMain T F E P C s =
     (case initializeDaemon T F E s of
        (Inl e, _, s) \<Rightarrow> Some (EXIT_FAILURE, s)
      | (Inr config, _, s) \<Rightarrow>
          let n = \<lparr>world = world s, trace = trace s,
                   registry = BackendRegistry_new (nanoseconds (reg_entryTimeToLive (sel_backendRegistry (cfg_selector config))))\<rparr>
          in Option.bind (workLoop E (selectorTurn E P C config) n)
               (\<lambda>n. Some (EXIT_SUCCESS, \<lparr>world = world n, trace = trace n\<rparr>)))"

section \<open>What the selector promises\<close>

text \<open>A snapshot that a worker announced: some status message received earlier describes it.\<close>

definition announced :: "protocol \<Rightarrow> event list \<Rightarrow> BackendWrapper \<Rightarrow> bool" where
  "announced P es b \<longleftrightarrow>
     (\<exists>q i status d. BackendPolled q i (Inr (status, d)) \<in> set es \<and> fromPublishedStatus P status = Inr b)"

text \<open>
  A task forwarded in a proper way, the events \<open>es\<close> having come before: it is a task received, but for
  the backend it now names, and it is sent to the dispatch queue of that backend, which was announced, is
  online and can run the task.
\<close>

definition well_routed :: "protocol \<Rightarrow> string list \<Rightarrow> event list \<Rightarrow> string \<Rightarrow> QuantumTask \<Rightarrow> bool" where
  "well_routed P sif es q task \<longleftrightarrow>
     (\<exists>b. announced P es b \<and> bw_name b = scheduled_qpu task \<and> bw_queueName b = q \<and> q \<noteq> '''' \<and>
        isOnline b \<and> canRun sif b task) \<and>
     (\<exists>p i received d. TaskPolled p i (Inr (received, d)) \<in> set es \<and>
        task = received\<lparr>scheduled_qpu := scheduled_qpu task\<rparr>)"

definition routed :: "protocol \<Rightarrow> string list \<Rightarrow> event list \<Rightarrow> bool" where
  "routed P sif tr \<longleftrightarrow>
     (\<forall>es q task r fs. tr = es @ MessageSent q (TaskMessage task) r # fs \<longrightarrow> well_routed P sif es q task)"

lemma routed_Nil [simp]: "routed P sif []"
  by (simp add: routed_def)

lemma routed_snoc:
  "routed P sif (tr @ [e]) \<longleftrightarrow>
     routed P sif tr \<and> (\<forall>q task r. e = MessageSent q (TaskMessage task) r \<longrightarrow> well_routed P sif tr q task)"
proof (intro iffI conjI allI impI)
  assume "routed P sif (tr @ [e])"
  then show "routed P sif tr" unfolding routed_def by (metis append.assoc append_Cons)
  show "well_routed P sif tr q task" if "e = MessageSent q (TaskMessage task) r" for q task r
    using \<open>routed P sif (tr @ [e])\<close> that unfolding routed_def by blast
next
  assume a: "routed P sif tr \<and> (\<forall>q task r. e = MessageSent q (TaskMessage task) r \<longrightarrow> well_routed P sif tr q task)"
  show "routed P sif (tr @ [e])" unfolding routed_def
  proof (intro allI impI)
    fix es q task r fs
    assume eq: "tr @ [e] = es @ MessageSent q (TaskMessage task) r # fs"
    show "well_routed P sif es q task"
    proof (cases fs rule: rev_cases)
      case Nil
      with eq a show ?thesis by simp
    next
      case (snoc gs g)
      with eq have "tr = es @ MessageSent q (TaskMessage task) r # gs" by simp
      with a show ?thesis unfolding routed_def by blast
    qed
  qed
qed

lemma routed_append:
  assumes "routed P sif tr" and "\<And>q task r. MessageSent q (TaskMessage task) r \<notin> set es"
  shows "routed P sif (tr @ es)"
  using assms(2)
proof (induction es rule: rev_induct)
  case (snoc e es)
  then show ?case unfolding append.assoc [symmetric] routed_snoc by auto
qed (simp add: assms(1))

lemma announced_append [simp]: "announced P es b \<Longrightarrow> announced P (es @ fs) b"
  by (auto simp: announced_def)

text \<open>
  The invariant: the registry is well formed and holds announced snapshots only, every forwarded task
  was forwarded properly, and every task received was answered or forwarded, once.
\<close>

definition selector_inv :: "protocol \<Rightarrow> string list \<Rightarrow> ('w, 'z) node_scheme \<Rightarrow> bool" where
  "selector_inv P sif s \<longleftrightarrow>
     registry_wf (registry s) \<and>
     (\<forall>n b. registry_find (registry s) n = Some b \<longrightarrow> announced P (trace s) b) \<and>
     routed P sif (trace s) \<and>
     tally answered_or_forwarded (trace s) = tally received_ticket (trace s)"

text \<open>Steps that neither receive nor send.\<close>

lemma selector_inv_quiet:
  assumes "selector_inv P sif s" and "trace t = trace s @ es" and "registry t = registry s"
    and "\<And>e. e \<in> set es \<Longrightarrow> received_ticket e = None \<and> answered_or_forwarded e = None"
  shows "selector_inv P sif t"
proof -
  have "MessageSent q (TaskMessage task) r \<notin> set es" for q task r
    using assms(4) [of "MessageSent q (TaskMessage task) r"] by (auto simp: answered_or_forwarded_def)
  moreover have "tally received_ticket es = {#}" "tally answered_or_forwarded es = {#}"
    using assms(4) by (simp_all add: tally_none)
  ultimately show ?thesis
    using assms(1-3) routed_append [of P sif "trace s" es] by (auto simp: selector_inv_def)
qed

lemma selector_inv_silent:
  assumes "selector_inv P sif s" and "silent s t"
  shows "selector_inv P sif t"
proof (rule selector_inv_quiet [OF assms(1) io_extends_trace [OF silent_extends [OF assms(2)]]
      node_frame [OF silent_extends [OF assms(2)]]])
  fix e
  assume "e \<in> set (new_events s t)"
  with assms(2) show "received_ticket e = None \<and> answered_or_forwarded e = None"
    by (cases e) (auto simp: silent_def answered_or_forwarded_def)
qed

lemma selector_inv_idle:
  assumes "selector_inv P sif s" and "emits idle_event s t"
  shows "selector_inv P sif t"
  using selector_inv_quiet [OF assms(1) io_extends_trace node_frame] forwarding.idle_events assms(2)
  by (auto simp: emits_def list_all_iff)

text \<open>The registry may change to one that holds fewer snapshots, or one more that was announced.\<close>

lemma selector_inv_registry:
  assumes "selector_inv P sif s" and "registry_wf r"
    and "\<And>n b. registry_find r n = Some b \<Longrightarrow> registry_find (registry s) n = Some b \<or> announced P (trace s) b"
  shows "selector_inv P sif (s\<lparr>registry := r\<rparr>)"
  using assms by (auto simp: selector_inv_def)

lemma selector_inv_expire:
  assumes "selector_inv P sif s"
  shows "selector_inv P sif (expireBackends E s)"
proof -
  obtain now u where c: "Clock_now E s = (now, u)" by (cases "Clock_now E s")
  note inv = selector_inv_silent [OF assms silent_Clock_now [OF c]]
  then have wf: "registry_wf (registry u)" by (simp add: selector_inv_def)
  show ?thesis unfolding expireBackends_def c
    by (simp, rule selector_inv_registry [OF inv])
      (use wf in \<open>auto simp: registry_simps spec_expire_def split: option.splits if_splits\<close>)
qed

lemma selector_inv_status:
  assumes "selector_inv P sif s" and "io_extends s t"
    and "receive_outcome BackendPolled q (Some (Inr (Some status))) (new_events s t)"
  shows "selector_inv P sif (selectorStatus E P status t)"
proof -
  from assms(3) obtain idle i d a where es: "list_all idle_event idle"
    "new_events s t = idle @ [BackendPolled q i (Inr (status, d)), DeliveryAcked d a]" by (auto simp: receive_outcome_def)
  have t: "selector_inv P sif t"
    by (rule selector_inv_quiet [OF assms(1) io_extends_trace [OF assms(2)] node_frame [OF assms(2)]])
      (use es forwarding.idle_events in \<open>auto simp: list_all_iff answered_or_forwarded_def\<close>)
  have got: "BackendPolled q i (Inr (status, d)) \<in> set (trace t)"
    using io_extends_trace [OF assms(2)] es(2) by simp
  show ?thesis
  proof (cases "fromPublishedStatus P status")
    case (Inl e)
    with t show ?thesis by (simp add: selectorStatus_def)
  next
    case (Inr b)
    obtain now u where c: "Clock_now E t = (now, u)" by (cases "Clock_now E t")
    note inv = selector_inv_silent [OF t silent_Clock_now [OF c]]
    have "announced P (trace u) b"
      using got Inr io_extends_trace [OF silent_extends [OF silent_Clock_now [OF c]]] by (auto simp: announced_def)
    moreover have "registry_wf (registry u)" using inv by (simp add: selector_inv_def)
    ultimately have "selector_inv P sif (u\<lparr>registry := snd (insertOrRefresh b now (registry u))\<rparr>)"
      by (intro selector_inv_registry [OF inv])
        (auto simp: registry_simps spec_insert_apply split: if_splits)
    with Inr c show ?thesis by (simp add: selectorStatus_def)
  qed
qed

lemma announced_routing: "announced P es b \<Longrightarrow> bw_queueName b \<noteq> ''''"
  using fromPublishedStatus_routing by (auto simp: announced_def)

text \<open>Receiving a task and settling it with one message.\<close>

lemma selector_inv_settled:
  assumes "selector_inv P sif s" and "io_extends s t"
    and "receive_outcome TaskPolled q (Some (Inr (Some task))) (new_events s t)"
    and "answered_or_forwarded (MessageSent q' m ok) = Some (ticket task)"
    and "\<And>task'. m = TaskMessage task' \<Longrightarrow> well_routed P sif (trace t) q' task'"
    and "trace u = trace t @ [MessageSent q' m ok]" and "registry u = registry t"
  shows "selector_inv P sif u"
proof -
  let ?es = "new_events s t"
  note tr = io_extends_trace [OF assms(2)] and books = forwarding.received_task [OF assms(3)]
  have "MessageSent p (TaskMessage x) r \<notin> set ?es" for p x r
    using assms(3) by (fastforce simp: receive_outcome_def list_all_iff)
  with assms(1) have "routed P sif (trace t)" unfolding tr by (intro routed_append) (auto simp: selector_inv_def)
  with assms(5) have "routed P sif (trace u)" unfolding assms(6) routed_snoc by blast
  moreover have "received_ticket (MessageSent q' m ok) = None" by simp
  with books assms(1,4) have "tally answered_or_forwarded (trace u) = tally received_ticket (trace u)"
    unfolding assms(6) tr by (simp add: selector_inv_def)
  moreover have "registry u = registry s" using node_frame [OF assms(2)] assms(7) by simp
  ultimately show ?thesis
    using assms(1) unfolding selector_inv_def assms(6) tr by auto
qed

lemma selector_inv_task:
  assumes "selector_inv P (getSupportedInputFormats C) s" and "io_extends s t"
    and "receive_outcome TaskPolled q (Some (Inr (Some task))) (new_events s t)"
  shows "selector_inv P (getSupportedInputFormats C) (selectorTask E C config task t)"
proof (cases "chooseBackend (getSupportedInputFormats C) task (registry t) (sel_selectionPolicy (cfg_selector config))")
  case (Inl e)
  let ?m = "ResultMessage (cancelQuantumTask task (detail e))"
  obtain ok where "trace (send E ?m (result_destination task) t) = trace t @ [MessageSent (result_destination task) ?m ok]"
    using send_spec by blast
  from selector_inv_settled [OF assms _ _ this] show ?thesis
    using Inl by (simp add: selectorTask_def sendFailure_def answered_or_forwarded_def ticket_def cancelQuantumTask_def)
next
  case (Inr n)
  have reg: "registry t = registry s" by (rule node_frame [OF assms(2)])
  with assms(1) have wf: "registry_wf (registry t)" by (simp add: selector_inv_def)
  from chooseBackend_Inr [OF wf Inr] obtain b where
    b: "registry_find (registry t) n = Some b" "bw_name b = n" "isOnline b" "canRun (getSupportedInputFormats C) b task" .
  let ?m = "TaskMessage (task\<lparr>scheduled_qpu := n\<rparr>)"
  have "announced P (trace t) b"
    using assms(1) b(1) reg unfolding io_extends_trace [OF assms(2)] by (auto simp: selector_inv_def)
  moreover obtain i d where "TaskPolled q i (Inr (task, d)) \<in> set (trace t)"
    using assms(3) io_extends_trace [OF assms(2)] by (fastforce simp: receive_outcome_def)
  ultimately have "well_routed P (getSupportedInputFormats C) (trace t) (bw_queueName b) (task\<lparr>scheduled_qpu := n\<rparr>)"
    using b announced_routing [of P "trace t" b] unfolding well_routed_def
    by (intro conjI exI [of _ b] exI [of _ q] exI [of _ i] exI [of _ task] exI [of _ d]) simp_all
  moreover obtain ok where "trace (send E ?m (bw_queueName b) t) = trace t @ [MessageSent (bw_queueName b) ?m ok]"
    using send_spec by blast
  ultimately show ?thesis
    using selector_inv_settled [OF assms, of "bw_queueName b" ?m ok "send E ?m (bw_queueName b) t"] Inr b(1)
    by (simp add: selectorTask_def answered_or_forwarded_def ticket_def)
qed

lemma selector_inv_turn:
  assumes "selectorTurn E P C config s = Some t" and "selector_inv P (getSupportedInputFormats C) s"
  shows "selector_inv P (getSupportedInputFormats C) t"
proof -
  let ?I = "selector_inv P (getSupportedInputFormats C)"
  from assms(1) obtain b s1 received s2 where
    d: "drainQueue E (env_receiveBackend E) BackendPolled (sel_backendStatusQueue (cfg_selector config))
      (terminationRequested E) (selectorStatus E P) s = Some (b, s1)" and
    x: "drainQueue E (env_receiveTask E) TaskPolled (com_qrmciQueue (cfg_common config)) (terminationRequested E)
      (selectorTask E C config) (expireBackends E s1) = Some (received, s2)" and
    t: "t = (if \<not> received then sleepFor E (com_stagePollInterval (cfg_common config)) s2 else s2)"
    unfolding selectorTurn_def Let_def by (auto split: Option.bind_splits)
  have "?I s1"
    by (rule drainQueue_invariant [where I = ?I, OF flag_ok_terminationRequested poll_idle_simps(2) d])
      (fact selector_inv_idle selector_inv_status assms(2))+
  note expired = selector_inv_expire [OF this, of E]
  have "?I s2"
    by (rule drainQueue_invariant [where I = ?I, OF flag_ok_terminationRequested poll_idle_simps(1) x])
      (fact selector_inv_idle selector_inv_task expired)+
  with t selector_inv_silent silent_sleepFor show ?thesis by metis
qed

definition selector_promise ::
  "protocol \<Rightarrow> 'c compiler \<Rightarrow> ('w, 'z) node_scheme \<Rightarrow> ('w, 'z) node_scheme \<Rightarrow> bool" where
  "selector_promise P C s t \<longleftrightarrow>
     (selector_inv P (getSupportedInputFormats C) s \<longrightarrow> selector_inv P (getSupportedInputFormats C) t)"

interpretation selector: work_loop E "selectorTurn E P C config" "selector_promise P C" for E P C config
proof unfold_locales
  show "terminationRequested E s = (b, t) \<Longrightarrow> selector_promise P C s t" for s b t
    unfolding selector_promise_def
    using selector_inv_silent [OF _ silent_flag [OF flag_ok_terminationRequested]] by blast
qed (auto simp: selector_promise_def intro: selector_inv_turn)

lemma selector_inv_start:
  assumes "registry s = BackendRegistry_new ttl" and "\<And>e. e \<in> set (trace s) \<Longrightarrow> \<not> broker_event e"
  shows "selector_inv P sif s"
proof (rule selector_inv_quiet [of P sif "s\<lparr>trace := []\<rparr>"])
  show "selector_inv P sif (s\<lparr>trace := []\<rparr>)" using assms(1) by (simp add: selector_inv_def registry_simps)
  show "received_ticket e = None \<and> answered_or_forwarded e = None" if "e \<in> set (trace s)" for e
    using assms(2) [OF that] by (cases e) (auto simp: answered_or_forwarded_def)
qed simp_all

section \<open>Properties\<close>

text \<open>C4: At every turn of a selector's loop, from its start: each task received so far was answered with
  a failure to its owner or forwarded, once and never both; every forwarded task was sent to a
  dispatch queue, never an empty one, that a worker had announced before in a status message the
  selector accepted, for the backend the task names from then on, which by that announcement is online
  and can run the task; and but for that name it is a task that was received before.\<close>

theorem selector_routes_properly:
  assumes "trace s = []" and "registry s = BackendRegistry_new ttl" and "turns E (selectorTurn E P C config) s t"
  shows "tally answered_or_forwarded (trace t) = tally received_ticket (trace t) \<and>
    routed P (getSupportedInputFormats C) (trace t) \<and> registry_wf (registry t) \<and>
    (\<forall>n b. registry_find (registry t) n = Some b \<longrightarrow> announced P (trace t) b)"
proof -
  have "selector_inv P (getSupportedInputFormats C) t"
    using selector.reached [OF assms(3)] selector_inv_start [OF assms(2)] assms(1) by (auto simp: selector_promise_def)
  then show ?thesis by (auto simp: selector_inv_def)
qed

text \<open>A selector that receives one status and one task, and is then asked to stop.\<close>

definition selector_env :: "nat environment" where
  "selector_env = sample_env\<lparr>
     env_terminationRequested := (\<lambda>w. (200 < w, w)),
     env_receiveBackend := (\<lambda>_ _ w. if w < 100 then (Inr (toBackend sample_protocol own_backend, w), 100 + w)
       else (Inl \<lparr>status_code = StatusTimeout, reason = ''empty''\<rparr>, w)),
     env_receiveTask := (\<lambda>_ _ w. if w < 200 then (Inr (sample_quake_task, w), 100 + w)
       else (Inl \<lparr>status_code = StatusTimeout, reason = ''empty''\<rparr>, w))\<rparr>"

definition sample_selector :: "nat node" where
  "sample_selector = \<lparr>world = 0, trace = [], registry = BackendRegistry_new 30000000000\<rparr>"

lemma sample_selector_again:
  "case selectorTurn selector_env sample_protocol sample_compiler sample_config
      (snd (terminationRequested selector_env sample_selector)) of
     None \<Rightarrow> False | Some t \<Rightarrow> List.map_filter forwarded_ticket (trace t) = [ticket sample_quake_task]"
  by code_simp

theorem selector_routes_properly_witness:
  "\<exists>t. turns selector_env (selectorTurn selector_env sample_protocol sample_compiler sample_config) sample_selector t \<and>
     List.map_filter forwarded_ticket (trace t) = [ticket sample_quake_task] \<and>
     routed sample_protocol (getSupportedInputFormats sample_compiler) (trace t)"
proof -
  let ?turn = "selectorTurn selector_env sample_protocol sample_compiler sample_config"
  obtain t where turn: "?turn (snd (terminationRequested selector_env sample_selector)) = Some t"
    and t: "List.map_filter forwarded_ticket (trace t) = [ticket sample_quake_task]"
    using sample_selector_again by (auto split: option.splits)
  have "terminationRequested selector_env sample_selector = (False, snd (terminationRequested selector_env sample_selector))"
    by (simp add: terminationRequested_def ext_call_def selector_env_def sample_selector_def)
  with turn have run: "turns selector_env ?turn sample_selector t" by (blast intro: turns.intros)
  have "trace sample_selector = []" "registry sample_selector = BackendRegistry_new 30000000000"
    by (simp_all add: sample_selector_def)
  from selector_routes_properly [OF this run] run t show ?thesis by blast
qed

text \<open>C32: The same of a whole run of the selector process: whatever its exit code, when it ends no task
  it received is unaccounted for and every forwarded one was routed to an announced backend; it exits
  with the failure code only if its configuration cannot be loaded, and then it has done nothing but
  install its signal handlers; it exits with the success code only on a shutdown request.\<close>

theorem selectorMain_correct:
  assumes "selectorMain T F E P C s = Some (rc, t)" and "trace s = []"
  shows "tally answered_or_forwarded (trace t) = tally received_ticket (trace t) \<and>
    routed P (getSupportedInputFormats C) (trace t) \<and>
    (rc = EXIT_FAILURE \<longleftrightarrow> \<not> has_value (loadConfig T F)) \<and>
    (rc = EXIT_FAILURE \<longrightarrow> trace t = [HandlerInstalled SIGINT, HandlerInstalled SIGTERM]) \<and>
    (rc = EXIT_SUCCESS \<longrightarrow> last (trace t) = FlagRead True)"
proof (cases "loadConfig T F")
  case (Inl e)
  with initializeDaemon_failure [OF Inl, of E s] assms installTerminationHandlers_trace(1) [of E s] show ?thesis
    by (auto simp: selectorMain_def answered_or_forwarded_def routed_def Cons_eq_append_conv)
next
  case (Inr config)
  obtain l s0 where init: "initializeDaemon T F E s = (Inr config, Some l, s0)" "emits startup_event s s0"
    using initializeDaemon_success [OF Inr, of E s] .
  let ?n = "\<lparr>world = world s0, trace = trace s0,
     registry = BackendRegistry_new (nanoseconds (reg_entryTimeToLive (sel_backendRegistry (cfg_selector config))))\<rparr>"
  have quiet: "e \<in> set (trace ?n) \<Longrightarrow> \<not> broker_event e" for e
    using emits_trace [OF init(2)] assms(2) startup_not_broker by (auto simp: list_all_iff)
  from assms(1) init(1) obtain n where run: "workLoop E (selectorTurn E P C config) ?n = Some n"
    and t: "rc = EXIT_SUCCESS" "trace t = trace n"
    by (auto simp: selectorMain_def Let_def split: Option.bind_splits)
  have "selector_inv P (getSupportedInputFormats C) n"
    using selector.run [OF run] selector_inv_start [of ?n, OF _ quiet] by (auto simp: selector_promise_def)
  with t Inr workLoop_ends_on_request [OF run] show ?thesis by (simp add: selector_inv_def)
qed

theorem selectorMain_correct_witness:
  "\<exists>t. selectorMain sample_toml (sample_platform sample_environment (Some sample_document)) halted_env sample_protocol
       sample_compiler sample_io = Some (EXIT_SUCCESS, t) \<and> last (trace t) = FlagRead True"
proof -
  let ?F = "sample_platform sample_environment (Some sample_document)"
  obtain config where "loadConfig sample_toml ?F = Inr config" using sample_load by blast
  from initializeDaemon_success [OF this, of halted_env sample_io] obtain l s0 where
    "initializeDaemon sample_toml ?F halted_env sample_io = (Inr config, Some l, s0)" .
  then obtain t where run: "selectorMain sample_toml ?F halted_env sample_protocol sample_compiler sample_io = Some (EXIT_SUCCESS, t)"
    by (simp add: selectorMain_def ext_call_def halted_env_def workLoop.simps terminationRequested_def)
  with selectorMain_correct [OF run] show ?thesis by (simp add: sample_io_def)
qed

text \<open>Every turn of the selector ends, when the queues it drains hold finitely many messages and
  forwarding a task does not put new ones there: the backlog bounds both drains. (A backend that
  announced the selector's own task queue as its dispatch queue would violate the second condition.)\<close>

theorem selectorTurn_returns:
  assumes "finite_backlog E backlog"
  shows "\<exists>t. selectorTurn E P C config s = Some t"
proof -
  have status: "backlog (world (selectorStatus E P m s)) \<le> backlog (world s)" for m and s :: "('a, 'b) node_scheme"
    using now_backlog [OF assms, of s]
    by (cases "Clock_now E s") (auto simp: selectorStatus_def split: sum.splits)
  have task: "backlog (world (selectorTask E C config m s)) \<le> backlog (world s)" for m and s :: "('a, 'b) node_scheme"
    using send_backlog [OF assms] by (auto simp: selectorTask_def sendFailure_def split: sum.splits option.splits)
  have polls: "drains backlog (env_receiveTask E)" "drains backlog (env_receiveBackend E)"
    using assms by (simp_all add: finite_backlog_def)
  have "\<exists>b s1. drainQueue E (env_receiveBackend E) BackendPolled (sel_backendStatusQueue (cfg_selector config))
      (terminationRequested E) (selectorStatus E P) s = Some (b, s1)"
    by (rule drainQueue_returns [OF polls(2) assms]) (rule status)
  then obtain b s1 where 1: "drainQueue E (env_receiveBackend E) BackendPolled (sel_backendStatusQueue (cfg_selector config))
      (terminationRequested E) (selectorStatus E P) s = Some (b, s1)" by blast
  have "\<exists>r s2. drainQueue E (env_receiveTask E) TaskPolled (com_qrmciQueue (cfg_common config)) (terminationRequested E)
      (selectorTask E C config) (expireBackends E s1) = Some (r, s2)"
    by (rule drainQueue_returns [OF polls(1) assms]) (rule task)
  with 1 show ?thesis by (auto simp: selectorTurn_def Let_def)
qed

text \<open>The environment of the sample selector has two messages waiting.\<close>

theorem selectorTurn_returns_witness:
  "\<exists>t. selectorTurn selector_env sample_protocol sample_compiler sample_config sample_selector = Some t"
proof (rule selectorTurn_returns [where backlog = "\<lambda>w. (if w < 100 then 1 else 0) + (if w < 200 then 1 else 0)"])
  show "finite_backlog selector_env (\<lambda>w. (if w < 100 then 1 else 0) + (if w < 200 then 1 else 0))"
    by (auto simp: finite_backlog_def drains_def selector_env_def sample_env_def has_value_iff)
qed

text \<open>C35: No turn of the selector hangs, and a selector asked to stop exits. When the queues it drains hold
  finitely many messages and forwarding a task does not put new ones there, any number of turns can be
  taken; and if the termination flag is set by the time they are over, the whole loop ends, with a
  shutdown request as the last thing read.\<close>

theorem selector_exits_when_asked:
  assumes "finite_backlog E backlog"
  shows "(\<exists>t. after_turns E (selectorTurn E P C config) n s = Some t) \<and>
    (asked_after E (selectorTurn E P C config) n s \<longrightarrow>
      (\<exists>t. workLoop E (selectorTurn E P C config) s = Some t \<and> last (trace t) = FlagRead True))"
proof
  show "\<exists>t. after_turns E (selectorTurn E P C config) n s = Some t"
    by (rule after_turns_returns) (rule selectorTurn_returns [OF assms])
  show "asked_after E (selectorTurn E P C config) n s \<longrightarrow>
      (\<exists>t. workLoop E (selectorTurn E P C config) s = Some t \<and> last (trace t) = FlagRead True)"
    using workLoop_ends workLoop_ends_on_request by blast
qed

lemma sample_selector_asked:
  "asked_after interrupted_env (selectorTurn interrupted_env sample_protocol sample_compiler sample_config) 1 sample_selector"
  by code_simp

theorem selector_exits_when_asked_witness:
  "\<exists>t. workLoop interrupted_env (selectorTurn interrupted_env sample_protocol sample_compiler sample_config) sample_selector = Some t \<and>
     last (trace t) = FlagRead True"
  using selector_exits_when_asked [OF interrupted_env_backlog] sample_selector_asked by blast

end
