(* ===== verification/Worker_App.thy ===== *)
theory Worker_App
  imports Daemon_Core
begin

text \<open>
  \<open>apps/distributed/worker/main.cpp\<close>: the stage that owns a device. A turn of its loop publishes the
  device's status when it is due, expires the registry, compiles at most one received task, submits
  every ready task, and only then collects and reports the results. The list of submitted tasks with
  their jobs, the variable \<open>submittedJobs\<close>, lives for one turn.
\<close>

section \<open>Definitions\<close>

text \<open>The handler of a received task.\<close>

definition workerIntake ::
  "'w environment \<Rightarrow> 'c compiler \<Rightarrow> 'q scheduler \<Rightarrow> QuantumTask \<Rightarrow>
   ('w, 'c, 'q, 'z) daemon_scheme \<Rightarrow> ('w, 'c, 'q, 'z) daemon_scheme" where
  "workerIntake E C Q task s =
     (case compileAndSchedule C Q task s of
        (Inl e, task, s) \<Rightarrow> sendFailure E task e s
      | (Inr _, _, s) \<Rightarrow> s)"

text \<open>The first loop: \<open>while (auto nextTask = scheduler.getNextReadyTask())\<close>.\<close>

partial_function (option) submitReady ::
  "'w environment \<Rightarrow> 'q scheduler \<Rightarrow> (QuantumTask \<times> nat list) list \<Rightarrow> ('w, 'c, 'q, 'z) daemon_scheme \<Rightarrow>
   ((QuantumTask \<times> nat list) list \<times> ('w, 'c, 'q, 'z) daemon_scheme) option" where
  "submitReady E Q submittedJobs s =
     (case getNextReadyTask Q (schedulerState s) of
        (None, q) \<Rightarrow> Some (submittedJobs, s\<lparr>schedulerState := q\<rparr>)
      | (Some nextTask, q) \<Rightarrow>
          (case submitQuantumTask E (terminationRequested E) nextTask (s\<lparr>schedulerState := q\<rparr>) of
             (Inr jobs, s) \<Rightarrow> submitReady E Q (submittedJobs @ [(nextTask, jobs)]) s
           | (Inl e, s) \<Rightarrow>
               if kind e = ShutdownRequested then Some (submittedJobs, s)
               else submitReady E Q submittedJobs (sendFailure E nextTask e s)))"

declare submitReady.simps [code]

text \<open>The second loop, over \<open>submittedJobs\<close>.\<close>

fun collectSubmitted ::
  "'w environment \<Rightarrow> Config \<Rightarrow> (QuantumTask \<times> nat list) list \<Rightarrow> ('w, 'z) io_scheme \<Rightarrow> ('w, 'z) io_scheme option" where
  "collectSubmitted E config [] s = Some s"
| "collectSubmitted E config ((submittedTask, jobs) # rest) s =
     Option.bind (collectQuantumResult E (terminationRequested E) submittedTask jobs
         (sub_jobWaitTimeout (cfg_submitter config)) s)
       (\<lambda>(executionResult, s). case executionResult of
           Inr res \<Rightarrow> collectSubmitted E config rest (sendResult E submittedTask res s)
         | Inl e \<Rightarrow>
             if kind e = ShutdownRequested then Some s
             else collectSubmitted E config rest (sendFailure E submittedTask e s))"

text \<open>\<open>if (auto status = refreshOwnDeviceStatus(\<dots>)) send(\<dots>)\<close>.\<close>

definition publishOwnStatus ::
  "'w environment \<Rightarrow> protocol \<Rightarrow> Config \<Rightarrow> ('w, 'c, 'q, 'z) daemon_scheme \<Rightarrow> ('w, 'c, 'q, 'z) daemon_scheme" where
  "publishOwnStatus E P config s =
     (case refreshOwnDeviceStatus E P (cmp_queue (cfg_compiler config)) s of
        (Some status, s) \<Rightarrow> send E (BackendMessage status) (sel_backendStatusQueue (cfg_selector config)) s
      | (None, s) \<Rightarrow> s)"

definition workerTurn ::
  "'w environment \<Rightarrow> protocol \<Rightarrow> 'c compiler \<Rightarrow> 'q scheduler \<Rightarrow> Config \<Rightarrow> ('w, 'c, 'q, 'z) daemon_scheme \<Rightarrow>
   ('w, 'c, 'q, 'z) daemon_scheme option" where
  "workerTurn E P C Q config s =
     (let s = expireBackends E (publishOwnStatus E P config s)
      in Option.bind (receiveNext E (env_receiveTask E) TaskPolled (cmp_queue (cfg_compiler config))
             (cmp_taskReceiveTimeout (cfg_compiler config)) (terminationRequested E) (workerIntake E C Q) s)
           (\<lambda>(receivedTask, s).
              Option.bind (submitReady E Q [] s)
                (\<lambda>(submittedJobs, s).
                   Option.bind (collectSubmitted E config submittedJobs s)
                     (\<lambda>s. Some (if \<not> receivedTask then sleepFor E (com_stagePollInterval (cfg_common config)) s else s)))))"

definition workerMain ::
  "'n toml \<Rightarrow> 'n platform \<Rightarrow> 'w environment \<Rightarrow> protocol \<Rightarrow> 'c compiler \<Rightarrow> 'q scheduler \<Rightarrow> 'c \<Rightarrow> 'q \<Rightarrow> 'w io \<Rightarrow>
   (exit_code \<times> 'w io) option" where
  "workerMain T F E P C Q c q s =
     (case initializeDaemon T F E s of
        (Inl e, _, s) \<Rightarrow> Some (EXIT_FAILURE, s)
      | (Inr config, _, s) \<Rightarrow>
     (case openConfiguredDevice E (cfg_submitter config) s of
        (Inl e, s) \<Rightarrow> Some (EXIT_FAILURE, s)
      | (Inr _, s) \<Rightarrow>
          let sub = cfg_submitter config;
              d = \<lparr>world = world s, trace = trace s,
                   registry = BackendRegistry_new (nanoseconds (reg_entryTimeToLive (sub_backendRegistry sub))),
                   throttle = PublicationThrottle_new (nanoseconds_of_ms (sub_backendStatusPublishInterval sub)),
                   compilerState = c, schedulerState = q\<rparr>
          in case registerOwnDevice E (cmp_queue (cfg_compiler config)) d of
               (Inl e, d) \<Rightarrow> Some (EXIT_FAILURE, \<lparr>world = world d, trace = trace d\<rparr>)
             | (Inr _, d) \<Rightarrow>
                 Option.bind (workLoop E (workerTurn E P C Q config) d)
                   (\<lambda>d. Some (EXIT_SUCCESS, \<lparr>world = world d, trace = trace d\<rparr>))))"

section \<open>Keeping the books\<close>

abbreviation tickets_of :: "(QuantumTask \<times> nat list) list \<Rightarrow> ticket multiset" where
  "tickets_of batch \<equiv> image_mset (ticket \<circ> fst) (mset batch)"

lemma settles_workerIntake:
  assumes "scheduler_ok Q contents"
  shows "settles answered_ticket (held_tickets contents) {#ticket task#} s (workerIntake E C Q task s)"
proof -
  obtain r task' t where run: "compileAndSchedule C Q task s = (r, task', t)" by (cases "compileAndSchedule C Q task s")
  then have "workerIntake E C Q task s = (case r of Inl e \<Rightarrow> sendFailure E task' e t | Inr _ \<Rightarrow> t)"
    by (cases r) (simp_all add: workerIntake_def)
  with settles_intake [OF assms run, of E] show ?thesis by simp
qed

lemma submitReady_induct [consumes 1, case_names none submitted failed shutdown]:
  assumes "submitReady E Q L s = Some (L', t)"
    and "\<And>L s q. getNextReadyTask Q (schedulerState s) = (None, q) \<Longrightarrow> R L s L (s\<lparr>schedulerState := q\<rparr>)"
    and "\<And>L s q task jobs u L' t. getNextReadyTask Q (schedulerState s) = (Some task, q) \<Longrightarrow>
        submitQuantumTask E (terminationRequested E) task (s\<lparr>schedulerState := q\<rparr>) = (Inr jobs, u) \<Longrightarrow>
        R (L @ [(task, jobs)]) u L' t \<Longrightarrow> R L s L' t"
    and "\<And>L s q task e u L' t. getNextReadyTask Q (schedulerState s) = (Some task, q) \<Longrightarrow>
        submitQuantumTask E (terminationRequested E) task (s\<lparr>schedulerState := q\<rparr>) = (Inl e, u) \<Longrightarrow>
        kind e \<noteq> ShutdownRequested \<Longrightarrow> R L (sendFailure E task e u) L' t \<Longrightarrow> R L s L' t"
    and "\<And>L s q task e u. getNextReadyTask Q (schedulerState s) = (Some task, q) \<Longrightarrow>
        submitQuantumTask E (terminationRequested E) task (s\<lparr>schedulerState := q\<rparr>) = (Inl e, u) \<Longrightarrow>
        kind e = ShutdownRequested \<Longrightarrow> R L s L u"
  shows "R L s L' t"
proof -
  let ?X = "\<lambda>E' Q' L s y. E' = E \<and> Q' = Q \<longrightarrow> R L s (fst y) (snd y)"
  have "?X E Q L s (L', t)"
    by (rule submitReady.raw_induct [where P = ?X, OF _ assms(1)])
      (auto split: prod.splits option.splits sum.splits if_splits, (blast intro: assms(2-5))+)
  then show ?thesis by simp
qed

text \<open>
  The submission stage hands its debts on: what settles the submitted tasks afterwards settles, with
  the stage, the tasks submitted before it and those the scheduler held.
\<close>

lemma settles_submitReady:
  assumes "scheduler_ok Q contents" and "submitReady E Q L s = Some (L', t)"
    and "settles answered_ticket (held_tickets contents) (tickets_of L') t u"
  shows "settles answered_ticket (held_tickets contents) (tickets_of L) s u"
  using assms(2,3)
proof (induction rule: submitReady_induct)
  case (none L s q)
  from settles_trans [OF settles_none [OF assms(1) none(1)] none(2)] show ?case by simp
next
  case (submitted L s q task jobs s1 L' t)
  from settles_trans [OF scheduling.silent [OF silent_submitQuantumTask [OF flag_ok_terminationRequested submitted(2)]]
      submitted(3) [OF submitted(4)]]
  show ?case by (intro settles_next [OF assms(1) submitted(1)]) simp
next
  case (failed L s q task e s1 L' t)
  from settles_trans [OF settles_trans [OF scheduling.silent [OF silent_submitQuantumTask [OF flag_ok_terminationRequested failed(2)]]
      scheduling.failure] failed(4) [OF failed(5)]]
  show ?case by (intro settles_next [OF assms(1) failed(1)]) simp
next
  case (shutdown L s q task e s1)
  have "settles answered_ticket (held_tickets contents) {#ticket task#} (s\<lparr>schedulerState := q\<rparr>) s1"
    by (rule settles_abandoned [OF silent_submitQuantumTask [OF flag_ok_terminationRequested shutdown(2)]
          submitQuantumTask_shutdown [OF shutdown(2,3)]])
  from settles_trans [OF this shutdown(4)] show ?case by (intro settles_next [OF assms(1) shutdown(1)]) simp
qed

lemma collectSubmitted_cases:
  assumes "collectSubmitted E config ((task, jobs) # L) s = Some t"
  obtains (answered) res u where "collectQuantumResult E (terminationRequested E) task jobs
        (sub_jobWaitTimeout (cfg_submitter config)) s = Some (Inr res, u)"
      "collectSubmitted E config L (sendResult E task res u) = Some t"
  | (shutdown) e where "collectQuantumResult E (terminationRequested E) task jobs
        (sub_jobWaitTimeout (cfg_submitter config)) s = Some (Inl e, t)" "kind e = ShutdownRequested"
  | (failed) e u where "collectQuantumResult E (terminationRequested E) task jobs
        (sub_jobWaitTimeout (cfg_submitter config)) s = Some (Inl e, u)"
      "collectSubmitted E config L (sendFailure E task e u) = Some t"
proof (cases "collectQuantumResult E (terminationRequested E) task jobs (sub_jobWaitTimeout (cfg_submitter config)) s")
  case None
  with assms show thesis by simp
next
  case (Some p)
  obtain r u where p: "p = (r, u)" by (cases p)
  show thesis
  proof (cases r)
    case (Inr res)
    with assms Some p answered show thesis by simp
  next
    case (Inl e)
    with assms Some p shutdown failed show thesis by (simp split: if_splits)
  qed
qed

lemma settles_collectSubmitted:
  "collectSubmitted E config L s = Some t \<Longrightarrow> settles answered_ticket (held_tickets contents) (tickets_of L) s t"
proof (induction L arbitrary: s)
  case Nil
  then show ?case by (simp add: settles_refl)
next
  case (Cons x L)
  obtain task jobs where x: "x = (task, jobs)" by (cases x)
  note quiet = scheduling.silent [OF silent_collectQuantumResult [OF flag_ok_terminationRequested]]
  from Cons.prems [unfolded x] show ?case
  proof (cases rule: collectSubmitted_cases)
    case (answered res u)
    note settles_trans [OF quiet [OF answered(1)] scheduling.success [OF collectQuantumResult_id [OF answered(1)]]]
    from settles_trans [OF this Cons.IH [OF answered(2)]] show ?thesis using x by simp
  next
    case (shutdown e)
    show ?thesis
      by (rule settles_abandoned [OF silent_collectQuantumResult [OF flag_ok_terminationRequested shutdown(1)]
            collectQuantumResult_shutdown_flag [OF shutdown]])
  next
    case (failed e u)
    from settles_trans [OF settles_trans [OF quiet [OF failed(1)] scheduling.failure] Cons.IH [OF failed(2)]]
    show ?thesis using x by simp
  qed
qed

lemma settles_publish: "settles answered_ticket (held_tickets contents) {#} s (publishOwnStatus E P config s)"
proof -
  obtain st u where r: "refreshOwnDeviceStatus E P (cmp_queue (cfg_compiler config)) s = (st, u)"
    by (cases "refreshOwnDeviceStatus E P (cmp_queue (cfg_compiler config)) s")
  note kept = settles_housekept [OF housekept_refresh [OF r], of contents]
  show ?thesis
  proof (cases st)
    case None
    with r kept show ?thesis by (simp add: publishOwnStatus_def)
  next
    case (Some status)
    have "settles answered_ticket (held_tickets contents) {#} u
        (send E (BackendMessage status) (sel_backendStatusQueue (cfg_selector config)) u)"
      by (rule scheduling.unsettling_message) simp
    from settles_trans [OF kept this] r Some show ?thesis by (simp add: publishOwnStatus_def)
  qed
qed

text \<open>A turn, taken apart at its stages.\<close>

lemma workerTurn_stages:
  assumes "workerTurn E P C Q config s = Some t"
  obtains received s2 submitted s3 s4 where
    "receiveNext E (env_receiveTask E) TaskPolled (cmp_queue (cfg_compiler config))
       (cmp_taskReceiveTimeout (cfg_compiler config)) (terminationRequested E) (workerIntake E C Q)
       (expireBackends E (publishOwnStatus E P config s)) = Some (received, s2)"
    "submitReady E Q [] s2 = Some (submitted, s3)"
    "collectSubmitted E config submitted s3 = Some s4"
    "emits upkeep_event s4 t"
proof -
  from assms obtain received s2 submitted s3 s4 where st:
    "receiveNext E (env_receiveTask E) TaskPolled (cmp_queue (cfg_compiler config))
       (cmp_taskReceiveTimeout (cfg_compiler config)) (terminationRequested E) (workerIntake E C Q)
       (expireBackends E (publishOwnStatus E P config s)) = Some (received, s2)"
    "submitReady E Q [] s2 = Some (submitted, s3)"
    "collectSubmitted E config submitted s3 = Some s4"
    "t = (if \<not> received then sleepFor E (com_stagePollInterval (cfg_common config)) s4 else s4)"
    unfolding workerTurn_def Let_def by (auto split: Option.bind_splits)
  then have "emits upkeep_event s4 t" using upkeep_sleepFor by auto
  with st that show thesis by blast
qed

lemma settles_workerTurn:
  assumes "scheduler_ok Q contents" and "workerTurn E P C Q config s = Some t"
  shows "settles answered_ticket (held_tickets contents) {#} s t"
  using assms(2)
proof (rule workerTurn_stages)
  fix received s2 submitted s3 s4
  assume r: "receiveNext E (env_receiveTask E) TaskPolled (cmp_queue (cfg_compiler config))
       (cmp_taskReceiveTimeout (cfg_compiler config)) (terminationRequested E) (workerIntake E C Q)
       (expireBackends E (publishOwnStatus E P config s)) = Some (received, s2)"
    and x: "submitReady E Q [] s2 = Some (submitted, s3)" and c: "collectSubmitted E config submitted s3 = Some s4"
    and z: "emits upkeep_event s4 t"
  note settles_trans [OF settles_publish settles_housekept [OF housekept_expire]]
  from settles_trans [OF this scheduling.next_task [OF flag_ok_terminationRequested settles_workerIntake [OF assms(1)] r]]
  have "settles answered_ticket (held_tickets contents) {#} s s2" by simp
  moreover from settles_trans [OF settles_collectSubmitted [OF c] settles_housekept [OF housekept_upkeep [OF z]], of contents]
  have "settles answered_ticket (held_tickets contents) (tickets_of submitted) s3 t" by simp
  from settles_submitReady [OF assms(1) x this] have "settles answered_ticket (held_tickets contents) {#} s2 t" by simp
  ultimately show ?thesis using settles_trans by fastforce
qed

interpretation worker: work_loop E "workerTurn E P C Q config" "books_kept Q contents"
  for E P C Q config contents
  by unfold_locales (rule books_kept_refl, erule (1) books_kept_trans, erule books_kept_flag,
      simp add: books_kept_def settles_workerTurn)

section \<open>Stages and their events\<close>

text \<open>The submission stage adds submissions and failure messages, the collection stage waits and messages.\<close>

definition submitting_event :: "event \<Rightarrow> bool" where
  "submitting_event e \<longleftrightarrow> submission_event e \<or> (\<exists>q m r. e = MessageSent q m r)"

definition collecting_event :: "event \<Rightarrow> bool" where
  "collecting_event e \<longleftrightarrow> collection_event e \<or> (\<exists>q m r. e = MessageSent q m r)"

lemma submitQuantumTask_emits:
  "submitQuantumTask E (terminationRequested E) task s = (r, t) \<Longrightarrow> emits submission_event s t"
  unfolding emits_def
  using submitQuantumTask_extends [OF flag_ok_terminationRequested] submitQuantumTask_events [OF flag_ok_terminationRequested]
  by blast

lemma submitReady_events:
  assumes "scheduler_ok Q contents" and "submitReady E Q L s = Some (L', t)"
  shows "\<exists>es. trace t = trace s @ es \<and> list_all submitting_event es \<and>
    (scheduler_eager Q contents \<and> FlagRead True \<notin> set es \<longrightarrow> contents (schedulerState t) = {#})"
  using assms(2)
proof (induction rule: submitReady_induct)
  case (none L s q)
  then show ?case by (auto simp: scheduler_eager_def)
next
  case (submitted L s q task jobs u L' t)
  have "emits submitting_event (s\<lparr>schedulerState := q\<rparr>) u"
    by (rule emits_mono [OF submitQuantumTask_emits [OF submitted(2)]]) (simp add: submitting_event_def)
  from emits_trace [OF this] obtain es where es: "trace u = trace s @ es" "list_all submitting_event es" by auto
  from submitted(3) obtain fs where "trace t = trace u @ fs" "list_all submitting_event fs"
    "scheduler_eager Q contents \<and> FlagRead True \<notin> set fs \<longrightarrow> contents (schedulerState t) = {#}" by blast
  with es show ?case by (intro exI [of _ "es @ fs"]) simp
next
  case (failed L s q task e u L' t)
  have "emits submitting_event (s\<lparr>schedulerState := q\<rparr>) u"
    by (rule emits_mono [OF submitQuantumTask_emits [OF failed(2)]]) (simp add: submitting_event_def)
  from emits_trace [OF this] obtain es where es: "trace u = trace s @ es" "list_all submitting_event es" by auto
  have "emits submitting_event u (sendFailure E task e u)"
    unfolding sendFailure_def by (rule emits_send) (simp add: submitting_event_def)
  from emits_trace [OF this] obtain fs where fs: "trace (sendFailure E task e u) = trace u @ fs" "list_all submitting_event fs"
    by auto
  from failed(4) obtain gs where "trace t = trace (sendFailure E task e u) @ gs" "list_all submitting_event gs"
    "scheduler_eager Q contents \<and> FlagRead True \<notin> set gs \<longrightarrow> contents (schedulerState t) = {#}" by blast
  with es fs show ?case by (intro exI [of _ "es @ fs @ gs"]) simp
next
  case (shutdown L s q task e u)
  note sub = submitQuantumTask_emits [OF shutdown(2)]
  then have "trace u = trace s @ new_events (s\<lparr>schedulerState := q\<rparr>) u"
    using io_extends_trace [of "s\<lparr>schedulerState := q\<rparr>" u] by (simp add: emits_def)
  moreover have "list_all submitting_event (new_events (s\<lparr>schedulerState := q\<rparr>) u)"
    using sub by (auto simp: emits_def list_all_iff submitting_event_def)
  ultimately show ?case using submitQuantumTask_shutdown [OF shutdown(2,3)] by blast
qed

lemma collectSubmitted_events: "collectSubmitted E config L s = Some t \<Longrightarrow> emits collecting_event s t"
proof (induction L arbitrary: s)
  case (Cons x L)
  obtain task jobs where x: "x = (task, jobs)" by (cases x)
  have waits: "emits collecting_event s u" if "collectQuantumResult E (terminationRequested E) task jobs
      (sub_jobWaitTimeout (cfg_submitter config)) s = Some (r, u)" for r u
    by (rule emits_mono [OF collecting_collectQuantumResult [OF flag_ok_terminationRequested that]])
      (simp add: collecting_event_def)
  have sends: "emits collecting_event u (send E m q u)" for u m q
    by (rule emits_send) (simp add: collecting_event_def)
  from Cons.prems [unfolded x] show ?case
  proof (cases rule: collectSubmitted_cases)
    case (answered res u)
    from emits_trans [OF emits_trans [OF waits [OF answered(1)] sends] Cons.IH] answered(2)
    show ?thesis by (simp add: sendResult_def)
  next
    case (shutdown e)
    then show ?thesis by (blast intro: waits)
  next
    case (failed e u)
    from emits_trans [OF emits_trans [OF waits [OF failed(1)] sends] Cons.IH] failed(2)
    show ?thesis by (simp add: sendFailure_def)
  qed
qed simp

text \<open>What comes before the submission stage: upkeep, a status message, one reception, its failure.\<close>

definition intake_event :: "event \<Rightarrow> bool" where
  "intake_event e \<longleftrightarrow> upkeep_event e \<or> broker_event e \<or> (\<exists>b. e = FlagRead b)"

lemma publishOwnStatus_events: "\<exists>es. trace (publishOwnStatus E P config s) = trace s @ es \<and> list_all intake_event es \<and>
    tally received_ticket es = {#}"
proof -
  obtain st u where r: "refreshOwnDeviceStatus E P (cmp_queue (cfg_compiler config)) s = (st, u)"
    by (cases "refreshOwnDeviceStatus E P (cmp_queue (cfg_compiler config)) s")
  from housekept_refresh [OF r] obtain es where es: "trace u = trace s @ es" "list_all upkeep_event es"
    by (auto simp: housekept_def)
  have "received_ticket e = None" if "e \<in> set es" for e
    using es(2) that by (cases e) (auto simp: list_all_iff)
  then have "tally received_ticket es = {#}" by (rule tally_none)
  moreover have "list_all intake_event es" using es(2) by (auto simp: list_all_iff intake_event_def)
  ultimately show ?thesis
    using r es(1) send_spec [of E "BackendMessage _" "sel_backendStatusQueue (cfg_selector config)" u]
    by (cases st) (force simp: publishOwnStatus_def intake_event_def)+
qed

lemma workerIntake_events: "\<exists>es. trace (workerIntake E C Q task s) = trace s @ es \<and> list_all intake_event es \<and>
    tally received_ticket es = {#}"
proof -
  obtain r task' t where run: "compileAndSchedule C Q task s = (r, task', t)" by (cases "compileAndSchedule C Q task s")
  note same = compileAndSchedule_ticket(2) [OF run]
  show ?thesis
  proof (cases r)
    case (Inl e)
    with run same send_spec [of E "ResultMessage (cancelQuantumTask task' (detail e))" "result_destination task'" t]
    show ?thesis by (force simp: workerIntake_def sendFailure_def intake_event_def)
  next
    case (Inr u)
    with run same show ?thesis by (simp add: workerIntake_def)
  qed
qed

lemma receiveNext_intake:
  assumes "receiveNext E (env_receiveTask E) TaskPolled q timeout (terminationRequested E) (workerIntake E C Q) s = Some (b, t)"
  shows "\<exists>es. trace t = trace s @ es \<and> list_all intake_event es \<and> size (tally received_ticket es) \<le> 1"
  using flag_ok_terminationRequested poll_idle_simps(1) assms
proof (cases rule: receiveNext_cases)
  case empty
  from emits_trace [OF empty(2)] obtain es where es: "trace t = trace s @ es" "list_all idle_event es" by blast
  then have "tally received_ticket es = {#}"
    using forwarding.idle_events by (intro tally_none) (auto simp: list_all_iff)
  moreover have "list_all intake_event es"
    using es(2) by (auto simp: list_all_iff intake_event_def elim!: idle_event.elims)
  ultimately show ?thesis using es(1) by auto
next
  case (message task u)
  from workerIntake_events [of E C Q task u] message(4) obtain fs where
    fs: "trace t = trace u @ fs" "list_all intake_event fs" "tally received_ticket fs = {#}" by blast
  have "idle_event e \<Longrightarrow> intake_event e" for e by (cases e rule: idle_event.cases) (simp_all add: intake_event_def)
  then have "list_all intake_event (new_events s u)"
    using message(3) by (auto simp: receive_outcome_def list_all_iff) (simp_all add: intake_event_def)
  with fs io_extends_trace [OF message(2)] forwarding.received_task(1) [OF message(3)] show ?thesis
    by (intro exI [of _ "new_events s u @ fs"]) simp
qed

text \<open>All a turn does, in the order of its stages.\<close>

lemma workerTurn_events:
  assumes "scheduler_ok Q contents" and "workerTurn E P C Q config s = Some t"
  shows "\<exists>intake submits collects upkeep.
    new_events s t = intake @ submits @ collects @ upkeep \<and>
    list_all intake_event intake \<and> list_all submitting_event submits \<and> list_all collecting_event collects \<and>
    list_all upkeep_event upkeep \<and> size (tally received_ticket intake) \<le> 1 \<and>
    (scheduler_eager Q contents \<and> FlagRead True \<notin> set submits \<longrightarrow> contents (schedulerState t) = {#})"
  using assms(2)
proof (rule workerTurn_stages)
  fix received s2 batch s3 s4
  assume r: "receiveNext E (env_receiveTask E) TaskPolled (cmp_queue (cfg_compiler config))
       (cmp_taskReceiveTimeout (cfg_compiler config)) (terminationRequested E) (workerIntake E C Q)
       (expireBackends E (publishOwnStatus E P config s)) = Some (received, s2)"
    and x: "submitReady E Q [] s2 = Some (batch, s3)" and c: "collectSubmitted E config batch s3 = Some s4"
    and z: "emits upkeep_event s4 t"
  obtain es0 where es0: "trace (publishOwnStatus E P config s) = trace s @ es0" "list_all intake_event es0"
    "tally received_ticket es0 = {#}" using publishOwnStatus_events by blast
  obtain now where "trace (expireBackends E (publishOwnStatus E P config s)) = trace s @ es0 @ [ClockRead now]"
    using es0(1) Clock_now_extends [of E "publishOwnStatus E P config s"] io_extends_trace
    by (cases "Clock_now E (publishOwnStatus E P config s)") (fastforce simp: expireBackends_def)
  with receiveNext_intake [OF r] obtain es1 where es1: "trace s2 = trace s @ es0 @ ClockRead now # es1"
    "list_all intake_event es1" "size (tally received_ticket es1) \<le> 1" by auto
  obtain es2 where es2: "trace s3 = trace s2 @ es2" "list_all submitting_event es2"
    "scheduler_eager Q contents \<and> FlagRead True \<notin> set es2 \<longrightarrow> contents (schedulerState s3) = {#}"
    using submitReady_events [OF assms(1) x] by blast
  note col = collectSubmitted_events [OF c]
  obtain es3 es4 where es34: "trace s4 = trace s3 @ es3" "list_all collecting_event es3"
    "trace t = trace s4 @ es4" "list_all upkeep_event es4"
    using emits_trace [OF col] emits_trace [OF z] by blast
  have "schedulerState t = schedulerState s3"
    using col z daemon_frame(4) [of s3 s4] daemon_frame(4) [of s4 t] by (simp add: emits_def)
  moreover have "new_events s t = (es0 @ ClockRead now # es1) @ es2 @ es3 @ es4"
    by (rule new_events_eq) (simp add: es1(1) es2(1) es34(1,3))
  moreover have "list_all intake_event (es0 @ ClockRead now # es1)" "size (tally received_ticket (es0 @ ClockRead now # es1)) \<le> 1"
    using es0 es1 by (simp_all add: intake_event_def)
  ultimately show ?thesis using es2(2,3) es34(2,4) by metis
qed

section \<open>Stages end\<close>

lemma submitReady_returns:
  assumes "scheduler_ok Q contents"
  shows "\<exists>L' t. submitReady E Q L s = Some (L', t)"
proof (induction "size (contents (schedulerState s))" arbitrary: L s rule: less_induct)
  case less
  obtain nextTask q where n: "getNextReadyTask Q (schedulerState s) = (nextTask, q)" by (cases "getNextReadyTask Q (schedulerState s)")
  show ?case
  proof (cases nextTask)
    case None
    with n show ?thesis by (subst submitReady.simps) simp
  next
    case (Some task)
    obtain r u where x: "submitQuantumTask E (terminationRequested E) task (s\<lparr>schedulerState := q\<rparr>) = (r, u)"
      by (cases "submitQuantumTask E (terminationRequested E) task (s\<lparr>schedulerState := q\<rparr>)")
    from daemon_frame(4) [OF submitQuantumTask_extends [OF flag_ok_terminationRequested x]]
    have "schedulerState u = q" by simp
    then have "size (contents (schedulerState u)) < size (contents (schedulerState s))"
      using assms n Some by (simp add: scheduler_ok_def)
    with less n Some x show ?thesis
      by (subst submitReady.simps) (auto split: sum.splits)
  qed
qed

lemma collectSubmitted_returns:
  assumes "steady_env E clock" and "0 < sub_jobWaitTimeout (cfg_submitter config)"
    and "fits64 (sub_jobWaitTimeout (cfg_submitter config) * 1000000000)"
  shows "\<exists>t. collectSubmitted E config L s = Some t"
proof (induction L arbitrary: s)
  case (Cons x L)
  obtain task jobs where x: "x = (task, jobs)" by (cases x)
  obtain r u where "collectQuantumResult E (terminationRequested E) task jobs (sub_jobWaitTimeout (cfg_submitter config)) s = Some (r, u)"
    using collectQuantumResult_bounded [OF flag_ok_terminationRequested assms(1)
        flag_steady_terminationRequested [OF assms(1)] assms(2,3)] by blast
  with x Cons.IH show ?case by (auto split: sum.splits)
qed simp

section \<open>Properties\<close>

text \<open>C3: A turn of the worker takes at most one task from its queue and submits every ready task to the
  device before it waits for or reads the results of any, so that the jobs of several tasks are in
  flight at once. With an eager scheduler and no shutdown request it answers every task: the tasks it
  received or already held are exactly those to whose owners a result or a failure was sent, each once,
  and none stays behind.\<close>

theorem worker_turn_correct:
  assumes "scheduler_ok Q contents" and "workerTurn E P C Q config s = Some t"
  shows "size (tally received_ticket (new_events s t)) \<le> 1 \<and>
    (\<exists>es fs. new_events s t = es @ fs \<and>
       (\<forall>job r. JobWaited job r \<notin> set es) \<and> (\<forall>job r. CountsRead job r \<notin> set es) \<and>
       (\<forall>q p r. JobSubmitted q p r \<notin> set fs)) \<and>
    (scheduler_eager Q contents \<and> FlagRead True \<notin> set (new_events s t) \<longrightarrow>
       tally answered_ticket (new_events s t) =
         tally received_ticket (new_events s t) + image_mset ticket (contents (schedulerState s)) \<and>
       contents (schedulerState t) = {#})"
proof -
  from workerTurn_events [OF assms] obtain es1 es2 es3 es4 where ev: "new_events s t = es1 @ es2 @ es3 @ es4"
    and all: "list_all intake_event es1" "list_all submitting_event es2" "list_all collecting_event es3" "list_all upkeep_event es4"
    and one: "size (tally received_ticket es1) \<le> 1"
    and none: "scheduler_eager Q contents \<and> FlagRead True \<notin> set es2 \<longrightarrow> contents (schedulerState t) = {#}"
    by blast
  have "received_ticket e = None" if "e \<in> set (es2 @ es3 @ es4)" for e
    by (cases e) (use that all in \<open>auto simp: list_all_iff submitting_event_def collecting_event_def\<close>)
  then have "tally received_ticket (es2 @ es3 @ es4) = {#}" by (rule tally_none)
  then have size: "size (tally received_ticket (new_events s t)) \<le> 1" using one ev by simp
  have "JobWaited job r \<notin> set (es1 @ es2)" "CountsRead job c \<notin> set (es1 @ es2)" "JobSubmitted q p u \<notin> set (es3 @ es4)"
    for job r c q p u
    using all by (force simp: list_all_iff intake_event_def submitting_event_def collecting_event_def)+
  then have order: "\<exists>es fs. new_events s t = es @ fs \<and>
       (\<forall>job r. JobWaited job r \<notin> set es) \<and> (\<forall>job r. CountsRead job r \<notin> set es) \<and>
       (\<forall>q p r. JobSubmitted q p r \<notin> set fs)"
    using ev by (intro exI [of _ "es1 @ es2"] exI [of _ "es3 @ es4"]) simp
  have "tally answered_ticket (new_events s t) =
         tally received_ticket (new_events s t) + image_mset ticket (contents (schedulerState s)) \<and>
       contents (schedulerState t) = {#}"
    if "scheduler_eager Q contents \<and> FlagRead True \<notin> set (new_events s t)"
    using settles_books(2) [OF settles_workerTurn [OF assms]] none that ev by (simp add: held_tickets_def)
  with size order show ?thesis by blast
qed

text \<open>A worker with one task waiting in its queue.\<close>

definition worker_env :: "nat environment" where
  "worker_env = sample_env\<lparr>env_receiveTask := (\<lambda>_ _ w.
     if w < 4 then (Inr (sample_quake_task\<lparr>circuit_files := [''b''], scheduled_qpu := ''cxxdevice5q''\<rparr>, w), 4 + w)
     else (Inl \<lparr>status_code = StatusTimeout, reason = ''empty''\<rparr>, w))\<rparr>"

lemma sample_worker_turn:
  "case workerTurn worker_env sample_protocol sample_compiler sample_scheduler sample_config
      (snd (terminationRequested worker_env sample_daemon)) of
     None \<Rightarrow> False | Some t \<Rightarrow> no_shutdown (trace t) \<and> length (List.map_filter answered_ticket (trace t)) = 1"
  by code_simp

theorem worker_turn_correct_witness:
  "\<exists>t. workerTurn worker_env sample_protocol sample_compiler sample_scheduler sample_config
      (snd (terminationRequested worker_env sample_daemon)) = Some t \<and>
    tally answered_ticket (trace t) = tally received_ticket (trace t) \<and> size (tally answered_ticket (trace t)) = 1"
proof -
  let ?s = "snd (terminationRequested worker_env sample_daemon)"
  obtain t where run: "workerTurn worker_env sample_protocol sample_compiler sample_scheduler sample_config ?s = Some t"
    and t: "no_shutdown (trace t)" "length (List.map_filter answered_ticket (trace t)) = 1"
    using sample_worker_turn by (auto split: option.splits)
  have s: "trace ?s = [FlagRead False]" "schedulerState ?s = []"
    by (simp_all add: terminationRequested_def ext_call_def worker_env_def sample_env_def sample_daemon_def)
  obtain es where "trace t = trace ?s @ es"
    using settles_workerTurn [OF sample_scheduler_ok run] by (auto simp: settles_def)
  then have ev: "trace t = FlagRead False # new_events ?s t" using s(1) by (simp add: new_events_def)
  have "FlagRead True \<notin> set (new_events ?s t)" using t(1) unfolding ev by (auto simp: no_shutdown_def list_all_iff)
  with worker_turn_correct [OF sample_scheduler_ok run] sample_scheduler_eager
  have "tally answered_ticket (trace t) = tally received_ticket (trace t)" unfolding ev by (simp add: s(2))
  with run t(2) show ?thesis by (simp add: tally_def)
qed

text \<open>C17: Over any number of turns the worker answers each task at most once and answers only tasks it
  received: the answers sent, together with the tasks still scheduled, are among the tasks received and
  those scheduled at the start. Nothing is missing from them unless a shutdown request was seen; in
  particular no task is lost between its submission and the collection of its results.\<close>

theorem worker_run_accounts:
  assumes "scheduler_ok Q contents" and "turns E (workerTurn E P C Q config) s t"
  shows "tally answered_ticket (new_events s t) + image_mset ticket (contents (schedulerState t)) \<subseteq>#
      tally received_ticket (new_events s t) + image_mset ticket (contents (schedulerState s)) \<and>
    (FlagRead True \<notin> set (new_events s t) \<longrightarrow>
      tally answered_ticket (new_events s t) + image_mset ticket (contents (schedulerState t)) =
      tally received_ticket (new_events s t) + image_mset ticket (contents (schedulerState s)))"
proof -
  from worker.reached [OF assms(2), of contents] assms(1)
  have "settles answered_ticket (held_tickets contents) {#} s t" by (simp add: books_kept_def)
  from settles_books [OF this] show ?thesis by (simp add: held_tickets_def)
qed

theorem worker_run_accounts_witness:
  "\<exists>t. turns worker_env (workerTurn worker_env sample_protocol sample_compiler sample_scheduler sample_config)
      sample_daemon t \<and> size (tally answered_ticket (trace t)) = 1 \<and>
    tally answered_ticket (trace t) \<subseteq># tally received_ticket (trace t)"
proof -
  let ?s = "snd (terminationRequested worker_env sample_daemon)"
    and ?turn = "workerTurn worker_env sample_protocol sample_compiler sample_scheduler sample_config"
  obtain t where turn: "?turn ?s = Some t" and t: "length (List.map_filter answered_ticket (trace t)) = 1"
    using sample_worker_turn by (auto split: option.splits)
  have "terminationRequested worker_env sample_daemon = (False, ?s)"
    by (simp add: terminationRequested_def ext_call_def worker_env_def sample_env_def)
  with turn have run: "turns worker_env ?turn sample_daemon t" by (blast intro: turns.intros)
  have "new_events sample_daemon t = trace t" "schedulerState sample_daemon = []"
    by (simp_all add: new_events_def sample_daemon_def)
  with worker_run_accounts [OF sample_scheduler_ok run] run t show ?thesis
    by (auto simp: tally_def intro: subset_mset.order_trans [OF mset_subset_eq_add_left])
qed

text \<open>No turn of the worker hangs. With a configuration the loader accepts that sets a job timeout
  (representable in nanoseconds), a device whose timed-out waits last as long as asked and a scheduler
  that keeps its promise, every turn returns, whatever the broker, the compiler and the jobs do.\<close>

theorem workerTurn_returns:
  assumes "valid_config config" and "scheduler_ok Q contents" and "steady_env E clock"
    and "0 < sub_jobWaitTimeout (cfg_submitter config)" and "fits64 (sub_jobWaitTimeout (cfg_submitter config) * 1000000000)"
  shows "\<exists>t. workerTurn E P C Q config s = Some t"
proof -
  have "cmp_taskReceiveTimeout (cfg_compiler config) \<noteq> WaitForever"
    using assms(1) by (auto simp: valid_config_def WaitForever_def)
  then obtain b s2 where r: "receiveNext E (env_receiveTask E) TaskPolled (cmp_queue (cfg_compiler config))
       (cmp_taskReceiveTimeout (cfg_compiler config)) (terminationRequested E) (workerIntake E C Q)
       (expireBackends E (publishOwnStatus E P config s)) = Some (b, s2)"
    using receiveNext_bounded by blast
  obtain batch s3 where x: "submitReady E Q [] s2 = Some (batch, s3)" using submitReady_returns [OF assms(2)] by blast
  obtain s4 where "collectSubmitted E config batch s3 = Some s4" using collectSubmitted_returns [OF assms(3-5)] by blast
  with r x show ?thesis by (simp add: workerTurn_def)
qed

lemma sample_config_valid: "valid_config sample_config"
  by (simp add: valid_config_def valid_connection_def valid_submitter_def sample_config_def wrap64_def signed_take_bit_int_eq_self)

theorem workerTurn_returns_witness:
  "\<exists>t. workerTurn stuck_env sample_protocol sample_compiler sample_scheduler sample_config
     (sample_daemon\<lparr>schedulerState := [sample_task, sample_task]\<rparr>) = Some t"
  by (rule workerTurn_returns [OF sample_config_valid sample_scheduler_ok stuck_env_steady])
    (simp_all add: sample_config_def fits64_def)

text \<open>C22: No turn of the worker hangs, and a worker asked to stop exits. With a configuration the loader
  accepts that sets a job timeout (representable in nanoseconds), a device whose timed-out waits last as
  long as asked and a scheduler that keeps its promise, any number of turns can be taken, whatever the
  broker, the compiler and the jobs do; and if the termination flag is set by the time they are over, the
  whole loop ends, with a shutdown request as the last thing read.\<close>

theorem worker_exits_when_asked:
  assumes "valid_config config" and "scheduler_ok Q contents" and "steady_env E clock"
    and "0 < sub_jobWaitTimeout (cfg_submitter config)" and "fits64 (sub_jobWaitTimeout (cfg_submitter config) * 1000000000)"
  shows "(\<exists>t. after_turns E (workerTurn E P C Q config) n s = Some t) \<and>
    (asked_after E (workerTurn E P C Q config) n s \<longrightarrow>
      (\<exists>t. workLoop E (workerTurn E P C Q config) s = Some t \<and> last (trace t) = FlagRead True))"
proof
  show "\<exists>t. after_turns E (workerTurn E P C Q config) n s = Some t"
    by (rule after_turns_returns) (rule workerTurn_returns [OF assms])
  show "asked_after E (workerTurn E P C Q config) n s \<longrightarrow>
      (\<exists>t. workLoop E (workerTurn E P C Q config) s = Some t \<and> last (trace t) = FlagRead True)"
    using workLoop_ends workLoop_ends_on_request by blast
qed

lemma sample_worker_asked:
  "asked_after interrupted_env (workerTurn interrupted_env sample_protocol sample_compiler sample_scheduler sample_config) 1 sample_daemon"
  by code_simp

theorem worker_exits_when_asked_witness:
  "\<exists>t. workLoop interrupted_env (workerTurn interrupted_env sample_protocol sample_compiler sample_scheduler sample_config)
     sample_daemon = Some t \<and> last (trace t) = FlagRead True"
proof -
  have "0 < sub_jobWaitTimeout (cfg_submitter sample_config)" "fits64 (sub_jobWaitTimeout (cfg_submitter sample_config) * 1000000000)"
    by (simp_all add: sample_config_def fits64_def)
  from worker_exits_when_asked [OF sample_config_valid sample_scheduler_ok interrupted_env_steady this] sample_worker_asked
  show ?thesis by blast
qed

lemma workerMain_eq:
  "workerMain T F E P C Q c q s = deviceMain T F E (\<lambda>config. cmp_queue (cfg_compiler config)) (workerTurn E P C Q) c q s"
  unfolding workerMain_def deviceMain_def newDaemon_def Let_def by (rule refl)

lemma sample_worker_main:
  obtains t where "workerMain sample_toml (sample_platform sample_environment (Some sample_document)) halted_env sample_protocol
    sample_compiler sample_scheduler () [] sample_io = Some (EXIT_SUCCESS, t)"
proof -
  obtain config where "loadConfig sample_toml (sample_platform sample_environment (Some sample_document)) = Inr config"
    using sample_load by blast
  from initializeDaemon_success [OF this, of halted_env sample_io] obtain l s0 where
    "initializeDaemon sample_toml (sample_platform sample_environment (Some sample_document)) halted_env sample_io =
      (Inr config, Some l, s0)" .
  with that show thesis
    by (simp add: workerMain_def openConfiguredDevice_def registerOwnDevice_def fromSubmitter_def
        readCouplingMap_def ext_call_def Clock_now_def halted_env_def sample_env_def workLoop.simps terminationRequested_def)
qed

text \<open>C33: A worker that cannot start exits with the failure code without having touched the broker: no
  task is taken from a queue and nothing is published. It exits with the success code only by a
  shutdown request read at the head of its loop, which it entered with its device registered under the
  very queue it receives tasks from, the registry and the publication throttle set up from the
  configuration, and the broker untouched.\<close>

theorem workerMain_starts_clean:
  assumes "workerMain T F E P C Q c q s = Some (rc, t)"
  shows "(rc = EXIT_FAILURE \<longrightarrow> silent s t) \<and>
    (rc = EXIT_SUCCESS \<longrightarrow>
       (\<exists>config d u. loadConfig T F = Inr config \<and> started E (cmp_queue (cfg_compiler config)) config s q d \<and>
          turns E (workerTurn E P C Q config) d u \<and> trace t = trace u @ [FlagRead True]))"
  using deviceMain_outcome [OF assms [unfolded workerMain_eq]] .

theorem workerMain_starts_clean_witness:
  "\<exists>t. workerMain sample_toml (sample_platform sample_environment (Some sample_document)) halted_env sample_protocol
       sample_compiler sample_scheduler () [] sample_io = Some (EXIT_SUCCESS, t) \<and> last (trace t) = FlagRead True"
proof -
  obtain t where run: "workerMain sample_toml (sample_platform sample_environment (Some sample_document)) halted_env sample_protocol
    sample_compiler sample_scheduler () [] sample_io = Some (EXIT_SUCCESS, t)" using sample_worker_main .
  with workerMain_starts_clean [OF run] show ?thesis by auto
qed

end
