(* ===== verification/Daemon_Protocol.thy ===== *)
theory Daemon_Protocol
  imports External_Protocol Standalone_App Selector_App Worker_App
begin

text \<open>
  The three daemons hold the conversations of \<open>External_Protocol\<close>: every turn of their loops, hence every
  run of them, and the whole of their \<open>main\<close> functions. From this follow what a shutdown request means,
  how deliveries and jobs are treated, and that what is sent is well formed.
\<close>

section \<open>Roles\<close>

text \<open>
  The messages besides results. The selector forwards tasks; a worker announces its own device, on the
  status queue, with the queue it receives its tasks from; the standalone daemon sends nothing else.
\<close>

definition answers_only :: "string \<Rightarrow> Message \<Rightarrow> bool" where
  "answers_only q m \<longleftrightarrow> False"

definition forwards :: "string \<Rightarrow> Message \<Rightarrow> bool" where
  "forwards q m \<longleftrightarrow> (\<exists>task. m = TaskMessage task)"

definition announces :: "'w environment \<Rightarrow> Config \<Rightarrow> string \<Rightarrow> Message \<Rightarrow> bool" where
  "announces E config q m \<longleftrightarrow>
     (\<exists>b. m = BackendMessage b \<and> q = sel_backendStatusQueue (cfg_selector config) \<and>
        pb_name b = env_deviceId E \<and> pb_queue_name b = cmp_queue (cfg_compiler config))"

section \<open>The turns\<close>

lemma converses_refresh: "refreshOwnDeviceStatus E P q s = (st, t) \<Longrightarrow> converses may s t"
  by (rule converses_housekept [OF housekept_refresh])

lemma converses_standaloneIntake: "converses may s (standaloneIntake E C Q config task s)"
proof -
  obtain r task' t where run: "selectCompileAndSchedule C Q (sel_selectionPolicy (cfg_selector config)) task s = (r, task', t)"
    by (cases "selectCompileAndSchedule C Q (sel_selectionPolicy (cfg_selector config)) task s")
  then have "trace t = trace s"
    by (auto simp: selectCompileAndSchedule_def split: sum.splits dest: compileAndSchedule_ticket(2))
  then have "converses may s t" by (rule converses_local)
  with run converses_trans [OF this converses_sendFailure] show ?thesis
    by (auto simp: standaloneIntake_def split: sum.splits)
qed

lemma converses_executeReady: "executeReady E Q config b s = Some (b', t) \<Longrightarrow> converses may s t"
proof (induction rule: executeReady_induct)
  case (answered b s q task res u b' t)
  have "converses may s u" using converses_executeQuantumTask [OF answered(2)] by simp
  from converses_trans [OF converses_trans [OF this converses_sendResult [OF executeQuantumTask_well_formed [OF answered(2)]]] answered(3)]
  show ?case .
next
  case (failed b s q task e u b' t)
  have "converses may s u" using converses_executeQuantumTask [OF failed(2)] by simp
  from converses_trans [OF converses_trans [OF this converses_sendFailure] failed(4)] show ?case .
next
  case (shutdown b s q task e u)
  show ?case using converses_executeQuantumTask [OF shutdown(2)] by simp
qed simp

lemma converses_standaloneTurn:
  assumes "standaloneTurn E P C Q config s = Some t"
  shows "converses may s t"
  using assms
proof (rule standaloneTurn_stages)
  fix s1 received s2 executed s3
  assume st: "housekept s s1" "drainQueue E (env_receiveTask E) TaskPolled (com_qrmciQueue (cfg_common config))
      (terminationRequested E) (standaloneIntake E C Q config) s1 = Some (received, s2)"
    "executeReady E Q config False s2 = Some (executed, s3)" "housekept s3 t"
  note converses_housekept [OF st(1)]
  also note converses_drainQueue [OF poll_exchanges_simps(1) converses_standaloneIntake st(2)]
  also note converses_executeReady [OF st(3)]
  also note converses_housekept [OF st(4)]
  finally show ?thesis .
qed

lemma converses_selectorStatus: "converses may s (selectorStatus E P status s)"
  by (auto simp: selectorStatus_def split: sum.splits prod.splits dest: converses_clock)

lemma converses_selectorTask: "converses forwards s (selectorTask E C config task s)"
  by (auto simp: selectorTask_def split: sum.splits option.splits
      intro!: converses_sendFailure converses_send exchange.forward simp: forwards_def)

lemma converses_selectorTurn:
  assumes "selectorTurn E P C config s = Some t"
  shows "converses forwards s t"
proof -
  from assms obtain b s1 received s2 where
    d: "drainQueue E (env_receiveBackend E) BackendPolled (sel_backendStatusQueue (cfg_selector config))
      (terminationRequested E) (selectorStatus E P) s = Some (b, s1)" and
    x: "drainQueue E (env_receiveTask E) TaskPolled (com_qrmciQueue (cfg_common config)) (terminationRequested E)
      (selectorTask E C config) (expireBackends E s1) = Some (received, s2)" and
    t: "t = (if \<not> received then sleepFor E (com_stagePollInterval (cfg_common config)) s2 else s2)"
    unfolding selectorTurn_def Let_def by (auto split: Option.bind_splits)
  note converses_drainQueue [OF poll_exchanges_simps(2) converses_selectorStatus d]
  also note converses_expire
  also note converses_drainQueue [OF poll_exchanges_simps(1) converses_selectorTask x]
  also have "converses forwards s2 t" by (simp add: t converses_sleep)
  finally show ?thesis .
qed

lemma converses_workerIntake: "converses may s (workerIntake E C Q task s)"
proof -
  obtain r task' t where run: "compileAndSchedule C Q task s = (r, task', t)" by (cases "compileAndSchedule C Q task s")
  have "converses may s t" by (rule converses_local [OF compileAndSchedule_ticket(2) [OF run]])
  with run converses_trans [OF this converses_sendFailure] show ?thesis
    by (auto simp: workerIntake_def split: sum.splits)
qed

lemma converses_publish: "converses (announces E config) s (publishOwnStatus E P config s)"
proof -
  obtain st u where r: "refreshOwnDeviceStatus E P (cmp_queue (cfg_compiler config)) s = (st, u)"
    by (cases "refreshOwnDeviceStatus E P (cmp_queue (cfg_compiler config)) s")
  note u = converses_refresh [OF r, of "announces E config"]
  show ?thesis
  proof (cases st)
    case None
    with r u show ?thesis by (simp add: publishOwnStatus_def)
  next
    case (Some status)
    have "pb_name status = env_deviceId E" "pb_queue_name status = cmp_queue (cfg_compiler config)"
      using r Some by (auto elim!: refreshOwnDeviceStatus_cases simp: toBackend_def)
    then have "converses (announces E config) u
        (send E (BackendMessage status) (sel_backendStatusQueue (cfg_selector config)) u)"
      by (intro converses_send exchange.announce) (simp add: announces_def)
    from converses_trans [OF u this] r Some show ?thesis by (simp add: publishOwnStatus_def)
  qed
qed

text \<open>The tasks the submission stage hands on carry circuits.\<close>

lemma converses_submitReady:
  "submitReady E Q L s = Some (L', t) \<Longrightarrow>
     converses may s t \<and> ((\<forall>x \<in> set L. circuit_files (fst x) \<noteq> []) \<longrightarrow> (\<forall>x \<in> set L'. circuit_files (fst x) \<noteq> []))"
proof (induction rule: submitReady_induct)
  case (submitted L s q task jobs u L' t)
  have "converses may s u" using converses_submitQuantumTask [OF submitted(2)] by simp
  with submitted(3) submitQuantumTask_circuits [OF submitted(2)] show ?case by (auto intro: converses_trans)
next
  case (failed L s q task e u L' t)
  have "converses may s u" using converses_submitQuantumTask [OF failed(2)] by simp
  from converses_trans [OF this converses_sendFailure] failed(4) show ?case by (blast intro: converses_trans)
next
  case (shutdown L s q task e u)
  show ?case using converses_submitQuantumTask [OF shutdown(2)] by simp
qed simp

lemma converses_collectSubmitted:
  "collectSubmitted E config L s = Some t \<Longrightarrow> (\<forall>x \<in> set L. circuit_files (fst x) \<noteq> []) \<Longrightarrow> converses may s t"
proof (induction L arbitrary: s)
  case (Cons x L)
  obtain task jobs where x: "x = (task, jobs)" by (cases x)
  with Cons.prems(2) have circuits: "circuit_files task \<noteq> []" by simp
  from Cons.prems(1) [unfolded x] show ?case
  proof (cases rule: collectSubmitted_cases)
    case (answered res u)
    note converses_collectQuantumResult [OF answered(1)]
    also note converses_sendResult [OF collectQuantumResult_well_formed [OF answered(1) circuits]]
    also have "converses may (sendResult E task res u) t" using Cons.IH [OF answered(2)] Cons.prems(2) by simp
    finally show ?thesis .
  next
    case (shutdown e)
    show ?thesis by (rule converses_collectQuantumResult [OF shutdown(1)])
  next
    case (failed e u)
    note converses_collectQuantumResult [OF failed(1)]
    also note converses_sendFailure
    also have "converses may (sendFailure E task e u) t" using Cons.IH [OF failed(2)] Cons.prems(2) by simp
    finally show ?thesis .
  qed
qed simp

lemma converses_workerTurn:
  assumes "workerTurn E P C Q config s = Some t"
  shows "converses (announces E config) s t"
  using assms
proof (rule workerTurn_stages)
  fix received s2 batch s3 s4
  assume r: "receiveNext E (env_receiveTask E) TaskPolled (cmp_queue (cfg_compiler config))
       (cmp_taskReceiveTimeout (cfg_compiler config)) (terminationRequested E) (workerIntake E C Q)
       (expireBackends E (publishOwnStatus E P config s)) = Some (received, s2)"
    and x: "submitReady E Q [] s2 = Some (batch, s3)" and c: "collectSubmitted E config batch s3 = Some s4"
    and z: "emits upkeep_event s4 t"
  note converses_publish
  also note converses_expire
  also note converses_receiveNext [OF poll_exchanges_simps(1) converses_workerIntake r]
  also have "converses (announces E config) s2 s3" using converses_submitReady [OF x] by simp
  also have "converses (announces E config) s3 s4" using converses_submitReady [OF x] by (intro converses_collectSubmitted [OF c]) simp
  also have "converses (announces E config) s4 t" by (rule converses_emits [OF z exchange.upkeep])
  finally show ?thesis .
qed

section \<open>The loops and the processes\<close>

interpretation standalone_protocol: work_loop E "standaloneTurn E P C Q config" "converses answers_only" for E P C Q config
  by unfold_locales (auto intro: converses_trans converses_flag converses_standaloneTurn)

interpretation selector_protocol: work_loop E "selectorTurn E P C config" "converses forwards" for E P C config
  by unfold_locales (auto intro: converses_trans converses_flag converses_selectorTurn)

interpretation worker_protocol: work_loop E "workerTurn E P C Q config" "converses (announces E config)" for E P C Q config
  by unfold_locales (auto intro: converses_trans converses_flag converses_workerTurn)

text \<open>The external calls of a daemon, from the head of its loop to any later time it is there again.\<close>

inductive daemon_events ::
  "'w environment \<Rightarrow> protocol \<Rightarrow> 'c compiler \<Rightarrow> 'q scheduler \<Rightarrow> event list \<Rightarrow> bool" for E P C Q where
  standalone: "turns E (standaloneTurn E P C Q config) (s :: ('w, 'c, 'q) daemon) t \<Longrightarrow> daemon_events E P C Q (new_events s t)"
| selector: "turns E (selectorTurn E P C config) (n :: 'w node) m \<Longrightarrow> daemon_events E P C Q (new_events n m)"
| worker: "turns E (workerTurn E P C Q config) (s :: ('w, 'c, 'q) daemon) t \<Longrightarrow> daemon_events E P C Q (new_events s t)"

lemma daemon_conversation: "daemon_events E P C Q es \<Longrightarrow> \<exists>may. conversation may es"
  by (induction rule: daemon_events.induct)
    (blast intro: converses_new_events standalone_protocol.reached selector_protocol.reached worker_protocol.reached)+

lemma daemon_typed: "daemon_events E P C Q es \<Longrightarrow> list_all typed_event es"
  using daemon_conversation conversation_typed by blast

lemma converses_retype: "converses may s t \<Longrightarrow> trace s' = trace s \<Longrightarrow> trace t' = trace t \<Longrightarrow> converses may s' t'"
  by (simp add: converses_def)

lemma converses_workLoop:
  assumes "workLoop E turn s = Some t" and turn: "\<And>s t. turn s = Some t \<Longrightarrow> converses may s t"
  shows "converses may s t"
  using assms(1)
proof (induction rule: workLoop_induct)
  case (stop s t)
  then show ?case by (rule converses_flag)
next
  case (turn s s1 s2 t)
  from converses_trans [OF converses_trans [OF converses_flag [OF turn(1)] assms(2) [OF turn(2)]] turn(3)] show ?case .
qed

lemma converses_deviceMain:
  assumes "deviceMain T F E dispatchQueue turn c q s = Some (rc, t)"
    and turn: "\<And>s t. turn config s = Some t \<Longrightarrow> converses may s t" and config: "loadConfig T F = Inr config"
  shows "converses may s t"
  using assms(1)
proof (cases rule: deviceMain_cases)
  case (unconfigured e)
  with config show ?thesis by simp
next
  case (no_device config' l s0 e)
  from converses_trans [OF converses_initialize [OF no_device(2)] converses_open [OF no_device(3)]] show ?thesis .
next
  case (unreadable config' l s0 s1 e d)
  note converses_trans [OF converses_initialize [OF unreadable(2)] converses_open [OF unreadable(3)]]
  also have "converses may s1 t"
    by (rule converses_retype [OF converses_housekept [OF housekept_register [OF unreadable(4)]]])
      (simp_all add: newDaemon_def unreadable(6))
  finally show ?thesis .
next
  case (ran config' l s0 s1 d d2)
  have "config' = config" using ran(1) config by simp
  with converses_workLoop [OF ran(5)] turn have "converses may d d2" by simp
  from converses_trans [OF converses_housekept [OF housekept_register [OF ran(4)]] this]
  have "converses may (newDaemon config' c q s1) d2" .
  then have s1: "converses may s1 t" by (rule converses_retype) (simp_all add: newDaemon_def ran(7))
  from converses_trans [OF converses_trans [OF converses_initialize [OF ran(2)] converses_open [OF ran(3)]] s1] show ?thesis .
qed

lemma converses_selectorMain:
  assumes "selectorMain T F E P C s = Some (rc, t)"
  shows "converses forwards s t"
proof -
  obtain r l s0 where i: "initializeDaemon T F E s = (r, l, s0)" by (cases "initializeDaemon T F E s")
  note s0 = converses_initialize [OF i]
  show ?thesis
  proof (cases r)
    case (Inl e)
    with assms i s0 show ?thesis by (simp add: selectorMain_def)
  next
    case (Inr config)
    let ?n = "\<lparr>world = world s0, trace = trace s0,
       registry = BackendRegistry_new (nanoseconds (reg_entryTimeToLive (sel_backendRegistry (cfg_selector config))))\<rparr>"
    from assms i Inr obtain n where n: "workLoop E (selectorTurn E P C config) ?n = Some n" "trace t = trace n"
      by (auto simp: selectorMain_def Let_def split: Option.bind_splits)
    have "converses forwards s0 t"
      by (rule converses_retype [OF converses_workLoop [OF n(1) converses_selectorTurn]]) (simp_all add: n(2))
    with s0 show ?thesis by (rule converses_trans)
  qed
qed

section \<open>Readings of the flag\<close>

definition flag_readings :: "event list \<Rightarrow> bool list" where
  "flag_readings es = List.map_filter (\<lambda>e. case e of FlagRead b \<Rightarrow> Some b | _ \<Rightarrow> None) es"

lemma flag_readings_simps [simp]:
  "flag_readings [] = []"
  "flag_readings (FlagRead b # es) = b # flag_readings es"
  "flag_readings (es @ fs) = flag_readings es @ flag_readings fs"
  by (simp_all add: flag_readings_def List.map_filter_def)

lemma flag_readings_set: "b \<in> set (flag_readings es) \<longleftrightarrow> FlagRead b \<in> set es"
  by (induction es) (auto simp: flag_readings_def List.map_filter_def split: event.splits)

section \<open>Properties\<close>

text \<open>C6: The three processes implement the abstract protocol, each in its role. Every whole run of a
  daemon's \<open>main\<close> on a valid configuration, and every stretch of a daemon's loop however long it runs
  on, is a sequence of the exchanges the protocol allows: the flag is read, found clear, and then one
  poll, one submission or one wait follows; a delivery is acknowledged in the same exchange; counts are
  read in the exchange that saw the job done; jobs are cancelled only in an exchange that began with a
  shutdown request; each request and each result sent is well formed. Besides results the standalone
  daemon sends nothing, the selector only tasks, and a worker only announcements of its own device, on
  the status queue, that name the queue it receives its tasks from.\<close>

theorem processes_follow_protocol:
  assumes "loadConfig T F = Inr config"
  shows "(standaloneMain T F E P C Q c q s = Some (rc, t) \<longrightarrow> conversation answers_only (new_events s t)) \<and>
    (workerMain T F E P C Q c q s = Some (rc, t) \<longrightarrow> conversation (announces E config) (new_events s t)) \<and>
    (selectorMain T F E P C s = Some (rc, t) \<longrightarrow> conversation forwards (new_events s t)) \<and>
    (turns E (standaloneTurn E P C Q config) d u \<longrightarrow> conversation answers_only (new_events d u)) \<and>
    (turns E (workerTurn E P C Q config) d u \<longrightarrow> conversation (announces E config) (new_events d u)) \<and>
    (turns E (selectorTurn E P C config) n m \<longrightarrow> conversation forwards (new_events n m))"
proof (intro conjI impI converses_new_events)
  assume "standaloneMain T F E P C Q c q s = Some (rc, t)"
  from converses_deviceMain [OF this [unfolded standaloneMain_eq] converses_standaloneTurn assms]
  show "converses answers_only s t" .
next
  assume "workerMain T F E P C Q c q s = Some (rc, t)"
  from converses_deviceMain [OF this [unfolded workerMain_eq] converses_workerTurn assms]
  show "converses (announces E config) s t" .
qed (fact converses_selectorMain standalone_protocol.reached worker_protocol.reached selector_protocol.reached)+

theorem processes_follow_protocol_witness:
  "\<exists>config t. loadConfig sample_toml (sample_platform sample_environment (Some sample_document)) = Inr config \<and>
     workerMain sample_toml (sample_platform sample_environment (Some sample_document)) halted_env sample_protocol
       sample_compiler sample_scheduler () [] sample_io = Some (EXIT_SUCCESS, t) \<and>
     conversation (announces halted_env config) (trace t)"
proof -
  let ?F = "sample_platform sample_environment (Some sample_document)"
  obtain config where config: "loadConfig sample_toml ?F = Inr config" using sample_load by blast
  obtain t where run: "workerMain sample_toml ?F halted_env sample_protocol sample_compiler sample_scheduler () [] sample_io =
    Some (EXIT_SUCCESS, t)" using sample_worker_main .
  have "new_events sample_io t = trace t" by (simp add: new_events_def sample_io_def)
  with run config processes_follow_protocol [OF config, of halted_env sample_protocol sample_compiler sample_scheduler "()" "[]"
      sample_io EXIT_SUCCESS t] show ?thesis by auto
qed

text \<open>C7: A shutdown request is final for every daemon. When the flag is what the signal handlers make of
  the signals that arrive, then from the first time a daemon reads it set it takes no more messages from
  the broker, submits no job, and waits for and reads the results of none, for the rest of its run.\<close>

theorem shutdown_request_is_final:
  assumes "daemon_events E P C Q es" and "flag_readings es = flag_loads requested arrivals"
    and "es = before @ FlagRead True # after"
  shows "\<forall>e \<in> set after. \<not> work_event e"
proof -
  have "flag_loads requested arrivals = flag_readings before @ True # flag_readings after"
    using assms(2,3) by simp
  then have "FlagRead False \<notin> set after" using flag_loads_latch flag_readings_set by metis
  moreover obtain may where "conversation may es" using daemon_conversation [OF assms(1)] by blast
  ultimately have "\<not> list_ex work_event after" using conversation_shutdown assms(3) by blast
  then show ?thesis by (simp add: list_ex_iff)
qed

text \<open>A selector that is interrupted while it looks after its registry.\<close>

lemma sample_interrupted_turn:
  "case selectorTurn interrupted_env sample_protocol sample_compiler sample_config
      (snd (terminationRequested interrupted_env sample_selector)) of
     None \<Rightarrow> False | Some t \<Rightarrow> flag_readings (trace t) = [False, False, True]"
  by code_simp

theorem shutdown_request_is_final_witness:
  "\<exists>before after. daemon_events interrupted_env sample_protocol sample_compiler sample_scheduler (before @ FlagRead True # after) \<and>
     (\<forall>e \<in> set after. \<not> work_event e)"
proof -
  let ?turn = "selectorTurn interrupted_env sample_protocol sample_compiler sample_config"
  obtain t where turn: "?turn (snd (terminationRequested interrupted_env sample_selector)) = Some t"
    and t: "flag_readings (trace t) = [False, False, True]"
    using sample_interrupted_turn by (auto split: option.splits)
  have "terminationRequested interrupted_env sample_selector = (False, snd (terminationRequested interrupted_env sample_selector))"
    by (simp add: terminationRequested_def ext_call_def interrupted_env_def sample_selector_def)
  with turn have "turns interrupted_env ?turn sample_selector t" by (blast intro: turns.intros)
  from daemon_events.selector [OF this, where Q = sample_scheduler]
  have run: "daemon_events interrupted_env sample_protocol sample_compiler sample_scheduler (trace t)"
    by (simp add: new_events_def sample_selector_def)
  have "FlagRead True \<in> set (trace t)" using t flag_readings_set [of True "trace t"] by simp
  then obtain before after where split: "trace t = before @ FlagRead True # after" by (meson split_list)
  have "flag_readings (trace t) = flag_loads False [[], [], [SIGINT]]" using t by (simp add: terminationHandler_def)
  from shutdown_request_is_final [OF run this split] run split show ?thesis by metis
qed

text \<open>C14: What the daemons send is well formed. A job request names a known circuit format and asks for a
  positive number of shots that fits the task's 32-bit field. A result goes to the queue it names as its
  destination; it is either complete, with at least one histogram and no negative count in any, or a
  cancellation, without histograms and with the reason after the word CANCELLED.\<close>

theorem daemon_messages_well_formed:
  assumes "daemon_events E P C Q es"
  shows "(JobSubmitted req p r \<in> set es \<longrightarrow> well_formed_request req) \<and>
    (MessageSent q (ResultMessage res) sent \<in> set es \<longrightarrow> well_formed_result q res)"
  using daemon_typed [OF assms] by (auto simp: list_all_iff)

text \<open>The sample run that receives a task and answers it.\<close>

lemma sample_worker_delivery:
  "case workerTurn worker_env sample_protocol sample_compiler sample_scheduler sample_config
      (snd (terminationRequested worker_env sample_daemon)) of
     None \<Rightarrow> False | Some t \<Rightarrow> list_ex (\<lambda>e. delivery_of e \<noteq> None) (trace t)"
  by code_simp

lemma sample_worker_run:
  assumes "workerTurn worker_env sample_protocol sample_compiler sample_scheduler sample_config
      (snd (terminationRequested worker_env sample_daemon)) = Some t"
  shows "daemon_events worker_env sample_protocol sample_compiler sample_scheduler (trace t)"
proof -
  let ?turn = "workerTurn worker_env sample_protocol sample_compiler sample_scheduler sample_config"
  have "terminationRequested worker_env sample_daemon = (False, snd (terminationRequested worker_env sample_daemon))"
    by (simp add: terminationRequested_def ext_call_def worker_env_def sample_env_def)
  with assms have "turns worker_env ?turn sample_daemon t" by (blast intro: turns.intros)
  from daemon_events.worker [OF this] show ?thesis by (simp add: new_events_def sample_daemon_def)
qed

lemma sample_worker_events:
  obtains es e d where "daemon_events worker_env sample_protocol sample_compiler sample_scheduler es"
    "\<exists>e \<in> set es. answered_ticket e \<noteq> None" "e \<in> set es" "delivery_of e = Some d"
proof -
  let ?turn = "workerTurn worker_env sample_protocol sample_compiler sample_scheduler sample_config"
  obtain t where turn: "?turn (snd (terminationRequested worker_env sample_daemon)) = Some t"
    and t: "length (List.map_filter answered_ticket (trace t)) = 1" "list_ex (\<lambda>e. delivery_of e \<noteq> None) (trace t)"
    using sample_worker_turn sample_worker_delivery by (auto split: option.splits)
  note run = sample_worker_run [OF turn]
  have "List.map_filter answered_ticket (trace t) \<noteq> []" using t(1) by auto
  then have "\<exists>e \<in> set (trace t). answered_ticket e \<noteq> None"
    by (auto simp: List.map_filter_def filter_empty_conv)
  moreover from t(2) obtain e d where "e \<in> set (trace t)" "delivery_of e = Some d" by (auto simp: list_ex_iff)
  ultimately show thesis using run that by blast
qed

theorem daemon_messages_well_formed_witness:
  "\<exists>es q res sent. daemon_events worker_env sample_protocol sample_compiler sample_scheduler es \<and>
     MessageSent q (ResultMessage res) sent \<in> set es \<and> well_formed_result q res"
proof -
  obtain es where es: "daemon_events worker_env sample_protocol sample_compiler sample_scheduler es"
    "\<exists>e \<in> set es. answered_ticket e \<noteq> None" using sample_worker_events .
  then obtain e where "e \<in> set es" "answered_ticket e \<noteq> None" by blast
  then obtain q res sent where "MessageSent q (ResultMessage res) sent \<in> set es"
    by (cases e rule: answered_ticket.cases) auto
  with daemon_messages_well_formed [OF es(1)] es(1) show ?thesis by blast
qed

text \<open>C15: Deliveries and jobs are never left half done. In every trace of a daemon a delivered message is
  acknowledged by the very next call, and only a message just delivered is acknowledged; a job reported
  done has its counts read by the very next call, and counts are read of such a job only; and a job is
  cancelled only while shutting down, with nothing but cancellations since the request was read.\<close>

theorem deliveries_and_jobs_completed:
  assumes "daemon_events E P C Q es" and "es = before @ e # after"
  shows "(\<forall>d. delivery_of e = Some d \<longrightarrow> (\<exists>a rest. after = DeliveryAcked d a # rest)) \<and>
    (\<forall>d a. e = DeliveryAcked d a \<longrightarrow> (\<exists>es' e'. before = es' @ [e'] \<and> delivery_of e' = Some d)) \<and>
    (\<forall>j. e = JobWaited j (Inr Done) \<longrightarrow> (\<exists>c rest. after = CountsRead j c # rest)) \<and>
    (\<forall>j c. e = CountsRead j c \<longrightarrow> (\<exists>es'. before = es' @ [JobWaited j (Inr Done)])) \<and>
    (\<forall>j r. e = JobCancelled j r \<longrightarrow> (\<exists>es' cs. before = es' @ FlagRead True # cs \<and> list_all cancel_event cs))"
proof -
  obtain may where "conversation may (before @ e # after)" using daemon_conversation [OF assms(1)] assms(2) by blast
  from conversation_delivery [OF this] conversation_jobs [OF this] show ?thesis by (intro conjI allI impI) auto
qed

theorem deliveries_and_jobs_completed_witness:
  "\<exists>before e after d. daemon_events worker_env sample_protocol sample_compiler sample_scheduler (before @ e # after) \<and>
     delivery_of e = Some d \<and> (\<exists>a rest. after = DeliveryAcked d a # rest)"
proof -
  obtain es e d where es: "daemon_events worker_env sample_protocol sample_compiler sample_scheduler es"
    "e \<in> set es" "delivery_of e = Some d" using sample_worker_events .
  then obtain before after where split: "es = before @ e # after" by (meson split_list)
  from deliveries_and_jobs_completed [OF es(1) split] es split show ?thesis by metis
qed

end
