(* ===== verification/Job_Ownership.thy ===== *)
theory Job_Ownership
  imports Daemon_Protocol
begin

text \<open>
  Whose jobs a daemon touches. A job handle is waited for, read or cancelled only when this daemon got it
  from the device by a submission of its own, earlier in the same run. The statement is a relation
  \<open>owns J s t K\<close> in the manner of a Hoare triple: with the handles \<open>J\<close> in hand, the steps from \<open>s\<close> to \<open>t\<close>
  touch only handles in hand or submitted meanwhile, and leave the handles \<open>K\<close> in hand.
\<close>

section \<open>Handles in a trace\<close>

fun touched_job :: "event \<Rightarrow> nat option" where
  "touched_job (JobWaited j _) = Some j"
| "touched_job (CountsRead j _) = Some j"
| "touched_job (JobCancelled j _) = Some j"
| "touched_job _ = None"

fun gained_jobs :: "event \<Rightarrow> nat set" where
  "gained_jobs (JobSubmitted _ _ (Inr j)) = {j}"
| "gained_jobs _ = {}"

primrec minds :: "nat set \<Rightarrow> event list \<Rightarrow> bool" where
  "minds J [] = True"
| "minds J (e # es) = ((case touched_job e of None \<Rightarrow> True | Some j \<Rightarrow> j \<in> J) \<and> minds (J \<union> gained_jobs e) es)"

abbreviation owned_jobs :: "event list \<Rightarrow> nat set" where
  "owned_jobs es \<equiv> \<Union>(gained_jobs ` set es)"

lemma minds_append: "minds J (es @ fs) \<longleftrightarrow> minds J es \<and> minds (J \<union> owned_jobs es) fs"
  by (induction es arbitrary: J) (simp_all add: Un_assoc)

lemma minds_mono: "minds J es \<Longrightarrow> J \<subseteq> K \<Longrightarrow> minds K es"
proof (induction es arbitrary: J K)
  case (Cons e es)
  from Cons.prems Cons.IH [of "J \<union> gained_jobs e" "K \<union> gained_jobs e"] show ?case
    by (auto split: option.splits)
qed simp

lemma minds_split:
  assumes "minds {} (es @ e # fs)" and "touched_job e = Some j"
  shows "\<exists>req p. JobSubmitted req p (Inr j) \<in> set es"
proof -
  from assms have "j \<in> owned_jobs es" by (simp add: minds_append)
  then obtain x where "x \<in> set es" "j \<in> gained_jobs x" by blast
  then show ?thesis by (cases x rule: gained_jobs.cases) auto
qed

definition owns :: "nat set \<Rightarrow> ('w, 'z) io_scheme \<Rightarrow> ('w, 'z) io_scheme \<Rightarrow> nat set \<Rightarrow> bool" where
  "owns J s t K \<longleftrightarrow> (\<exists>es. trace t = trace s @ es \<and> minds J es \<and> K \<subseteq> J \<union> owned_jobs es)"

lemma owns_refl: "K \<subseteq> J \<Longrightarrow> owns J s s K"
  by (simp add: owns_def)

lemma owns_idle [simp]: "owns J s s J"
  by (simp add: owns_refl)

lemma owns_trans [trans]:
  assumes "owns J s t K" and "owns K t u L"
  shows "owns J s u L"
proof -
  from assms(1) obtain es where es: "trace t = trace s @ es" "minds J es" "K \<subseteq> J \<union> owned_jobs es" by (auto simp: owns_def)
  from assms(2) obtain fs where fs: "trace u = trace t @ fs" "minds K fs" "L \<subseteq> K \<union> owned_jobs fs" by (auto simp: owns_def)
  have "minds J (es @ fs)" using es(2) minds_mono [OF fs(2) es(3)] by (simp add: minds_append)
  with es fs show ?thesis unfolding owns_def by (intro exI [of _ "es @ fs"]) auto
qed

lemma owns_weaken: "owns J s t K \<Longrightarrow> L \<subseteq> K \<Longrightarrow> owns J s t L"
  unfolding owns_def by blast

lemma owns_frame: "owns J s t K \<Longrightarrow> owns (J \<union> L) s t (K \<union> L)"
  unfolding owns_def using minds_mono [of J _ "J \<union> L"] by blast

lemma owns_more: "owns J s t K \<Longrightarrow> owns J s t (J \<union> K)"
  unfolding owns_def by blast

lemma owns_update [simp]:
  "owns J (s\<lparr>schedulerState := q\<rparr>) t K = owns J s t K" "owns J s (t\<lparr>schedulerState := q\<rparr>) K = owns J s t K"
  by (simp_all add: owns_def)

lemma owns_local: "trace t = trace s \<Longrightarrow> K \<subseteq> J \<Longrightarrow> owns J s t K"
  by (simp add: owns_def)

text \<open>Calls that touch at most handles in hand.\<close>

lemma minds_all:
  "list_all (\<lambda>e. case touched_job e of None \<Rightarrow> True | Some j \<Rightarrow> j \<in> J) es \<Longrightarrow> minds J es"
proof (induction es arbitrary: J)
  case (Cons e es)
  then have "minds J es" by simp
  with Cons.prems minds_mono [of J es "J \<union> gained_jobs e"] show ?case by simp
qed simp

lemma owns_events:
  assumes "trace t = trace s @ es" and "list_all A es" and "\<And>e. A e \<Longrightarrow> touched_job e = None"
  shows "owns J s t J"
proof -
  have "list_all (\<lambda>e. case touched_job e of None \<Rightarrow> True | Some j \<Rightarrow> j \<in> J) es"
    using assms(2,3) by (simp add: list_all_iff)
  from minds_all [OF this] assms(1) show ?thesis unfolding owns_def by blast
qed

lemma owns_emits: "emits A s t \<Longrightarrow> (\<And>e. A e \<Longrightarrow> touched_job e = None) \<Longrightarrow> owns J s t J"
  using emits_trace [of A s t] owns_events by blast

lemma owns_call:
  "ext_call f ev s = (a, t) \<Longrightarrow> (\<And>j. touched_job (ev a) = Some j \<Longrightarrow> j \<in> J) \<Longrightarrow> K \<subseteq> J \<union> gained_jobs (ev a) \<Longrightarrow> owns J s t K"
  using call_trace [of f ev s a t] unfolding owns_def
  by (intro exI [of _ "[ev a]"]) (auto split: option.splits)

lemma owns_flag: "terminationRequested E s = (b, t) \<Longrightarrow> owns J s t J"
  by (rule owns_events [OF flag_trace, where A = "\<lambda>e. \<exists>b. e = FlagRead b"]) auto

lemma owns_clock: "Clock_now E s = (now, t) \<Longrightarrow> owns J s t J"
  by (rule owns_emits [OF emits_Clock_now, where A = "\<lambda>e. \<exists>n. e = ClockRead n"]) auto

lemma owns_send: "owns J s (send E m q s) J"
  by (rule owns_emits [OF emits_send, where A = "\<lambda>e. \<exists>q m r. e = MessageSent q m r"]) auto

lemma owns_report: "owns J s (sendFailure E task e s) J" "owns J s (sendResult E task res s) J"
  unfolding sendFailure_def sendResult_def by (rule owns_send)+

lemma owns_housekept: "housekept s t \<Longrightarrow> owns J s t J"
proof -
  assume "housekept s t"
  then obtain es where es: "trace t = trace s @ es" "list_all upkeep_event es" by (auto simp: housekept_def)
  show ?thesis
  proof (rule owns_events [OF es])
    show "upkeep_event e \<Longrightarrow> touched_job e = None" for e by (cases e) simp_all
  qed
qed

section \<open>Submitting and collecting\<close>

lemma owns_cancelJobs: "set jobs \<subseteq> J \<Longrightarrow> owns J s (cancelJobs E jobs s) J"
proof (induction jobs arbitrary: s)
  case (Cons j jobs)
  obtain r t where c: "ext_call (env_cancel E j) (JobCancelled j) s = (r, t)"
    by (cases "ext_call (env_cancel E j) (JobCancelled j) s")
  from Cons.prems have "owns J s t J" by (intro owns_call [OF c]) auto
  also from Cons have "owns J t (cancelJobs E jobs t) J" by simp
  finally show ?case using c by simp
qed (simp add: owns_refl)

lemma owns_submitCircuits:
  assumes "submitCircuits E (terminationRequested E) task fmt p is jobs s = (r, t)" and "set jobs \<subseteq> J"
  shows "owns J s t (case r of Inl _ \<Rightarrow> J | Inr js \<Rightarrow> set js)"
  using assms
proof (induction arbitrary: J rule: submitCircuits_induct)
  case (finished jobs s)
  then show ?case by (auto intro: owns_refl)
next
  case (shutdown i "is" jobs s s1)
  from owns_trans [OF owns_flag [OF shutdown(1)] owns_cancelJobs [OF shutdown(2)]] show ?case by simp
next
  case (refused i "is" jobs s s1 e t)
  have "owns J s1 t J" by (rule owns_call [OF refused(2)]) auto
  with owns_trans [OF owns_flag [OF refused(1)]] show ?case by simp
next
  case (more i "is" jobs s s1 j s2 r t)
  have s2: "owns J s1 s2 (insert j J)" by (rule owns_call [OF more(2)]) auto
  note owns_trans [OF owns_trans [OF owns_flag [OF more(1)] s2] more(3) [of "insert j J"]]
  with more(4) have "owns J s t (case r of Inl _ \<Rightarrow> insert j J | Inr js \<Rightarrow> set js)" by auto
  then show ?case by (rule owns_weaken) (auto split: sum.splits)
qed

lemma owns_submitQuantumTask:
  assumes "submitQuantumTask E (terminationRequested E) task s = (r, t)"
  shows "owns J s t (case r of Inl _ \<Rightarrow> J | Inr jobs \<Rightarrow> set jobs)"
proof -
  obtain p s1 where c: "choosePlacement E s = (p, s1)" by (cases "choosePlacement E s")
  obtain ch s1' where d: "ext_call (env_children E) (\<lambda>_. ChildrenRead) s = (ch, s1')"
    by (cases "ext_call (env_children E) (\<lambda>_. ChildrenRead) s")
  have "s1 = s1'" using c d by (auto simp: choosePlacement_def split: sum.splits list.splits if_splits)
  moreover have "owns J s s1' J" by (rule owns_call [OF d]) auto
  ultimately have s1: "owns J s s1 J" by simp
  show ?thesis
  proof (cases "\<exists>fmt pl. validateSubmission task = Inr fmt \<and> p = Inr pl")
    case True
    with assms c obtain fmt pl where
      "submitCircuits E (terminationRequested E) task fmt pl [0..<length (circuit_files task)] [] s1 = (r, t)"
      by (auto simp: submitQuantumTask_def)
    from owns_trans [OF s1 owns_submitCircuits [OF this]] show ?thesis by simp
  next
    case False
    with assms c have "(t = s \<or> t = s1) \<and> (\<exists>e. r = Inl e)"
      by (auto simp: submitQuantumTask_def split: sum.splits)
    with s1 show ?thesis by auto
  qed
qed

lemma owns_waitSlice:
  assumes "waitSlice E (terminationRequested E) waitTimeout job began s = (r, t)" and "job \<in> J"
  shows "owns J s t J"
proof -
  obtain b s1 where f: "terminationRequested E s = (b, s1)" by (cases "terminationRequested E s")
  obtain st s2 where w: "ext_call (env_wait E job CollectionSlice) (JobWaited job) s1 = (st, s2)"
    by (cases "ext_call (env_wait E job CollectionSlice) (JobWaited job) s1")
  obtain now s3 where c: "Clock_now E s2 = (now, s3)" by (cases "Clock_now E s2")
  have s1: "owns J s s1 J" by (rule owns_flag [OF f])
  have "owns J s1 s2 J" by (rule owns_call [OF w]) (use assms(2) in auto)
  with s1 have s2: "owns J s s2 J" by (rule owns_trans)
  from owns_trans [OF s2 owns_clock [OF c]] s1 s2 assms(1) f w c show ?thesis
    by (auto simp: waitSlice_def split: if_splits sum.splits)
qed

lemma owns_waitForJob:
  assumes "waitForJob E (terminationRequested E) waitTimeout job began s = Some (r, t)" and "job \<in> J"
  shows "owns J s t J"
  using assms(1) by (induction rule: waitForJob_induct) (blast intro: owns_waitSlice [OF _ assms(2)] owns_trans)+

lemma owns_collectJobs:
  "collectJobs E (terminationRequested E) waitTimeout jobs h s = Some (r, t) \<Longrightarrow> set jobs \<subseteq> J \<Longrightarrow> owns J s t J"
proof (induction jobs arbitrary: h s)
  case (Cons job jobs)
  obtain began s1 where c: "Clock_now E s = (began, s1)" by (cases "Clock_now E s")
  with Cons.prems obtain wr s2 where w: "waitForJob E (terminationRequested E) waitTimeout job began s1 = Some (wr, s2)"
    by (auto split: option.splits)
  obtain cr s3 where r: "ext_call (env_counts E job) (CountsRead job) s2 = (cr, s3)"
    by (cases "ext_call (env_counts E job) (CountsRead job) s2")
  from Cons.prems(2) have j: "job \<in> J" by simp
  have s2: "owns J s s2 J" by (rule owns_trans [OF owns_clock [OF c] owns_waitForJob [OF w j]])
  have "owns J s2 s3 J" by (rule owns_call [OF r]) (use j in auto)
  with s2 have "owns J s s3 J" by (rule owns_trans)
  with s2 Cons.prems Cons.IH c w r show ?case by (auto split: sum.splits intro: owns_trans)
qed (simp add: owns_refl)

lemma owns_collectQuantumResult:
  "collectQuantumResult E (terminationRequested E) task jobs waitTimeout s = Some (r, t) \<Longrightarrow> set jobs \<subseteq> J \<Longrightarrow> owns J s t J"
  by (auto simp: collectQuantumResult_def split: option.splits prod.splits sum.splits intro: owns_collectJobs)

lemma owns_executeQuantumTask:
  assumes "executeQuantumTask E (terminationRequested E) task waitTimeout s = Some (r, t)"
  shows "owns J s t J"
proof -
  obtain sr s1 where sub: "submitQuantumTask E (terminationRequested E) task s = (sr, s1)"
    by (cases "submitQuantumTask E (terminationRequested E) task s")
  note s1 = owns_submitQuantumTask [OF sub, of J]
  show ?thesis
  proof (cases sr)
    case (Inl e)
    with assms sub s1 show ?thesis by (auto simp: executeQuantumTask_def)
  next
    case (Inr jobs)
    with assms sub have col: "collectQuantumResult E (terminationRequested E) task jobs waitTimeout s1 = Some (r, t)"
      by (simp add: executeQuantumTask_def)
    from s1 Inr have "owns J s s1 (J \<union> set jobs)" by (simp add: owns_more)
    from owns_trans [OF this owns_collectQuantumResult [OF col]] show ?thesis by (auto intro: owns_weaken)
  qed
qed

section \<open>The daemons\<close>

lemma owns_idle_event: "idle_event e \<Longrightarrow> touched_job e = None"
  by (cases e) simp_all

lemma owns_reception:
  assumes "io_extends s t" and "receive_outcome ev q (Some (Inr (Some m))) (new_events s t)"
    and "\<And>i x. touched_job (ev q i x) = None"
  shows "owns J s t J"
proof (rule owns_events [OF io_extends_trace [OF assms(1)]])
  show "list_all (\<lambda>e. touched_job e = None) (new_events s t)"
    using assms(2,3) owns_idle_event by (auto simp: receive_outcome_def list_all_iff)
qed

lemma owns_drainQueue:
  assumes "poll_idle ev" and "\<And>i x. touched_job (ev q i x) = None" and "\<And>m s. owns J s (handle m s) J"
    and "drainQueue E poll ev q (terminationRequested E) handle s = Some (b, t)"
  shows "owns J s t J"
proof (rule drainQueue_invariant [where I = "\<lambda>u. owns J s u J", OF flag_ok_terminationRequested assms(1,4)])
  show "owns J s v J" if "owns J s u J" "emits idle_event u v" for u v
    using owns_trans [OF that(1) owns_emits [OF that(2) owns_idle_event]] .
  show "owns J s (handle m v) J" if "owns J s u J" "io_extends u v"
    "receive_outcome ev q (Some (Inr (Some m))) (new_events u v)" for m u v
    using owns_trans [OF owns_trans [OF that(1) owns_reception [OF that(2,3) assms(2)]] assms(3)] .
qed simp

lemma owns_receiveNext:
  assumes "poll_idle ev" and "\<And>i x. touched_job (ev q i x) = None" and "\<And>m s. owns J s (handle m s) J"
    and "receiveNext E poll ev q timeout (terminationRequested E) handle s = Some (b, t)"
  shows "owns J s t J"
  using flag_ok_terminationRequested assms(1,4)
proof (cases rule: receiveNext_cases)
  case empty
  show ?thesis by (rule owns_emits [OF empty(2) owns_idle_event])
next
  case (message m u)
  from owns_trans [OF owns_reception [OF message(2,3) assms(2)] assms(3)] message(4) show ?thesis by simp
qed

lemma owns_intake:
  "owns J s (standaloneIntake E C Q config task s) J" "owns J s (workerIntake E C Q task s) J"
proof -
  have intake: "owns J s (case r of Inl e \<Rightarrow> sendFailure E task' e t | Inr _ \<Rightarrow> t) J" if "trace t = trace s"
    for r :: "unit result" and task' t
    using owns_local [OF that order_refl, of J] owns_trans [OF owns_local [OF that order_refl, of J] owns_report(1)]
    by (auto split: sum.splits)
  obtain r task' t where run: "selectCompileAndSchedule C Q (sel_selectionPolicy (cfg_selector config)) task s = (r, task', t)"
    by (cases "selectCompileAndSchedule C Q (sel_selectionPolicy (cfg_selector config)) task s")
  then have "trace t = trace s"
    by (auto simp: selectCompileAndSchedule_def split: sum.splits dest: compileAndSchedule_ticket(2))
  from intake [OF this, where r = r and task' = task'] run show "owns J s (standaloneIntake E C Q config task s) J"
    by (cases r) (simp_all add: standaloneIntake_def)
  obtain r task' t where run: "compileAndSchedule C Q task s = (r, task', t)" by (cases "compileAndSchedule C Q task s")
  from intake [OF compileAndSchedule_ticket(2) [OF run], where r = r and task' = task'] run show "owns J s (workerIntake E C Q task s) J"
    by (cases r) (simp_all add: workerIntake_def)
qed

lemma owns_executeReady: "executeReady E Q config b s = Some (b', t) \<Longrightarrow> owns J s t J"
proof (induction rule: executeReady_induct)
  case (answered b s q task res u b' t)
  have "owns J s u J" using owns_executeQuantumTask [OF answered(2), of J] by simp
  from owns_trans [OF owns_trans [OF this owns_report(2)] answered(3)] show ?case .
next
  case (failed b s q task e u b' t)
  have "owns J s u J" using owns_executeQuantumTask [OF failed(2), of J] by simp
  from owns_trans [OF owns_trans [OF this owns_report(1)] failed(4)] show ?case .
next
  case (shutdown b s q task e u)
  show ?case using owns_executeQuantumTask [OF shutdown(2), of J] by simp
qed simp

lemma owns_standaloneTurn:
  assumes "standaloneTurn E P C Q config s = Some t"
  shows "owns J s t J"
  using assms
proof (rule standaloneTurn_stages)
  fix s1 received s2 executed s3
  assume st: "housekept s s1" "drainQueue E (env_receiveTask E) TaskPolled (com_qrmciQueue (cfg_common config))
      (terminationRequested E) (standaloneIntake E C Q config) s1 = Some (received, s2)"
    "executeReady E Q config False s2 = Some (executed, s3)" "housekept s3 t"
  note owns_housekept [OF st(1), of J]
  also have "owns J s1 s2 J" by (rule owns_drainQueue [OF poll_idle_simps(1) _ owns_intake(1) st(2)]) simp
  also note owns_executeReady [OF st(3), of J]
  also note owns_housekept [OF st(4), of J]
  finally show ?thesis .
qed

text \<open>The handles the worker's submission stage hands to its collection stage.\<close>

abbreviation jobs_of :: "(QuantumTask \<times> nat list) list \<Rightarrow> nat set" where
  "jobs_of batch \<equiv> \<Union>((set \<circ> snd) ` set batch)"

lemma owns_submitReady: "submitReady E Q L s = Some (L', t) \<Longrightarrow> owns (J \<union> jobs_of L) s t (J \<union> jobs_of L')"
proof (induction rule: submitReady_induct)
  case (submitted L s q task jobs u L' t)
  have "owns (J \<union> jobs_of L) s u (set jobs)" using owns_submitQuantumTask [OF submitted(2), of "J \<union> jobs_of L"] by simp
  then have "owns (J \<union> jobs_of L) s u (J \<union> jobs_of (L @ [(task, jobs)]))"
    by (rule owns_weaken [OF owns_more]) auto
  from owns_trans [OF this submitted(3)] show ?case .
next
  case (failed L s q task e u L' t)
  have "owns (J \<union> jobs_of L) s u (J \<union> jobs_of L)" using owns_submitQuantumTask [OF failed(2), of "J \<union> jobs_of L"] by simp
  from owns_trans [OF owns_trans [OF this owns_report(1)] failed(4)] show ?case .
next
  case (shutdown L s q task e u)
  show ?case using owns_submitQuantumTask [OF shutdown(2), of "J \<union> jobs_of L"] by simp
qed simp

lemma owns_collectSubmitted: "collectSubmitted E config L s = Some t \<Longrightarrow> jobs_of L \<subseteq> J \<Longrightarrow> owns J s t J"
proof (induction L arbitrary: s)
  case (Cons x L)
  obtain task jobs where x: "x = (task, jobs)" by (cases x)
  with Cons.prems(2) have jobs: "set jobs \<subseteq> J" and rest: "jobs_of L \<subseteq> J" by auto
  from Cons.prems(1) [unfolded x] show ?case
  proof (cases rule: collectSubmitted_cases)
    case (answered res u)
    from owns_trans [OF owns_trans [OF owns_collectQuantumResult [OF answered(1) jobs] owns_report(2)] Cons.IH [OF answered(2) rest]]
    show ?thesis .
  next
    case (shutdown e)
    show ?thesis by (rule owns_collectQuantumResult [OF shutdown(1) jobs])
  next
    case (failed e u)
    from owns_trans [OF owns_trans [OF owns_collectQuantumResult [OF failed(1) jobs] owns_report(1)] Cons.IH [OF failed(2) rest]]
    show ?thesis .
  qed
qed simp

lemma owns_publish: "owns J s (publishOwnStatus E P config s) J"
proof -
  obtain st u where r: "refreshOwnDeviceStatus E P (cmp_queue (cfg_compiler config)) s = (st, u)"
    by (cases "refreshOwnDeviceStatus E P (cmp_queue (cfg_compiler config)) s")
  note u = owns_housekept [OF housekept_refresh [OF r], of J]
  from u owns_trans [OF u owns_send] r show ?thesis by (cases st) (auto simp: publishOwnStatus_def)
qed

lemma owns_workerTurn:
  assumes "workerTurn E P C Q config s = Some t"
  shows "owns J s t J"
  using assms
proof (rule workerTurn_stages)
  fix received s2 batch s3 s4
  assume r: "receiveNext E (env_receiveTask E) TaskPolled (cmp_queue (cfg_compiler config))
       (cmp_taskReceiveTimeout (cfg_compiler config)) (terminationRequested E) (workerIntake E C Q)
       (expireBackends E (publishOwnStatus E P config s)) = Some (received, s2)"
    and x: "submitReady E Q [] s2 = Some (batch, s3)" and c: "collectSubmitted E config batch s3 = Some s4"
    and z: "emits upkeep_event s4 t"
  note owns_publish [of J]
  also note owns_housekept [OF housekept_expire, of J]
  also have "owns J (expireBackends E (publishOwnStatus E P config s)) s2 J"
    by (rule owns_receiveNext [OF poll_idle_simps(1) _ owns_intake(2) r]) simp
  also have "owns J s2 s3 (J \<union> jobs_of batch)" using owns_submitReady [OF x, of J] by simp
  also have "owns (J \<union> jobs_of batch) s3 s4 (J \<union> jobs_of batch)" by (rule owns_collectSubmitted [OF c]) simp
  also have "owns (J \<union> jobs_of batch) s4 t J"
    by (rule owns_weaken [OF owns_housekept [OF housekept_upkeep [OF z]]]) simp
  finally show ?thesis .
qed

lemma owns_expire: "owns J s (expireBackends E s) J"
proof -
  obtain now u where c: "Clock_now E s = (now, u)" by (cases "Clock_now E s")
  from owns_clock [OF c, of J] c show ?thesis by (simp add: expireBackends_def owns_def)
qed

lemma owns_sleep: "owns J s (sleepFor E ms s) J"
proof (rule owns_emits [OF upkeep_sleepFor])
  show "upkeep_event e \<Longrightarrow> touched_job e = None" for e by (cases e) simp_all
qed

lemma owns_selectorStatus: "owns J s (selectorStatus E P status s) J"
proof (cases "fromPublishedStatus P status")
  case (Inr b)
  obtain now u where c: "Clock_now E s = (now, u)" by (cases "Clock_now E s")
  from owns_clock [OF c, of J] c Inr show ?thesis by (simp add: selectorStatus_def owns_def)
qed (simp add: selectorStatus_def)

lemma owns_selectorTask: "owns J s (selectorTask E C config task s) J"
  by (simp add: selectorTask_def owns_report owns_send split: sum.splits option.splits)

lemma owns_selectorTurn:
  assumes "selectorTurn E P C config s = Some t"
  shows "owns J s t J"
proof -
  from assms obtain b s1 received s2 where
    d: "drainQueue E (env_receiveBackend E) BackendPolled (sel_backendStatusQueue (cfg_selector config))
      (terminationRequested E) (selectorStatus E P) s = Some (b, s1)" and
    x: "drainQueue E (env_receiveTask E) TaskPolled (com_qrmciQueue (cfg_common config)) (terminationRequested E)
      (selectorTask E C config) (expireBackends E s1) = Some (received, s2)" and
    t: "t = (if \<not> received then sleepFor E (com_stagePollInterval (cfg_common config)) s2 else s2)"
    unfolding selectorTurn_def Let_def by (auto split: Option.bind_splits)
  have "owns J s s1 J" by (rule owns_drainQueue [OF poll_idle_simps(2) _ owns_selectorStatus d]) simp
  also note owns_expire
  also have "owns J (expireBackends E s1) s2 J" by (rule owns_drainQueue [OF poll_idle_simps(1) _ owns_selectorTask x]) simp
  also have "owns J s2 t J" by (simp add: t owns_sleep)
  finally show ?thesis .
qed

section \<open>Runs\<close>

definition keeps_own_jobs :: "('w, 'z) io_scheme \<Rightarrow> ('w, 'z) io_scheme \<Rightarrow> bool" where
  "keeps_own_jobs s t \<longleftrightarrow> (\<forall>J. owns J s t J)"

interpretation standalone_jobs: work_loop E "standaloneTurn E P C Q config" keeps_own_jobs for E P C Q config
  by unfold_locales (auto simp: keeps_own_jobs_def intro: owns_trans owns_flag owns_standaloneTurn)

interpretation selector_jobs: work_loop E "selectorTurn E P C config" keeps_own_jobs for E P C config
  by unfold_locales (auto simp: keeps_own_jobs_def intro: owns_trans owns_flag owns_selectorTurn)

interpretation worker_jobs: work_loop E "workerTurn E P C Q config" keeps_own_jobs for E P C Q config
  by unfold_locales (auto simp: keeps_own_jobs_def intro: owns_trans owns_flag owns_workerTurn)

lemma keeps_own_jobs_events: "keeps_own_jobs s t \<Longrightarrow> minds {} (new_events s t)"
  unfolding keeps_own_jobs_def owns_def using new_events_eq by metis

lemma daemon_minds: "daemon_events E P C Q es \<Longrightarrow> minds {} es"
  by (induction rule: daemon_events.induct)
    (blast intro: keeps_own_jobs_events standalone_jobs.reached selector_jobs.reached worker_jobs.reached)+

section \<open>Properties\<close>

text \<open>C16: A daemon touches only its own jobs. Every job handle that is waited for, read or cancelled in a
  stretch of a daemon's loop was returned to that daemon by a submission earlier in the same stretch; in
  particular no handle survives from one turn into the collection of another.\<close>

theorem daemons_touch_own_jobs:
  assumes "daemon_events E P C Q es" and "es = before @ e # after" and "touched_job e = Some j"
  shows "\<exists>req p. JobSubmitted req p (Inr j) \<in> set before \<and> well_formed_request req"
proof -
  obtain req p where sub: "JobSubmitted req p (Inr j) \<in> set before"
    using minds_split [OF daemon_minds [OF assms(1), unfolded assms(2)] assms(3)] by blast
  moreover have "JobSubmitted req p (Inr j) \<in> set es" using sub assms(2) by simp
  then have "well_formed_request req"
    using daemon_typed [OF assms(1)] unfolding list_all_iff by (metis typed_event.simps(1))
  ultimately show ?thesis by auto
qed

lemma sample_worker_waits:
  "case workerTurn worker_env sample_protocol sample_compiler sample_scheduler sample_config
      (snd (terminationRequested worker_env sample_daemon)) of
     None \<Rightarrow> False | Some t \<Rightarrow> list_ex (\<lambda>e. touched_job e \<noteq> None) (trace t)"
  by code_simp

theorem daemons_touch_own_jobs_witness:
  "\<exists>before e after j req p. daemon_events worker_env sample_protocol sample_compiler sample_scheduler (before @ e # after) \<and>
     touched_job e = Some j \<and> JobSubmitted req p (Inr j) \<in> set before"
proof -
  let ?turn = "workerTurn worker_env sample_protocol sample_compiler sample_scheduler sample_config"
  obtain t where turn: "?turn (snd (terminationRequested worker_env sample_daemon)) = Some t"
    and t: "list_ex (\<lambda>e. touched_job e \<noteq> None) (trace t)"
    using sample_worker_waits by (auto split: option.splits)
  from sample_worker_run [OF turn] have run: "daemon_events worker_env sample_protocol sample_compiler sample_scheduler (trace t)" .
  from t obtain e j where "e \<in> set (trace t)" and j: "touched_job e = Some j" by (auto simp: list_ex_iff)
  then obtain before after where split: "trace t = before @ e # after" by (meson split_list)
  from daemons_touch_own_jobs [OF run split j] run j split show ?thesis by metis
qed

end
