(* ===== verification/Queue_Use.thy ===== *)
theory Queue_Use
  imports Daemon_Protocol
begin

text \<open>
  From which queues a daemon takes messages. The selector takes tasks from the common task queue and
  statuses from the status queue; a worker takes tasks from its own queue, and the standalone daemon from
  the common one, and neither takes statuses. As for the protocol, the statement is a relation between
  states that the stages of a turn satisfy one after the other.
\<close>

section \<open>Taking messages\<close>

text \<open>The messages taken are tasks from the queues \<open>T\<close> and statuses from the queues \<open>B\<close>.\<close>

fun taken_from :: "string set \<Rightarrow> string set \<Rightarrow> event \<Rightarrow> bool" where
  "taken_from T B (TaskPolled q _ (Inr _)) = (q \<in> T)"
| "taken_from T B (BackendPolled q _ (Inr _)) = (q \<in> B)"
| "taken_from T B _ = True"

definition takes :: "string set \<Rightarrow> string set \<Rightarrow> ('w, 'z) io_scheme \<Rightarrow> ('w, 'z) io_scheme \<Rightarrow> bool" where
  "takes T B s t \<longleftrightarrow> (\<exists>es. trace t = trace s @ es \<and> list_all (taken_from T B) es)"

lemma takes_refl [simp]: "takes T B s s"
  by (simp add: takes_def)

lemma takes_trans [trans]: "takes T B s t \<Longrightarrow> takes T B t u \<Longrightarrow> takes T B s u"
  by (fastforce simp: takes_def)

lemma takes_new_events: "takes T B s t \<Longrightarrow> list_all (taken_from T B) (new_events s t)"
  by (auto simp: takes_def new_events_def)

lemma takes_local: "trace t = trace s \<Longrightarrow> takes T B s t"
  by (simp add: takes_def)

lemma takes_update [simp]: "takes T B (s\<lparr>schedulerState := q\<rparr>) t = takes T B s t"
  by (simp add: takes_def)

lemma takes_emits: "emits A s t \<Longrightarrow> (\<And>e. A e \<Longrightarrow> taken_from T B e) \<Longrightarrow> takes T B s t"
  using emits_trace [of A s t] by (auto simp: takes_def list_all_iff)

lemma taken_not_broker: "\<not> broker_event e \<Longrightarrow> taken_from T B e"
  by (cases e) simp_all

lemma taken_idle: "idle_event e \<Longrightarrow> taken_from T B e"
  by (cases e rule: idle_event.cases) simp_all

lemma takes_silent: "silent s t \<Longrightarrow> takes T B s t"
  using io_extends_trace taken_not_broker by (force simp: silent_def takes_def list_all_iff)

lemma takes_housekept: "housekept s t \<Longrightarrow> takes T B s t"
  using taken_not_broker upkeep_not_broker by (fastforce simp: housekept_def takes_def list_all_iff)

lemma takes_flag: "terminationRequested E s = (b, t) \<Longrightarrow> takes T B s t"
  by (rule takes_silent [OF silent_flag [OF flag_ok_terminationRequested]])

lemma takes_send: "takes T B s (send E m q s)"
  by (rule takes_emits [OF emits_send, where A = "\<lambda>e. \<exists>q m r. e = MessageSent q m r"]) auto

lemma takes_report: "takes T B s (sendFailure E task e s)" "takes T B s (sendResult E task res s)"
  unfolding sendFailure_def sendResult_def by (rule takes_send)+

text \<open>Receiving takes from the queue it names.\<close>

definition polls_within :: "string set \<Rightarrow> string set \<Rightarrow> 'm poll_event \<Rightarrow> string \<Rightarrow> bool" where
  "polls_within T B ev q \<longleftrightarrow> (\<forall>i x. taken_from T B (ev q i x))"

lemma polls_within_simps [simp]:
  "q \<in> T \<Longrightarrow> polls_within T B TaskPolled q"
  "q \<in> B \<Longrightarrow> polls_within T B BackendPolled q"
proof -
  have "taken_from T B (TaskPolled q i x)" if "q \<in> T" for i x using that by (cases x) simp_all
  then show "q \<in> T \<Longrightarrow> polls_within T B TaskPolled q" by (simp add: polls_within_def)
  have "taken_from T B (BackendPolled q i x)" if "q \<in> B" for i x using that by (cases x) simp_all
  then show "q \<in> B \<Longrightarrow> polls_within T B BackendPolled q" by (simp add: polls_within_def)
qed

lemma takes_reception:
  assumes "polls_within T B ev q" and "io_extends s t" and "receive_outcome ev q (Some (Inr (Some m))) (new_events s t)"
  shows "takes T B s t"
  using assms taken_idle io_extends_trace [OF assms(2)]
  by (fastforce simp: takes_def receive_outcome_def polls_within_def list_all_iff)

lemma takes_receiveNext:
  assumes "poll_idle ev" and "polls_within T B ev q" and "\<And>m s. takes T B s (handle m s)"
    and "receiveNext E poll ev q timeout (terminationRequested E) handle s = Some (b, t)"
  shows "takes T B s t"
  using flag_ok_terminationRequested assms(1,4)
proof (cases rule: receiveNext_cases)
  case empty
  show ?thesis by (rule takes_emits [OF empty(2) taken_idle])
next
  case (message m u)
  from takes_trans [OF takes_reception [OF assms(2) message(2,3)] assms(3)] message(4) show ?thesis by simp
qed

lemma takes_drainQueue:
  assumes "poll_idle ev" and "polls_within T B ev q" and "\<And>m s. takes T B s (handle m s)"
    and "drainQueue E poll ev q (terminationRequested E) handle s = Some (b, t)"
  shows "takes T B s t"
  using assms(4) unfolding drainQueue_def
proof (induction rule: drainLoop_induct)
  case (stop any s t)
  then show ?case by (rule takes_receiveNext [OF assms(1-3)])
next
  case (step any s u b t)
  from takes_trans [OF takes_receiveNext [OF assms(1-3) step(1)] step(2)] show ?case .
qed

section \<open>The turns\<close>

lemma takes_intake:
  "takes T B s (standaloneIntake E C Q config task s)" "takes T B s (workerIntake E C Q task s)"
proof -
  have intake: "takes T B s (case r of Inl e \<Rightarrow> sendFailure E task' e t | Inr _ \<Rightarrow> t)" if "trace t = trace s"
    for r :: "unit result" and task' t
    using takes_local [OF that] takes_trans [OF takes_local [OF that] takes_report(1)] by (auto split: sum.splits)
  obtain r task' t where run: "selectCompileAndSchedule C Q (sel_selectionPolicy (cfg_selector config)) task s = (r, task', t)"
    by (cases "selectCompileAndSchedule C Q (sel_selectionPolicy (cfg_selector config)) task s")
  then have "trace t = trace s"
    by (auto simp: selectCompileAndSchedule_def split: sum.splits dest: compileAndSchedule_ticket(2))
  from intake [OF this, where r = r and task' = task'] run show "takes T B s (standaloneIntake E C Q config task s)"
    by (cases r) (simp_all add: standaloneIntake_def)
  obtain r task' t where run: "compileAndSchedule C Q task s = (r, task', t)" by (cases "compileAndSchedule C Q task s")
  from intake [OF compileAndSchedule_ticket(2) [OF run], where r = r and task' = task'] run show "takes T B s (workerIntake E C Q task s)"
    by (cases r) (simp_all add: workerIntake_def)
qed

lemma takes_executeReady: "executeReady E Q config b s = Some (b', t) \<Longrightarrow> takes T B s t"
proof (induction rule: executeReady_induct)
  case (answered b s q task res u b' t)
  have "takes T B s u" using takes_silent [OF silent_executeQuantumTask [OF flag_ok_terminationRequested answered(2)]] by simp
  from takes_trans [OF takes_trans [OF this takes_report(2)] answered(3)] show ?case .
next
  case (failed b s q task e u b' t)
  have "takes T B s u" using takes_silent [OF silent_executeQuantumTask [OF flag_ok_terminationRequested failed(2)]] by simp
  from takes_trans [OF takes_trans [OF this takes_report(1)] failed(4)] show ?case .
next
  case (shutdown b s q task e u)
  show ?case using takes_silent [OF silent_executeQuantumTask [OF flag_ok_terminationRequested shutdown(2)]] by simp
qed (simp add: takes_local)

lemma takes_standaloneTurn:
  assumes "standaloneTurn E P C Q config s = Some t"
  shows "takes {com_qrmciQueue (cfg_common config)} {} s t"
  using assms
proof (rule standaloneTurn_stages)
  fix s1 received s2 executed s3
  assume st: "housekept s s1" "drainQueue E (env_receiveTask E) TaskPolled (com_qrmciQueue (cfg_common config))
      (terminationRequested E) (standaloneIntake E C Q config) s1 = Some (received, s2)"
    "executeReady E Q config False s2 = Some (executed, s3)" "housekept s3 t"
  note takes_housekept [OF st(1)]
  also have "takes {com_qrmciQueue (cfg_common config)} {} s1 s2"
    by (rule takes_drainQueue [OF poll_idle_simps(1) polls_within_simps(1) takes_intake(1) st(2)]) simp
  also note takes_executeReady [OF st(3)]
  also note takes_housekept [OF st(4)]
  finally show ?thesis .
qed

lemma takes_selectorStatus: "takes T B s (selectorStatus E P status s)"
  by (auto simp: selectorStatus_def takes_local split: sum.splits prod.splits
      dest!: takes_silent [OF silent_Clock_now]) (auto simp: takes_def)

lemma takes_selectorTask: "takes T B s (selectorTask E C config task s)"
  by (auto simp: selectorTask_def split: sum.splits option.splits intro: takes_report takes_send)

lemma takes_selectorTurn:
  assumes "selectorTurn E P C config s = Some t"
  shows "takes {com_qrmciQueue (cfg_common config)} {sel_backendStatusQueue (cfg_selector config)} s t"
proof -
  let ?takes = "takes {com_qrmciQueue (cfg_common config)} {sel_backendStatusQueue (cfg_selector config)}"
  from assms obtain b s1 received s2 where
    d: "drainQueue E (env_receiveBackend E) BackendPolled (sel_backendStatusQueue (cfg_selector config))
      (terminationRequested E) (selectorStatus E P) s = Some (b, s1)" and
    x: "drainQueue E (env_receiveTask E) TaskPolled (com_qrmciQueue (cfg_common config)) (terminationRequested E)
      (selectorTask E C config) (expireBackends E s1) = Some (received, s2)" and
    t: "t = (if \<not> received then sleepFor E (com_stagePollInterval (cfg_common config)) s2 else s2)"
    unfolding selectorTurn_def Let_def by (auto split: Option.bind_splits)
  have "?takes s s1"
    by (rule takes_drainQueue [OF poll_idle_simps(2) polls_within_simps(2) takes_selectorStatus d]) simp
  also have "?takes s1 (expireBackends E s1)"
    by (cases "Clock_now E s1") (use takes_silent [OF silent_Clock_now] in \<open>force simp: expireBackends_def takes_def\<close>)
  also have "?takes (expireBackends E s1) s2"
    by (rule takes_drainQueue [OF poll_idle_simps(1) polls_within_simps(1) takes_selectorTask x]) simp
  also have "?takes s2 t" by (simp add: t takes_silent silent_sleepFor)
  finally show ?thesis .
qed

lemma takes_submitReady: "submitReady E Q L s = Some (L', t) \<Longrightarrow> takes T B s t"
proof (induction rule: submitReady_induct)
  case (submitted L s q task jobs u L' t)
  have "takes T B s u" using takes_silent [OF silent_submitQuantumTask [OF flag_ok_terminationRequested submitted(2)]] by simp
  from takes_trans [OF this submitted(3)] show ?case .
next
  case (failed L s q task e u L' t)
  have "takes T B s u" using takes_silent [OF silent_submitQuantumTask [OF flag_ok_terminationRequested failed(2)]] by simp
  from takes_trans [OF takes_trans [OF this takes_report(1)] failed(4)] show ?case .
next
  case (shutdown L s q task e u)
  show ?case using takes_silent [OF silent_submitQuantumTask [OF flag_ok_terminationRequested shutdown(2)]] by simp
qed (simp add: takes_local)

lemma takes_collectSubmitted:
  assumes "collectSubmitted E config L s = Some t"
  shows "takes T B s t"
proof (rule takes_emits [OF collectSubmitted_events [OF assms]])
  show "taken_from T B e" if "collecting_event e" for e
    using that by (cases e) (auto simp: collecting_event_def)
qed

lemma takes_publish: "takes T B s (publishOwnStatus E P config s)"
proof -
  obtain st u where r: "refreshOwnDeviceStatus E P (cmp_queue (cfg_compiler config)) s = (st, u)"
    by (cases "refreshOwnDeviceStatus E P (cmp_queue (cfg_compiler config)) s")
  note u = takes_housekept [OF housekept_refresh [OF r]]
  from u takes_trans [OF u takes_send] r show ?thesis by (cases st) (auto simp: publishOwnStatus_def)
qed

lemma takes_workerTurn:
  assumes "workerTurn E P C Q config s = Some t"
  shows "takes {cmp_queue (cfg_compiler config)} {} s t"
  using assms
proof (rule workerTurn_stages)
  fix received s2 batch s3 s4
  assume r: "receiveNext E (env_receiveTask E) TaskPolled (cmp_queue (cfg_compiler config))
       (cmp_taskReceiveTimeout (cfg_compiler config)) (terminationRequested E) (workerIntake E C Q)
       (expireBackends E (publishOwnStatus E P config s)) = Some (received, s2)"
    and x: "submitReady E Q [] s2 = Some (batch, s3)" and c: "collectSubmitted E config batch s3 = Some s4"
    and z: "emits upkeep_event s4 t"
  note takes_publish
  also note takes_housekept [OF housekept_expire]
  also have "takes {cmp_queue (cfg_compiler config)} {} (expireBackends E (publishOwnStatus E P config s)) s2"
    by (rule takes_receiveNext [OF poll_idle_simps(1) polls_within_simps(1) takes_intake(2) r]) simp
  also note takes_submitReady [OF x]
  also note takes_collectSubmitted [OF c]
  also note takes_housekept [OF housekept_upkeep [OF z]]
  finally show ?thesis .
qed

section \<open>The loops\<close>

interpretation standalone_queues: work_loop E "standaloneTurn E P C Q config"
    "takes {com_qrmciQueue (cfg_common config)} {}" for E P C Q config
  by unfold_locales (auto intro: takes_trans takes_flag takes_standaloneTurn)

interpretation selector_queues: work_loop E "selectorTurn E P C config"
    "takes {com_qrmciQueue (cfg_common config)} {sel_backendStatusQueue (cfg_selector config)}" for E P C config
  by unfold_locales (auto intro: takes_trans takes_flag takes_selectorTurn)

interpretation worker_queues: work_loop E "workerTurn E P C Q config"
    "takes {cmp_queue (cfg_compiler config)} {}" for E P C Q config
  by unfold_locales (auto intro: takes_trans takes_flag takes_workerTurn)

end
