(* ===== verification/Own_Device.thy ===== *)
theory Own_Device
  imports Standalone_App Worker_App
begin

text \<open>
  The own device over the life of a daemon. Each turn of the standalone daemon and of the worker begins
  with its upkeep: refresh when a publication slot is due (the worker then publishes), expire. The rest
  of a turn leaves registry and throttle alone. So a device that can be read stays registered as long as
  the upkeep itself is brisk, however long the jobs of a turn take.
\<close>

section \<open>A brisk environment\<close>

text \<open>
  A steady clock, over a ghost time of the world, and the calls of an upkeep: each takes at most \<open>d\<close>.
\<close>

definition quick :: "('w \<Rightarrow> int) \<Rightarrow> int \<Rightarrow> ('w \<Rightarrow> 'a \<times> 'w) \<Rightarrow> bool" where
  "quick clock d f \<longleftrightarrow> (\<forall>w. clock w \<le> clock (snd (f w)) \<and> clock (snd (f w)) \<le> clock w + d)"

definition brisk :: "'w environment \<Rightarrow> ('w \<Rightarrow> int) \<Rightarrow> int \<Rightarrow> bool" where
  "brisk E clock d \<longleftrightarrow>
     (\<forall>w. fst (env_now E w) = clock w) \<and> quick clock d (env_now E) \<and> quick clock d (env_qubitsNum E) \<and>
     quick clock d (env_status E) \<and> quick clock d (env_operationNames E) \<and> quick clock d (env_couplingMap E) \<and>
     quick clock d (env_supportedPayloadFormats E) \<and> (\<forall>q m. quick clock d (env_send E q m))"

text \<open>From \<open>s\<close> to \<open>t\<close> at most \<open>n\<close> such calls, with clock readings in order and from that time.\<close>

definition paced :: "('w \<Rightarrow> int) \<Rightarrow> int \<Rightarrow> nat \<Rightarrow> ('w, 'z) io_scheme \<Rightarrow> ('w, 'z) io_scheme \<Rightarrow> bool" where
  "paced clock d n s t \<longleftrightarrow>
     (\<exists>es. trace t = trace s @ es \<and> sorted (clock_readings es) \<and>
        (\<forall>r \<in> set (clock_readings es). clock (world s) \<le> r \<and> r \<le> clock (world t))) \<and>
     clock (world s) \<le> clock (world t) \<and> clock (world t) \<le> clock (world s) + int n * d"

lemma paced_trans:
  assumes "paced clock d n s t" and "paced clock d m t u"
  shows "paced clock d (n + m) s u"
proof -
  from assms(1) obtain es where es: "trace t = trace s @ es" "sorted (clock_readings es)"
    "\<forall>r \<in> set (clock_readings es). clock (world s) \<le> r \<and> r \<le> clock (world t)"
    and st: "clock (world s) \<le> clock (world t)" "clock (world t) \<le> clock (world s) + int n * d" by (auto simp: paced_def)
  from assms(2) obtain fs where fs: "trace u = trace t @ fs" "sorted (clock_readings fs)"
    "\<forall>r \<in> set (clock_readings fs). clock (world t) \<le> r \<and> r \<le> clock (world u)"
    and tu: "clock (world t) \<le> clock (world u)" "clock (world u) \<le> clock (world t) + int m * d" by (auto simp: paced_def)
  have "sorted (clock_readings (es @ fs))" using es(2,3) fs(2,3) by (fastforce simp: sorted_append)
  moreover have "clock (world s) \<le> r \<and> r \<le> clock (world u)" if "r \<in> set (clock_readings (es @ fs))" for r
    using that es(3) fs(3) st(1) tu(1) by fastforce
  moreover have "clock (world u) \<le> clock (world s) + int (n + m) * d" using st(2) tu(2) by (simp add: algebra_simps)
  ultimately show ?thesis
    unfolding paced_def using es(1) fs(1) st(1) tu(1) by (intro conjI exI [of _ "es @ fs"]) auto
qed

lemma paced_mono: "paced clock d n s t \<Longrightarrow> n \<le> m \<Longrightarrow> 0 \<le> d \<Longrightarrow> paced clock d m s t"
  unfolding paced_def using mult_right_mono [of "int n" "int m" d] by force

lemma paced_update [simp]:
  "paced clock d n s (t\<lparr>registry := r\<rparr>) = paced clock d n s t"
  "paced clock d n x (y\<lparr>throttle := th\<rparr>) = paced clock d n x y"
  "paced clock d n (x\<lparr>throttle := th\<rparr>) y = paced clock d n x y"
  by (simp_all add: paced_def)

lemma paced_call:
  assumes "quick clock d f" and "ext_call f ev s = (a, t)" and "clock_readings [ev a] = []"
  shows "paced clock d 1 s t"
proof -
  have "world t = snd (f (world s))" "trace t = trace s @ [ev a]"
    using assms(2) ext_call_simps(1-3) [of f ev s] by simp_all
  with assms(1,3) show ?thesis unfolding paced_def quick_def by (intro conjI exI [of _ "[ev a]"]) simp_all
qed

lemma paced_clock:
  assumes "brisk E clock d" and "Clock_now E s = (now, t)"
  shows "paced clock d 1 s t"
proof -
  have t: "world t = snd (env_now E (world s))" "trace t = trace s @ [ClockRead now]" "now = fst (env_now E (world s))"
    using assms(2) ext_call_simps(1-3) [of "env_now E" ClockRead s] by (simp_all add: Clock_now_def)
  with assms(1) have "now = clock (world s)" "clock (world s) \<le> clock (world t)" "clock (world t) \<le> clock (world s) + d"
    by (simp_all add: brisk_def quick_def)
  with t(2) show ?thesis unfolding paced_def by (intro conjI exI [of _ "[ClockRead now]"]) simp_all
qed

lemma clock_readings_other [simp]:
  "clock_readings [QubitsNumRead] = []" "clock_readings [StatusRead] = []" "clock_readings [OperationNamesRead] = []"
  "clock_readings [CouplingMapRead] = []" "clock_readings [PayloadFormatsRead] = []" "clock_readings [MessageSent q m r] = []"
  by (simp_all add: clock_readings_def List.map_filter_def)

lemma brisk_nonneg: "brisk E clock d \<Longrightarrow> 0 \<le> d"
  unfolding brisk_def quick_def by (meson add_le_same_cancel1 dual_order.trans le_add_same_cancel1)

lemma paced_fromSubmitter:
  assumes "brisk E clock d" and "fromSubmitter E q s = (r, t)"
  shows "paced clock d 5 s t"
proof -
  obtain a1 s1 where 1: "ext_call (env_qubitsNum E) (\<lambda>_. QubitsNumRead) s = (a1, s1)"
    by (cases "ext_call (env_qubitsNum E) (\<lambda>_. QubitsNumRead) s")
  obtain a2 s2 where 2: "ext_call (env_status E) (\<lambda>_. StatusRead) s1 = (a2, s2)"
    by (cases "ext_call (env_status E) (\<lambda>_. StatusRead) s1")
  obtain a3 s3 where 3: "ext_call (env_operationNames E) (\<lambda>_. OperationNamesRead) s2 = (a3, s3)"
    by (cases "ext_call (env_operationNames E) (\<lambda>_. OperationNamesRead) s2")
  obtain a4 s4 where 4: "ext_call (env_couplingMap E) (\<lambda>_. CouplingMapRead) s3 = (a4, s4)"
    by (cases "ext_call (env_couplingMap E) (\<lambda>_. CouplingMapRead) s3")
  obtain a5 s5 where 5: "ext_call (env_supportedPayloadFormats E) (\<lambda>_. PayloadFormatsRead) s4 = (a5, s5)"
    by (cases "ext_call (env_supportedPayloadFormats E) (\<lambda>_. PayloadFormatsRead) s4")
  from assms(1) have q: "quick clock d (env_qubitsNum E)" "quick clock d (env_status E)" "quick clock d (env_operationNames E)"
    "quick clock d (env_couplingMap E)" "quick clock d (env_supportedPayloadFormats E)" by (simp_all add: brisk_def)
  have p1: "paced clock d 1 s s1" by (rule paced_call [OF q(1) 1]) simp
  have p2: "paced clock d (1 + 1) s s2" by (rule paced_trans [OF p1 paced_call [OF q(2) 2]]) simp
  have p3: "paced clock d (1 + 1 + 1) s s3" by (rule paced_trans [OF p2 paced_call [OF q(3) 3]]) simp
  have p4: "paced clock d (1 + 1 + 1 + 1) s s4" by (rule paced_trans [OF p3 paced_call [OF q(4) 4]]) simp
  have p5: "paced clock d (1 + 1 + 1 + 1 + 1) s s5" by (rule paced_trans [OF p4 paced_call [OF q(5) 5]]) simp
  note nonneg = brisk_nonneg [OF assms(1)]
  from assms(2) 1 2 3 4 5 have "t \<in> {s1, s2, s3, s4, s5}"
    by (auto simp: fromSubmitter_def split: sum.splits)
  then show ?thesis
    using paced_mono [OF p1 _ nonneg] paced_mono [OF p2 _ nonneg] paced_mono [OF p3 _ nonneg] paced_mono [OF p4 _ nonneg]
      paced_mono [OF p5 _ nonneg]
    by auto
qed

lemma paced_refresh:
  assumes "brisk E clock d" and "refreshOwnDeviceStatus E P q s = (st, t)"
  shows "paced clock d 7 s t"
proof -
  note nonneg = brisk_nonneg [OF assms(1)]
  obtain now s1 where c: "Clock_now E s = (now, s1)" by (cases "Clock_now E s")
  note p1 = paced_clock [OF assms(1) c]
  let ?s2 = "s1\<lparr>throttle := snd (claim now (throttle s1))\<rparr>"
  obtain r s3 where f: "fromSubmitter E q ?s2 = (r, s3)" by (cases "fromSubmitter E q ?s2")
  have "paced clock d 5 s1 s3" using paced_fromSubmitter [OF assms(1) f] by simp
  note p3 = paced_trans [OF p1 this]
  obtain stamp s4 where c': "Clock_now E s3 = (stamp, s4)" by (cases "Clock_now E s3")
  note p4 = paced_trans [OF p3 paced_clock [OF assms(1) c']]
  have "\<exists>reg. t = ?s2 \<or> t = s3 \<or> t = s4\<lparr>registry := reg\<rparr>"
    using assms(2) c f c' by (auto simp: refreshOwnDeviceStatus_def Let_def split: prod.splits if_splits sum.splits)
  then show ?thesis
    using paced_mono [OF p1 _ nonneg, of 7] paced_mono [OF p3 _ nonneg, of 7] paced_mono [OF p4 _ nonneg, of 7] by auto
qed

section \<open>The upkeep of a turn\<close>

definition device_kept :: "'w environment \<Rightarrow> string \<Rightarrow> int \<Rightarrow> int \<Rightarrow> ('w, 'c, 'q, 'z) daemon_scheme \<Rightarrow> bool" where
  "device_kept E q interval ttl s \<longleftrightarrow>
     own_registered E q s \<and> publishInterval (throttle s) = interval \<and> entryTimeToLive (registry s) = ttl"

lemma device_kept_frame:
  "registry t = registry s \<Longrightarrow> throttle t = throttle s \<Longrightarrow> device_kept E q interval ttl t = device_kept E q interval ttl s"
  by (simp add: device_kept_def own_registered_def)

text \<open>What the environment and the intervals have to allow: eight calls within the slack.\<close>

definition upkeep_in_time :: "'w environment \<Rightarrow> int \<Rightarrow> int \<Rightarrow> bool" where
  "upkeep_in_time E interval ttl \<longleftrightarrow>
     device_readable E \<and> 0 \<le> interval \<and> (\<exists>clock d. brisk E clock d \<and> 8 * d \<le> ttl - interval)"

lemma device_kept_upkeep:
  assumes "upkeep_in_time E interval ttl" and "device_kept E q interval ttl s"
    and r: "refreshOwnDeviceStatus E P q s = (st, u)" and v: "v = u \<or> (\<exists>m p. v = send E m p u)"
  shows "device_kept E q interval ttl (expireBackends E v)"
proof -
  let ?t = "expireBackends E v"
  from assms(1) obtain clock d where b: "brisk E clock d" "8 * d \<le> ttl - interval" and dev: "device_readable E" "0 \<le> interval"
    by (auto simp: upkeep_in_time_def)
  from assms(2) have own: "own_registered E q s" "publishInterval (throttle s) = interval" "entryTimeToLive (registry s) = ttl"
    by (simp_all add: device_kept_def)
  have sent: "io_extends u (send E m p u) \<and> clock_readings (new_events u (send E m p u)) = [] \<and> paced clock d 1 u (send E m p u)" for m p
  proof -
    obtain ok w where c: "ext_call (env_send E p m) (MessageSent p m) u = (ok, w)"
      by (cases "ext_call (env_send E p m) (MessageSent p m) u")
    then have "send E m p u = w" by (cases ok) (simp_all add: send_def comms_send_def)
    moreover have "paced clock d 1 u w" by (rule paced_call [OF _ c]) (use b(1) in \<open>simp_all add: brisk_def\<close>)
    ultimately show ?thesis using ext_call_extends [OF c] by simp
  qed
  have idle: "paced clock d 1 u u" using brisk_nonneg [OF b(1)] by (simp add: paced_def)
  from v sent idle have ext: "io_extends u v" "clock_readings (new_events u v) = []" and p1: "paced clock d 1 u v" by auto
  obtain now w where c: "Clock_now E v = (now, w)" by (cases "Clock_now E v")
  have reading: "trace ?t = trace v @ [ClockRead now]" "now = clock (world v)"
    using c ext_call_simps(1,3) [of "env_now E" ClockRead v] b(1) by (simp_all add: expireBackends_def Clock_now_def brisk_def)
  from paced_trans [OF paced_refresh [OF b(1) r] p1] obtain es where es: "trace v = trace s @ es" "sorted (clock_readings es)"
    "\<forall>x \<in> set (clock_readings es). clock (world s) \<le> x \<and> x \<le> clock (world v)"
    and lapse: "clock (world s) \<le> clock (world v)" "clock (world v) \<le> clock (world s) + int (7 + 1) * d"
    by (auto simp: paced_def)
  have ev: "clock_readings (new_events s ?t) = clock_readings es @ [now]"
    using new_events_eq [of ?t s "es @ [ClockRead now]"] reading(1) es(1) by simp
  have "sorted (clock_readings (new_events s ?t))" unfolding ev using es(2,3) reading(2) by (simp add: sorted_append)
  moreover have "clock (world s) \<le> hd (clock_readings (new_events s ?t))"
    unfolding ev using es(3) lapse(1) reading(2) by (cases "clock_readings es") auto
  then have "last (clock_readings (new_events s ?t)) - hd (clock_readings (new_events s ?t)) \<le> ttl - interval"
    unfolding ev using reading(2) lapse(2) b(2) by simp
  ultimately show ?thesis
    using own_registered_upkeep [OF own(1) dev(1) r ext refl] own dev(2) by (simp add: device_kept_def)
qed

section \<open>The rest of a turn\<close>

lemma intake_device [simp]:
  "registry (standaloneIntake E C Q config task s) = registry s" "throttle (standaloneIntake E C Q config task s) = throttle s"
  "registry (workerIntake E C Q task s) = registry s" "throttle (workerIntake E C Q task s) = throttle s"
  by (auto simp: standaloneIntake_def workerIntake_def selectCompileAndSchedule_def sendFailure_def
      daemon_frame [OF send_extends] split: prod.splits sum.splits dest: compileAndSchedule_ticket)

lemma device_kept_reports [simp]:
  "device_kept E' q i ttl (sendFailure E task e s) = device_kept E' q i ttl s"
  "device_kept E' q i ttl (sendResult E task res s) = device_kept E' q i ttl s"
  by (auto simp: sendFailure_def sendResult_def daemon_frame [OF send_extends] intro!: device_kept_frame)

lemma device_kept_scheduler [simp]: "device_kept E q i ttl (s\<lparr>schedulerState := x\<rparr>) = device_kept E q i ttl s"
  by (rule device_kept_frame) simp_all

lemma device_kept_extends: "io_extends s t \<Longrightarrow> device_kept E q i ttl t = device_kept E q i ttl s"
  by (intro device_kept_frame daemon_frame)

lemma device_kept_emits: "emits A s t \<Longrightarrow> device_kept E q i ttl t = device_kept E q i ttl s"
  by (simp add: emits_def device_kept_extends)

lemma device_kept_executeReady:
  "executeReady E Q config b s = Some (b', t) \<Longrightarrow> device_kept E' q i ttl t = device_kept E' q i ttl s"
proof (induction rule: executeReady_induct)
  case (answered b s x task res u b' t)
  from device_kept_extends [OF silent_extends [OF silent_executeQuantumTask [OF flag_ok_terminationRequested answered(2)]]] answered(3)
  show ?case by simp
next
  case (failed b s x task e u b' t)
  from device_kept_extends [OF silent_extends [OF silent_executeQuantumTask [OF flag_ok_terminationRequested failed(2)]]] failed(4)
  show ?case by simp
next
  case (shutdown b s x task e u)
  from device_kept_extends [OF silent_extends [OF silent_executeQuantumTask [OF flag_ok_terminationRequested shutdown(2)]]]
  show ?case by simp
qed simp

lemma device_kept_submitReady:
  "submitReady E Q L s = Some (L', t) \<Longrightarrow> device_kept E' q i ttl t = device_kept E' q i ttl s"
proof (induction rule: submitReady_induct)
  case (submitted L s x task jobs u L' t)
  from device_kept_extends [OF submitQuantumTask_extends [OF flag_ok_terminationRequested submitted(2)]] submitted(3)
  show ?case by simp
next
  case (failed L s x task e u L' t)
  from device_kept_extends [OF submitQuantumTask_extends [OF flag_ok_terminationRequested failed(2)]] failed(4)
  show ?case by simp
next
  case (shutdown L s x task e u)
  from device_kept_extends [OF submitQuantumTask_extends [OF flag_ok_terminationRequested shutdown(2)]] show ?case by simp
qed simp

lemma device_kept_handled:
  assumes "device_kept E' q i ttl s" and "\<And>m s. device_kept E' q i ttl s \<Longrightarrow> device_kept E' q i ttl (handle m s)"
  shows "drainQueue E poll TaskPolled p (terminationRequested E) handle s = Some (b, t) \<Longrightarrow> device_kept E' q i ttl t"
    and "receiveNext E poll TaskPolled p timeout (terminationRequested E) handle s = Some (b, t) \<Longrightarrow> device_kept E' q i ttl t"
  by (erule drainQueue_invariant [OF flag_ok_terminationRequested poll_idle_simps(1)]
      receiveNext_invariant [OF flag_ok_terminationRequested poll_idle_simps(1)];
      (rule assms; fail | simp add: device_kept_emits assms(2) device_kept_extends; fail))+

lemma device_kept_intake:
  "device_kept E' q i ttl s \<Longrightarrow> device_kept E' q i ttl (standaloneIntake E C Q config task s)"
  "device_kept E' q i ttl s \<Longrightarrow> device_kept E' q i ttl (workerIntake E C Q task s)"
  using device_kept_frame by (metis intake_device)+

lemma device_kept_standaloneTurn:
  assumes "upkeep_in_time E i ttl" and "device_kept E '''' i ttl s" and "standaloneTurn E P C Q config s = Some t"
  shows "device_kept E '''' i ttl t"
proof -
  obtain st u where r: "refreshOwnDeviceStatus E P '''' s = (st, u)" by (cases "refreshOwnDeviceStatus E P '''' s")
  have up: "device_kept E '''' i ttl (expireBackends E u)" by (rule device_kept_upkeep [OF assms(1,2) r]) simp
  from assms(3) r obtain received s2 executed s3 where
    d: "drainQueue E (env_receiveTask E) TaskPolled (com_qrmciQueue (cfg_common config)) (terminationRequested E)
       (standaloneIntake E C Q config) (expireBackends E u) = Some (received, s2)"
    and x: "executeReady E Q config False s2 = Some (executed, s3)"
    and t: "t = (if \<not> received \<and> \<not> executed then sleepFor E (com_stagePollInterval (cfg_common config)) s3 else s3)"
    unfolding standaloneTurn_def Let_def by (auto split: Option.bind_splits)
  have "device_kept E '''' i ttl s2" by (rule device_kept_handled(1) [OF up device_kept_intake(1) d])
  with device_kept_executeReady [OF x] t show ?thesis by (simp add: device_kept_emits [OF upkeep_sleepFor])
qed

lemma device_kept_workerTurn:
  assumes "upkeep_in_time E i ttl" and "device_kept E (cmp_queue (cfg_compiler config)) i ttl s"
    and "workerTurn E P C Q config s = Some t"
  shows "device_kept E (cmp_queue (cfg_compiler config)) i ttl t"
  using assms(3)
proof (rule workerTurn_stages)
  let ?q = "cmp_queue (cfg_compiler config)"
  fix received s2 batch s3 s4
  assume r: "receiveNext E (env_receiveTask E) TaskPolled ?q
       (cmp_taskReceiveTimeout (cfg_compiler config)) (terminationRequested E) (workerIntake E C Q)
       (expireBackends E (publishOwnStatus E P config s)) = Some (received, s2)"
    and x: "submitReady E Q [] s2 = Some (batch, s3)" and c: "collectSubmitted E config batch s3 = Some s4"
    and z: "emits upkeep_event s4 t"
  obtain st u where ref: "refreshOwnDeviceStatus E P ?q s = (st, u)" by (cases "refreshOwnDeviceStatus E P ?q s")
  have "publishOwnStatus E P config s = u \<or> (\<exists>m p. publishOwnStatus E P config s = send E m p u)"
    using ref by (cases st) (auto simp: publishOwnStatus_def)
  from device_kept_upkeep [OF assms(1,2) ref this] have "device_kept E ?q i ttl s2"
    by (rule device_kept_handled(2) [OF _ device_kept_intake(2) r])
  with device_kept_submitReady [OF x] device_kept_emits [OF collectSubmitted_events [OF c]] device_kept_emits [OF z]
  show ?thesis by simp
qed

section \<open>Runs\<close>

definition keeps_device ::
  "'w environment \<Rightarrow> string \<Rightarrow> ('w, 'c, 'q, 'z) daemon_scheme \<Rightarrow> ('w, 'c, 'q, 'z) daemon_scheme \<Rightarrow> bool" where
  "keeps_device E q s t \<longleftrightarrow>
     (\<forall>i ttl. upkeep_in_time E i ttl \<longrightarrow> device_kept E q i ttl s \<longrightarrow> device_kept E q i ttl t)"

lemma keeps_device_flag: "terminationRequested E s = (b, t) \<Longrightarrow> keeps_device E q s t"
  unfolding keeps_device_def
  using device_kept_extends [OF silent_extends [OF silent_flag [OF flag_ok_terminationRequested]]] by blast

interpretation standalone_device: work_loop E "standaloneTurn E P C Q config" "keeps_device E ''''" for E P C Q config
  by unfold_locales (auto simp: keeps_device_flag, auto simp: keeps_device_def device_kept_standaloneTurn)

interpretation worker_device: work_loop E "workerTurn E P C Q config" "keeps_device E (cmp_queue (cfg_compiler config))"
  for E P C Q config
  by unfold_locales (auto simp: keeps_device_flag, auto simp: keeps_device_def device_kept_workerTurn)

lemma kept_device_found:
  assumes "upkeep_in_time E (publishInterval (throttle d)) (entryTimeToLive (registry d))"
    and "started E q config s sq d" and "keeps_device E q d t"
  shows "\<exists>b. registry_find (registry t) (env_deviceId E) = Some b \<and> bw_queueName b = q"
proof -
  have "device_kept E q (publishInterval (throttle d)) (entryTimeToLive (registry d)) d"
    using assms(2) by (simp add: device_kept_def started_def)
  with assms(1,3) have "own_registered E q t" by (auto simp: keeps_device_def device_kept_def)
  then show ?thesis by (auto simp: own_registered_def registry_simps)
qed

section \<open>Properties\<close>

text \<open>C8: Over its whole life a daemon that owns a device keeps it registered. Let a standalone daemon or a
  worker start its loop as its \<open>main\<close> does, its device answer when asked, and the calls of one upkeep
  (at most eight of them) take no longer than the slack between the entry time-to-live and the
  publication interval. Then at every turn of its loop the device is registered, under the very dispatch
  queue the daemon advertises, no matter how long the jobs in between have taken.\<close>

theorem own_device_registered_for_life:
  assumes "upkeep_in_time E (publishInterval (throttle d)) (entryTimeToLive (registry d))"
    and "turn = standaloneTurn E P C Q config \<and> q = '''' \<or> turn = workerTurn E P C Q config \<and> q = cmp_queue (cfg_compiler config)"
    and "started E q config s sq d" and "turns E turn d t"
  shows "\<exists>b. registry_find (registry t) (env_deviceId E) = Some b \<and> bw_queueName b = q"
proof -
  have "keeps_device E q d t" using assms(2,4) standalone_device.reached worker_device.reached by blast
  from kept_device_found [OF assms(1,3) this] show ?thesis .
qed

text \<open>The sample worker starts with its device registered, and its calls take a second at most.\<close>

lemma sample_worker_started: "started worker_env ''compiler.q'' sample_config sample_io [] sample_daemon"
proof -
  have "env_deviceId worker_env = env_deviceId sample_env" by (simp add: worker_env_def)
  then have "own_registered worker_env ''compiler.q'' sample_daemon"
    using sample_daemon_registered by (simp add: own_registered_def)
  moreover have "nanoseconds 30 = 30000000000" "nanoseconds_of_ms 5000 = 5000000000"
    by (simp_all add: nanoseconds_exact nanoseconds_of_ms_exact fits64_def)
  ultimately show ?thesis
    by (simp add: started_def sample_daemon_def sample_config_def sample_io_def BackendRegistry_new_def)
qed

lemma sample_worker_in_time: "upkeep_in_time worker_env 5000000000 30000000000"
proof -
  have "brisk worker_env (\<lambda>w. int w * 1000000000) 1000000000"
    by (simp add: brisk_def quick_def worker_env_def sample_env_def)
  moreover have "device_readable worker_env"
    using sample_env_readable by (simp add: device_readable_def worker_env_def)
  ultimately show ?thesis
    unfolding upkeep_in_time_def by (intro conjI exI [of _ "\<lambda>w. int w * 1000000000"] exI [of _ "1000000000 :: int"]) simp_all
qed

theorem own_device_registered_for_life_witness:
  "\<exists>t b. turns worker_env (workerTurn worker_env sample_protocol sample_compiler sample_scheduler sample_config) sample_daemon t \<and>
     trace t \<noteq> [] \<and> registry_find (registry t) ''cxxdevice5q'' = Some b \<and> bw_queueName b = ''compiler.q''"
proof -
  let ?s = "snd (terminationRequested worker_env sample_daemon)"
    and ?turn = "workerTurn worker_env sample_protocol sample_compiler sample_scheduler sample_config"
  obtain t where turn: "?turn ?s = Some t" and t: "length (List.map_filter answered_ticket (trace t)) = 1"
    using sample_worker_turn by (auto split: option.splits)
  have "terminationRequested worker_env sample_daemon = (False, ?s)"
    by (simp add: terminationRequested_def ext_call_def worker_env_def sample_env_def)
  with turn have run: "turns worker_env ?turn sample_daemon t" by (blast intro: turns.intros)
  have "publishInterval (throttle sample_daemon) = 5000000000" "entryTimeToLive (registry sample_daemon) = 30000000000"
    by (simp_all add: sample_daemon_def PublicationThrottle_new_def BackendRegistry_new_def)
  with sample_worker_in_time
  have "upkeep_in_time worker_env (publishInterval (throttle sample_daemon)) (entryTimeToLive (registry sample_daemon))" by simp
  from own_device_registered_for_life [OF this _ sample_worker_started run, of sample_protocol sample_compiler sample_scheduler]
  have "\<exists>b. registry_find (registry t) (env_deviceId worker_env) = Some b \<and> bw_queueName b = ''compiler.q''"
    by (simp add: sample_config_def)
  moreover have "env_deviceId worker_env = ''cxxdevice5q''" by (simp add: worker_env_def sample_env_def)
  moreover have "trace t \<noteq> []" using t by (auto simp: List.map_filter_def)
  ultimately show ?thesis using run by metis
qed

end
