(* ===== verification/Deployment.thy ===== *)
theory Deployment
  imports Queue_Use Own_Device
begin

text \<open>
  The distributed deployment: one selector, any number of workers and the outside world (the owners of
  tasks), each a process of its own, that share a message broker. Their external calls interleave freely:
  the history of a deployment is one sequence of calls, each with the party that made it, of which every
  process sees its own calls only. The broker is a parameter of the development; what is relied on is
  that it accounts for the history (\<open>broker_step\<close>): it delivers from a queue only messages that were
  sent to that queue, unaltered and each at most once, in any order, and none whose sending failed.
\<close>

section \<open>The broker\<close>

text \<open>The messages that were sent and not delivered yet, each with the queue it is in.\<close>

type_synonym queues = "(string \<times> Message) list"

primrec remove_first :: "('a \<Rightarrow> bool) \<Rightarrow> 'a list \<Rightarrow> 'a list option" where
  "remove_first p [] = None"
| "remove_first p (x # xs) = (if p x then Some xs else map_option (Cons x) (remove_first p xs))"

fun is_task :: "string \<Rightarrow> QuantumTask \<Rightarrow> string \<times> Message \<Rightarrow> bool" where
  "is_task q task (p, TaskMessage m) = (p = q \<and> m = task)"
| "is_task q task _ = False"

fun is_status :: "string \<Rightarrow> Backend \<Rightarrow> string \<times> Message \<Rightarrow> bool" where
  "is_status q status (p, BackendMessage m) = (p = q \<and> m = status)"
| "is_status q status _ = False"

fun broker_step :: "queues \<Rightarrow> event \<Rightarrow> queues option" where
  "broker_step Q (MessageSent q m (Inr _)) = Some (Q @ [(q, m)])"
| "broker_step Q (TaskPolled q _ (Inr (task, _))) = remove_first (is_task q task) Q"
| "broker_step Q (BackendPolled q _ (Inr (status, _))) = remove_first (is_status q status) Q"
| "broker_step Q _ = Some Q"

text \<open>What is delivered was sent before, or was there at the beginning.\<close>

lemma remove_first_mem:
  "remove_first p xs = Some ys \<Longrightarrow> \<exists>x \<in> set xs. p x"
  "remove_first p xs = Some ys \<Longrightarrow> x \<in> set ys \<Longrightarrow> x \<in> set xs"
  by (induction xs arbitrary: ys) (auto split: if_splits)

lemma broker_step_mem:
  "broker_step Q e = Some Q' \<Longrightarrow> (q, m) \<in> set Q' \<Longrightarrow> (q, m) \<in> set Q \<or> e = MessageSent q m (Inr ())"
  by (cases "(Q, e)" rule: broker_step.cases) (auto dest: remove_first_mem(2))

lemma broker_mem:
  "watch broker_step Q es = Some Q' \<Longrightarrow> (q, m) \<in> set Q' \<Longrightarrow> (q, m) \<in> set Q \<or> MessageSent q m (Inr ()) \<in> set es"
proof (induction es arbitrary: Q)
  case (Cons e es)
  then obtain Q1 where "broker_step Q e = Some Q1" "watch broker_step Q1 es = Some Q'" by (auto split: Option.bind_splits)
  with Cons broker_step_mem show ?case by fastforce
qed simp

lemma delivery_has_cause:
  assumes "watch broker_step [] es = Some Q"
  shows "TaskPolled q i (Inr (task, d)) \<in> set es \<Longrightarrow> MessageSent q (TaskMessage task) (Inr ()) \<in> set es"
    and "BackendPolled q i (Inr (status, d)) \<in> set es \<Longrightarrow> MessageSent q (BackendMessage status) (Inr ()) \<in> set es"
proof -
  have cause: "\<exists>q m. p (q, m) \<and> MessageSent q m (Inr ()) \<in> set es"
    if e: "e \<in> set es" and step: "\<And>Q. broker_step Q e = remove_first p Q" for e p
  proof -
    obtain xs ys where es: "es = xs @ e # ys" using e by (meson split_list)
    obtain Q1 Q2 where Q1: "watch broker_step [] xs = Some Q1" "broker_step Q1 e = Some Q2"
      using watch_split [OF assms [unfolded es]] by blast
    then obtain x where "x \<in> set Q1" "p x" using step remove_first_mem(1) by metis
    with broker_mem [OF Q1(1), of "fst x" "snd x"] es show ?thesis
      by (intro exI [of _ "fst x"] exI [of _ "snd x"]) simp
  qed
  show "MessageSent q (TaskMessage task) (Inr ()) \<in> set es" if "TaskPolled q i (Inr (task, d)) \<in> set es"
    using cause [OF that, of "is_task q task"] by (auto elim!: is_task.elims)
  show "MessageSent q (BackendMessage status) (Inr ()) \<in> set es" if "BackendPolled q i (Inr (status, d)) \<in> set es"
    using cause [OF that, of "is_status q status"] by (auto elim!: is_status.elims)
qed

section \<open>The books of the broker\<close>

fun waiting_ticket :: "string set \<Rightarrow> string \<times> Message \<Rightarrow> ticket option" where
  "waiting_ticket X (q, TaskMessage task) = (if q \<in> X then Some (ticket task) else None)"
| "waiting_ticket X _ = None"

fun accepted_ticket :: "string set \<Rightarrow> event \<Rightarrow> ticket option" where
  "accepted_ticket X (MessageSent q (TaskMessage task) (Inr _)) = (if q \<in> X then Some (ticket task) else None)"
| "accepted_ticket X _ = None"

fun delivered_ticket :: "string set \<Rightarrow> event \<Rightarrow> ticket option" where
  "delivered_ticket X (TaskPolled q _ (Inr (task, _))) = (if q \<in> X then Some (ticket task) else None)"
| "delivered_ticket X _ = None"

text \<open>The tasks waiting in some queues.\<close>

definition waiting :: "queues \<Rightarrow> string set \<Rightarrow> ticket multiset" where
  "waiting Q X = mset (List.map_filter (waiting_ticket X) Q)"

lemma waiting_simps [simp]:
  "waiting [] X = {#}"
  "waiting (x # Q) X = (case waiting_ticket X x of None \<Rightarrow> {#} | Some k \<Rightarrow> {#k#}) + waiting Q X"
  "waiting (Q @ Q') X = waiting Q X + waiting Q' X"
  by (simp_all add: waiting_def List.map_filter_def split: option.splits)

lemma remove_task:
  "remove_first (is_task q task) Q = Some Q' \<Longrightarrow>
     waiting Q X = (case waiting_ticket X (q, TaskMessage task) of None \<Rightarrow> {#} | Some k \<Rightarrow> {#k#}) + waiting Q' X"
proof (induction Q arbitrary: Q')
  case (Cons x Q)
  then show ?case by (cases "is_task q task x") (auto elim!: is_task.elims simp: ac_simps)
qed simp

lemma remove_status: "remove_first (is_status q status) Q = Some Q' \<Longrightarrow> waiting Q X = waiting Q' X"
  by (induction Q arbitrary: Q') (auto split: if_splits elim!: is_status.elims)

lemma broker_step_books:
  assumes "broker_step Q e = Some Q'"
  shows "tally (accepted_ticket X) [e] + waiting Q X = tally (delivered_ticket X) [e] + waiting Q' X"
  using assms
proof (cases "(Q, e)" rule: broker_step.cases)
  case (1 Q q m u)
  with assms show ?thesis by (cases m) auto
next
  case (2 Q q i task d)
  with assms remove_task [of q task Q Q' X] show ?thesis by simp
next
  case (3 Q q i status d)
  with assms remove_status [of q status Q Q' X] show ?thesis by simp
qed auto

lemma broker_books:
  "watch broker_step Q es = Some Q' \<Longrightarrow>
     tally (accepted_ticket X) es + waiting Q X = tally (delivered_ticket X) es + waiting Q' X"
proof (induction es arbitrary: Q)
  case (Cons e es)
  then obtain Q1 where Q1: "broker_step Q e = Some Q1" "watch broker_step Q1 es = Some Q'" by (auto split: Option.bind_splits)
  from books_balance [where r = "{#}" and r' = "{#}" and a = "{#}" and a' = "{#}"]
    broker_step_books [OF Q1(1), of X] Cons.IH [OF Q1(2)] show ?case
    by simp
qed simp

section \<open>The processes\<close>

text \<open>A run of a worker: its environment, its configuration, and the states its loop leads from and to.\<close>

type_synonym ('w, 'c, 'q) worker_run = "'w environment \<times> Config \<times> ('w, 'c, 'q) daemon \<times> ('w, 'c, 'q) daemon"

definition worker_ran ::
  "protocol \<Rightarrow> 'c compiler \<Rightarrow> 'q scheduler \<Rightarrow> ('q \<Rightarrow> QuantumTask multiset) \<Rightarrow> ('w, 'c, 'q) worker_run \<Rightarrow> bool" where
  "worker_ran P C Q contents r \<longleftrightarrow>
     (case r of (E, config, s, t) \<Rightarrow>
        turns E (workerTurn E P C Q config) s t \<and> contents (schedulerState s) = {#})"

definition run_events :: "('w, 'c, 'q) worker_run \<Rightarrow> event list" where
  "run_events r = (case r of (E, config, s, t) \<Rightarrow> new_events s t)"

definition run_held :: "('q \<Rightarrow> QuantumTask multiset) \<Rightarrow> ('w, 'c, 'q) worker_run \<Rightarrow> ticket multiset" where
  "run_held contents r = (case r of (E, config, s, t) \<Rightarrow> held_tickets contents t)"

abbreviation total :: "('a \<Rightarrow> 'b multiset) \<Rightarrow> 'a list \<Rightarrow> 'b multiset" where
  "total f rs \<equiv> sum_list (map f rs)"

lemma total_mono: "(\<And>r. r \<in> set rs \<Longrightarrow> f r \<subseteq># g r) \<Longrightarrow> total f rs \<subseteq># total g rs"
  by (induction rs) (simp_all add: subset_mset.add_mono)

lemma worker_ran_books:
  assumes "scheduler_ok Q contents" and "worker_ran P C Q contents r"
  shows "tally answered_ticket (run_events r) + run_held contents r \<subseteq># tally received_ticket (run_events r)"
    and "FlagRead True \<notin> set (run_events r) \<Longrightarrow>
      tally answered_ticket (run_events r) + run_held contents r = tally received_ticket (run_events r)"
proof -
  obtain E config s t where r: "r = (E, config, s, t)" by (cases r)
  with assms(2) have run: "turns E (workerTurn E P C Q config) s t" and empty: "held_tickets contents s = {#}"
    by (simp_all add: worker_ran_def held_tickets_def)
  from worker.reached [OF run, of contents] assms(1)
  have "settles answered_ticket (held_tickets contents) {#} s t" by (simp add: books_kept_def)
  from settles_books [OF this] empty
  show "tally answered_ticket (run_events r) + run_held contents r \<subseteq># tally received_ticket (run_events r)"
    and "FlagRead True \<notin> set (run_events r) \<Longrightarrow>
      tally answered_ticket (run_events r) + run_held contents r = tally received_ticket (run_events r)"
    by (simp_all add: r run_events_def run_held_def)
qed

lemma tally_answered_or_forwarded: "tally answered_or_forwarded es = tally answered_ticket es + tally forwarded_ticket es"
proof (induction es)
  case (Cons e es)
  have "answered_ticket e = None \<or> forwarded_ticket e = None" by (cases e rule: answered_ticket.cases) auto
  with Cons show ?case by (auto simp: answered_or_forwarded_def split: option.splits)
qed simp

text \<open>A run of the selector, from its start.\<close>

type_synonym 'v selector_run = "'v environment \<times> Config \<times> 'v node"

definition selector_ran :: "protocol \<Rightarrow> 'd compiler \<Rightarrow> 'v selector_run \<Rightarrow> bool" where
  "selector_ran P C r \<longleftrightarrow>
     (case r of (E, config, n) \<Rightarrow>
        \<exists>n0 ttl. trace n0 = [] \<and> registry n0 = BackendRegistry_new ttl \<and> turns E (selectorTurn E P C config) n0 n)"

lemma selector_ran_inv:
  assumes "selector_ran P C (E, config, n)"
  shows "selector_inv P (getSupportedInputFormats C) n" and "conversation forwards (trace n)"
    and "list_all (taken_from {com_qrmciQueue (cfg_common config)} {sel_backendStatusQueue (cfg_selector config)}) (trace n)"
proof -
  from assms obtain n0 ttl where n0: "trace n0 = []" "registry n0 = BackendRegistry_new ttl"
    "turns E (selectorTurn E P C config) n0 n" by (auto simp: selector_ran_def)
  have new: "new_events n0 n = trace n" using n0(1) by (simp add: new_events_def)
  show "selector_inv P (getSupportedInputFormats C) n"
    using selector.reached [OF n0(3)] selector_inv_start [OF n0(2)] n0(1) by (auto simp: selector_promise_def)
  show "conversation forwards (trace n)" using converses_new_events [OF selector_protocol.reached [OF n0(3)]] new by simp
  show "list_all (taken_from {com_qrmciQueue (cfg_common config)} {sel_backendStatusQueue (cfg_selector config)}) (trace n)"
    using takes_new_events [OF selector_queues.reached [OF n0(3)]] new by simp
qed

lemma selector_ran_books:
  assumes "selector_ran P C (E, config, n)"
  shows "tally received_ticket (trace n) = tally answered_ticket (trace n) + tally forwarded_ticket (trace n)"
  using selector_ran_inv(1) [OF assms] by (simp add: selector_inv_def tally_answered_or_forwarded)

section \<open>The deployment\<close>

datatype party = Outside | Selecting | Working nat

type_synonym history = "(party \<times> event) list"

text \<open>The calls one party made, in their order.\<close>

definition view :: "party \<Rightarrow> history \<Rightarrow> event list" where
  "view p H = map snd (filter (\<lambda>x. fst x = p) H)"

lemma view_simps [simp]:
  "view p [] = []"
  "view p (x # H) = (if fst x = p then snd x # view p H else view p H)"
  "view p (H @ K) = view p H @ view p K"
  by (simp_all add: view_def)

lemma view_mem: "e \<in> set (map snd H) \<longleftrightarrow> (\<exists>p. e \<in> set (view p H))"
  by (force simp: view_def)

text \<open>Every call in the history is a call of one party.\<close>

lemma tally_views:
  assumes "\<And>i. Working i \<in> fst ` set H \<Longrightarrow> i < n"
  shows "tally f (map snd H) =
    tally f (view Outside H) + tally f (view Selecting H) + (\<Sum>i < n. tally f (view (Working i) H))"
  using assms
proof (induction H)
  case (Cons x H)
  obtain p e where x: "x = (p, e)" by (cases x)
  have IH: "tally f (map snd H) =
      tally f (view Outside H) + tally f (view Selecting H) + (\<Sum>i < n. tally f (view (Working i) H))"
    using Cons.prems by (intro Cons.IH) auto
  show ?case
  proof (cases p)
    case (Working i)
    with Cons.prems x have i: "i < n" by force
    have "(\<Sum>j < n. tally f (view (Working j) (x # H))) =
        (\<Sum>j < n. (if j = i then tally f [e] else {#}) + tally f (view (Working j) H))"
      by (rule sum.cong) (simp_all add: x Working)
    also have "\<dots> = tally f [e] + (\<Sum>j < n. tally f (view (Working j) H))"
      using i by (simp add: sum.distrib)
    finally show ?thesis using IH x Working by (simp add: ac_simps)
  qed (use IH x in simp_all)
qed simp

text \<open>
  The parties of a deployment and the queues that connect them: the common task queue and the status
  queue of the selector's configuration, and the queue of each worker.
\<close>

record ('v, 'w, 'c, 'q) deployment =
  dep_selector :: "'v selector_run"
  dep_workers :: "('w, 'c, 'q) worker_run list"
  dep_history :: history
  dep_queues :: queues

definition task_queue :: "('v, 'w, 'c, 'q) deployment \<Rightarrow> string" where
  "task_queue D = (case dep_selector D of (E, config, n) \<Rightarrow> com_qrmciQueue (cfg_common config))"

definition status_queue :: "('v, 'w, 'c, 'q) deployment \<Rightarrow> string" where
  "status_queue D = (case dep_selector D of (E, config, n) \<Rightarrow> sel_backendStatusQueue (cfg_selector config))"

definition selector_events :: "('v, 'w, 'c, 'q) deployment \<Rightarrow> event list" where
  "selector_events D = (case dep_selector D of (E, config, n) \<Rightarrow> trace n)"

definition run_queue :: "('w, 'c, 'q) worker_run \<Rightarrow> string" where
  "run_queue r = (case r of (E, config, s, t) \<Rightarrow> cmp_queue (cfg_compiler config))"

definition work_queues :: "('v, 'w, 'c, 'q) deployment \<Rightarrow> string set" where
  "work_queues D = run_queue ` set (dep_workers D)"

text \<open>
  How the owners of tasks conduct themselves: they hand tasks to the selector, not to workers, leave the
  queues of tasks to the daemons, and announce no devices.
\<close>

fun outsider :: "string \<Rightarrow> string \<Rightarrow> string set \<Rightarrow> event \<Rightarrow> bool" where
  "outsider tq sq W (MessageSent q (TaskMessage _) _) = (q \<notin> W)"
| "outsider tq sq W (MessageSent q (BackendMessage _) _) = (q \<noteq> sq)"
| "outsider tq sq W (TaskPolled q _ (Inr _)) = (q \<noteq> tq \<and> q \<notin> W)"
| "outsider tq sq W _ = True"

definition deployed ::
  "protocol \<Rightarrow> 'd compiler \<Rightarrow> 'c compiler \<Rightarrow> 'q scheduler \<Rightarrow> ('q \<Rightarrow> QuantumTask multiset) \<Rightarrow> ('v, 'w, 'c, 'q) deployment \<Rightarrow> bool" where
  "deployed P C C' Q contents D \<longleftrightarrow>
     selector_ran P C (dep_selector D) \<and> (\<forall>r \<in> set (dep_workers D). worker_ran P C' Q contents r) \<and>
     view Selecting (dep_history D) = selector_events D \<and>
     (\<forall>i < length (dep_workers D). view (Working i) (dep_history D) = run_events (dep_workers D ! i)) \<and>
     (\<forall>i. Working i \<in> fst ` set (dep_history D) \<longrightarrow> i < length (dep_workers D)) \<and>
     list_all (outsider (task_queue D) (status_queue D) (work_queues D)) (view Outside (dep_history D)) \<and>
     task_queue D \<notin> work_queues D \<and>
     watch broker_step [] (map snd (dep_history D)) = Some (dep_queues D)"

text \<open>Who sent a message, and who took a task.\<close>

lemma worker_ran_protocol:
  assumes "worker_ran P C Q contents (E, config, s, t)"
  shows "conversation (announces E config) (new_events s t)"
    and "list_all (taken_from {cmp_queue (cfg_compiler config)} {}) (new_events s t)"
proof -
  have run: "turns E (workerTurn E P C Q config) s t" using assms by (simp add: worker_ran_def)
  show "conversation (announces E config) (new_events s t)" by (rule converses_new_events [OF worker_protocol.reached [OF run]])
  show "list_all (taken_from {cmp_queue (cfg_compiler config)} {}) (new_events s t)"
    by (rule takes_new_events [OF worker_queues.reached [OF run]])
qed

lemma sender_cases:
  assumes "deployed P C C' Q contents D" and "MessageSent q m r \<in> set (map snd (dep_history D))"
  obtains (outside) "MessageSent q m r \<in> set (view Outside (dep_history D))"
      "outsider (task_queue D) (status_queue D) (work_queues D) (MessageSent q m r)"
  | (selector) "MessageSent q m r \<in> set (selector_events D)" "(\<exists>res. m = ResultMessage res) \<or> forwards q m"
  | (worker) i E config s t where "i < length (dep_workers D)" "dep_workers D ! i = (E, config, s, t)"
      "MessageSent q m r \<in> set (new_events s t)" "(\<exists>res. m = ResultMessage res) \<or> announces E config q m"
proof -
  from assms(2) obtain p where p: "MessageSent q m r \<in> set (view p (dep_history D))" using view_mem by blast
  show thesis
  proof (cases p)
    case Outside
    with p assms(1) outside show thesis by (auto simp: deployed_def list_all_iff)
  next
    case Selecting
    obtain E config n where s: "dep_selector D = (E, config, n)" by (cases "dep_selector D")
    with assms(1) have "conversation forwards (selector_events D)"
      by (auto simp: deployed_def selector_events_def dest: selector_ran_inv(2))
    with p Selecting assms(1) selector conversation_sent show thesis by (fastforce simp: deployed_def)
  next
    case (Working i)
    with p have "Working i \<in> fst ` set (dep_history D)" by (force simp: view_def)
    with assms(1) have i: "i < length (dep_workers D)" by (simp add: deployed_def)
    obtain E config s t where w: "dep_workers D ! i = (E, config, s, t)" by (cases "dep_workers D ! i")
    have ran: "worker_ran P C' Q contents (E, config, s, t)" using assms(1) i w by (auto simp: deployed_def dest: nth_mem)
    have "MessageSent q m r \<in> set (new_events s t)" using p Working assms(1) i w by (simp add: deployed_def run_events_def)
    with conversation_sent [OF worker_ran_protocol(1) [OF ran]] worker i w show thesis by blast
  qed
qed

text \<open>
  Where the selector's tasks go: to the queue of a worker that announced its device to the selector, as
  online and able to run the task, which names that device and is otherwise a task the selector took from
  the common queue.
\<close>

lemma forwarded_to_worker:
  assumes "deployed P C C' Q contents D" and "MessageSent q (TaskMessage task) r \<in> set (selector_events D)"
  obtains i E config s t status b received k d where
    "i < length (dep_workers D)" "dep_workers D ! i = (E, config, s, t)" "q = cmp_queue (cfg_compiler config)"
    "MessageSent (status_queue D) (BackendMessage status) (Inr ()) \<in> set (new_events s t)"
    "fromPublishedStatus P status = Inr b" "isOnline b" "canRun (getSupportedInputFormats C) b task"
    "scheduled_qpu task = env_deviceId E" "task = received\<lparr>scheduled_qpu := env_deviceId E\<rparr>"
    "TaskPolled (task_queue D) k (Inr (received, d)) \<in> set (selector_events D)"
proof -
  let ?tr = "selector_events D"
  obtain E0 config0 n where sel: "dep_selector D = (E0, config0, n)" by (cases "dep_selector D")
  then have tr: "?tr = trace n" and tq: "task_queue D = com_qrmciQueue (cfg_common config0)"
    and sq: "status_queue D = sel_backendStatusQueue (cfg_selector config0)"
    by (simp_all add: selector_events_def task_queue_def status_queue_def)
  have ran: "selector_ran P C (E0, config0, n)" and view: "view Selecting (dep_history D) = ?tr"
    and broker: "watch broker_step [] (map snd (dep_history D)) = Some (dep_queues D)"
    using assms(1) sel by (simp_all add: deployed_def)
  obtain es fs where split: "?tr = es @ MessageSent q (TaskMessage task) r # fs" using assms(2) by (meson split_list)
  have "routed P (getSupportedInputFormats C) ?tr" using selector_ran_inv(1) [OF ran] tr by (simp add: selector_inv_def)
  with split have "well_routed P (getSupportedInputFormats C) es q task" by (simp add: routed_def)
  then obtain b p k status d p' k' received d' where
    b: "bw_name b = scheduled_qpu task" "bw_queueName b = q" "isOnline b" "canRun (getSupportedInputFormats C) b task"
      "fromPublishedStatus P status = Inr b" and "BackendPolled p k (Inr (status, d)) \<in> set es"
    and rec: "TaskPolled p' k' (Inr (received, d')) \<in> set es" "task = received\<lparr>scheduled_qpu := scheduled_qpu task\<rparr>"
    unfolding well_routed_def announced_def by blast
  then have got: "BackendPolled p k (Inr (status, d)) \<in> set ?tr" and rec': "TaskPolled p' k' (Inr (received, d')) \<in> set ?tr"
    using split by simp_all
  have queues: "p = status_queue D" "p' = task_queue D"
    using selector_ran_inv(3) [OF ran] got rec' unfolding tr tq sq list_all_iff by fastforce+
  have status: "pb_name status = scheduled_qpu task" "pb_queue_name status = q"
    using b by (auto simp: fromPublishedStatus_Inr_iff BackendWrapper_of_def)
  from got view have "BackendPolled p k (Inr (status, d)) \<in> set (map snd (dep_history D))" using view_mem by metis
  from assms(1) delivery_has_cause(2) [OF broker this] show thesis
  proof (cases rule: sender_cases)
    case outside
    with queues show thesis by simp
  next
    case selector
    then show thesis by (simp add: forwards_def)
  next
    case (worker i E config s t)
    then have "q = cmp_queue (cfg_compiler config)" "scheduled_qpu task = env_deviceId E"
      using status by (simp_all add: announces_def)
    with that [OF worker(1,2)] worker(3) b rec(2) rec' queues show thesis by metis
  qed
qed

lemma forwarded_queue:
  assumes "deployed P C C' Q contents D" and "MessageSent q (TaskMessage task) r \<in> set (selector_events D)"
  shows "q \<in> work_queues D"
  using assms by (rule forwarded_to_worker) (force simp: work_queues_def run_queue_def dest: nth_mem)

text \<open>Only the outside sends tasks to the common queue, and only the selector to the workers' queues.\<close>

lemma task_sender:
  assumes "deployed P C C' Q contents D" and "MessageSent q (TaskMessage task) r \<in> set (map snd (dep_history D))"
  shows "(q \<notin> work_queues D \<and> MessageSent q (TaskMessage task) r \<in> set (view Outside (dep_history D))) \<or>
    (q \<in> work_queues D \<and> MessageSent q (TaskMessage task) r \<in> set (selector_events D))"
  using assms
proof (cases rule: sender_cases)
  case outside
  then show ?thesis by simp
next
  case selector
  with forwarded_queue [OF assms(1)] show ?thesis by blast
next
  case (worker i E config s t)
  then show ?thesis by (simp add: announces_def)
qed

text \<open>Tasks are taken from the common queue by the selector and from a worker's queue by a worker.\<close>

lemma task_taker:
  assumes "deployed P C C' Q contents D" and "TaskPolled q k (Inr x) \<in> set (view p (dep_history D))"
  shows "case p of Outside \<Rightarrow> q \<noteq> task_queue D \<and> q \<notin> work_queues D | Selecting \<Rightarrow> q = task_queue D
    | Working i \<Rightarrow> i < length (dep_workers D) \<and> q = run_queue (dep_workers D ! i)"
proof (cases p)
  case Outside
  with assms show ?thesis by (fastforce simp: deployed_def list_all_iff)
next
  case Selecting
  obtain E config n where sel: "dep_selector D = (E, config, n)" by (cases "dep_selector D")
  with assms(1) have "list_all (taken_from {task_queue D} {status_queue D}) (selector_events D)"
    by (auto simp: deployed_def selector_events_def task_queue_def status_queue_def dest: selector_ran_inv(3))
  with assms Selecting show ?thesis by (fastforce simp: deployed_def list_all_iff)
next
  case (Working i)
  with assms(2) have "Working i \<in> fst ` set (dep_history D)" by (force simp: view_def)
  with assms(1) have i: "i < length (dep_workers D)" by (simp add: deployed_def)
  obtain E config s t where w: "dep_workers D ! i = (E, config, s, t)" by (cases "dep_workers D ! i")
  have "worker_ran P C' Q contents (E, config, s, t)" using assms(1) i w by (auto simp: deployed_def dest: nth_mem)
  from worker_ran_protocol(2) [OF this] assms Working i w show ?thesis
    by (fastforce simp: deployed_def run_events_def run_queue_def list_all_iff)
qed

lemma tally_cong: "(\<And>e. e \<in> set es \<Longrightarrow> f e = g e) \<Longrightarrow> tally f es = tally g es"
  by (induction es) simp_all

lemma delivered_received:
  "(\<And>q k x. TaskPolled q k (Inr x) \<in> set es \<Longrightarrow> q \<in> X) \<Longrightarrow> tally (delivered_ticket X) es = tally received_ticket es"
proof (rule tally_cong)
  fix e
  assume "\<And>q k x. TaskPolled q k (Inr x) \<in> set es \<Longrightarrow> q \<in> X" and "e \<in> set es"
  then show "delivered_ticket X e = received_ticket e" by (cases e rule: received_ticket.cases) auto
qed

lemma delivered_none:
  "(\<And>q k x. TaskPolled q k (Inr x) \<in> set es \<Longrightarrow> q \<notin> X) \<Longrightarrow> tally (delivered_ticket X) es = {#}"
proof (rule tally_none)
  fix e
  assume "\<And>q k x. TaskPolled q k (Inr x) \<in> set es \<Longrightarrow> q \<notin> X" and "e \<in> set es"
  then show "delivered_ticket X e = None" by (cases e rule: received_ticket.cases) auto
qed

lemma accepted_none:
  "(\<And>q task r. MessageSent q (TaskMessage task) r \<in> set es \<Longrightarrow> q \<notin> X) \<Longrightarrow> tally (accepted_ticket X) es = {#}"
proof (rule tally_none)
  fix e
  assume "\<And>q task r. MessageSent q (TaskMessage task) r \<in> set es \<Longrightarrow> q \<notin> X" and "e \<in> set es"
  then show "accepted_ticket X e = None" by (cases "(X, e)" rule: accepted_ticket.cases) auto
qed

lemma total_nth: "(\<Sum>i < length rs. f (rs ! i)) = total f rs"
  by (simp add: sum_list_sum_nth atLeast0LessThan)

text \<open>The books of the common queue and of the workers' queues, in terms of what the parties did.\<close>

lemma deployed_work_disjoint: "deployed P C C' Q contents D \<Longrightarrow> task_queue D \<notin> work_queues D"
  by (simp add: deployed_def)

lemma tally_parties:
  assumes "\<forall>i < length runs. view (Working i) H = run_events (runs ! i)"
    and "\<forall>i. Working i \<in> fst ` set H \<longrightarrow> i < length runs"
  shows "tally f (map snd H) = tally f (view Outside H) + tally f (view Selecting H) + total (\<lambda>r. tally f (run_events r)) runs"
proof -
  have "(\<Sum>i < length runs. tally f (view (Working i) H)) = (\<Sum>i < length runs. tally f (run_events (runs ! i)))"
    by (rule sum.cong) (use assms(1) in simp_all)
  with tally_views [of H "length runs" f] assms(2) show ?thesis
    by (simp add: total_nth [of "\<lambda>r. tally f (run_events r)"])
qed

lemma deployed_tally:
  assumes "deployed P C C' Q contents D"
  shows "tally f (map snd (dep_history D)) = tally f (view Outside (dep_history D)) + tally f (selector_events D) +
    total (\<lambda>r. tally f (run_events r)) (dep_workers D)"
  using tally_parties [of "dep_workers D" "dep_history D" f] assms by (simp add: deployed_def)

lemma worker_tallies:
  assumes "deployed P C C' Q contents D" and "r \<in> set (dep_workers D)"
  shows "tally (accepted_ticket X) (run_events r) = {#}"
    and "tally (delivered_ticket X) (run_events r) = (if run_queue r \<in> X then tally received_ticket (run_events r) else {#})"
proof -
  obtain i where i: "i < length (dep_workers D)" "r = dep_workers D ! i" using assms(2) by (metis in_set_conv_nth)
  have "TaskPolled q k (Inr x) \<in> set (run_events r) \<Longrightarrow> q = run_queue r" for q k x
    using task_taker [OF assms(1), of q k x "Working i"] assms(1) i by (simp add: deployed_def)
  then show "tally (delivered_ticket X) (run_events r) = (if run_queue r \<in> X then tally received_ticket (run_events r) else {#})"
    using delivered_received [of "run_events r" X] delivered_none [of "run_events r" X] by metis
  obtain E config s t where r: "r = (E, config, s, t)" by (cases r)
  with assms have "worker_ran P C' Q contents (E, config, s, t)" by (auto simp: deployed_def)
  from conversation_sent [OF worker_ran_protocol(1) [OF this]] show "tally (accepted_ticket X) (run_events r) = {#}"
    by (intro accepted_none) (auto simp: r run_events_def announces_def)
qed

lemma queue_books:
  assumes "deployed P C C' Q contents D"
  shows "tally (accepted_ticket X) (view Outside (dep_history D)) + tally (accepted_ticket X) (selector_events D) =
    tally (delivered_ticket X) (view Outside (dep_history D)) + tally (delivered_ticket X) (selector_events D) +
    total (\<lambda>r. if run_queue r \<in> X then tally received_ticket (run_events r) else {#}) (dep_workers D) +
    waiting (dep_queues D) X"
proof -
  let ?H = "dep_history D"
  have "total (\<lambda>r. tally (accepted_ticket X) (run_events r)) (dep_workers D) = {#}"
    "total (\<lambda>r. tally (delivered_ticket X) (run_events r)) (dep_workers D) =
     total (\<lambda>r. if run_queue r \<in> X then tally received_ticket (run_events r) else {#}) (dep_workers D)"
    using worker_tallies [OF assms] by (simp_all cong: map_cong)
  moreover have "tally (accepted_ticket X) (map snd ?H) = tally (delivered_ticket X) (map snd ?H) + waiting (dep_queues D) X"
    using broker_books [of "[]" "map snd ?H" "dep_queues D" X] assms by (simp add: deployed_def)
  ultimately show ?thesis unfolding deployed_tally [OF assms] by simp
qed

lemma common_queue_books:
  assumes "deployed P C C' Q contents D"
  shows "tally (accepted_ticket {task_queue D}) (view Outside (dep_history D)) =
    tally received_ticket (selector_events D) + waiting (dep_queues D) {task_queue D}"
proof -
  note disjoint = deployed_work_disjoint [OF assms]
  have "tally (accepted_ticket {task_queue D}) (selector_events D) = {#}"
    by (rule accepted_none) (use forwarded_queue [OF assms] disjoint in blast)
  moreover have "tally (delivered_ticket {task_queue D}) (view Outside (dep_history D)) = {#}"
    by (rule delivered_none) (use task_taker [OF assms, of _ _ _ Outside] in fastforce)
  moreover have "tally (delivered_ticket {task_queue D}) (selector_events D) = tally received_ticket (selector_events D)"
    by (rule delivered_received) (use task_taker [OF assms, of _ _ _ Selecting] assms in \<open>fastforce simp: deployed_def\<close>)
  moreover have "run_queue r \<noteq> task_queue D" if "r \<in> set (dep_workers D)" for r
    using that disjoint by (metis work_queues_def imageI)
  ultimately show ?thesis using queue_books [OF assms, of "{task_queue D}"] by (simp cong: map_cong)
qed

fun refused_ticket :: "event \<Rightarrow> ticket option" where
  "refused_ticket (MessageSent _ (TaskMessage task) (Inl _)) = Some (ticket task)"
| "refused_ticket _ = None"

lemma work_queue_books:
  assumes "deployed P C C' Q contents D"
  shows "tally forwarded_ticket (selector_events D) = tally refused_ticket (selector_events D) +
    total (\<lambda>r. tally received_ticket (run_events r)) (dep_workers D) + waiting (dep_queues D) (work_queues D)"
proof -
  let ?W = "work_queues D" and ?O = "view Outside (dep_history D)"
  note disjoint = deployed_work_disjoint [OF assms]
  have split: "tally forwarded_ticket es = tally refused_ticket es + tally (accepted_ticket ?W) es"
    if "\<And>q task r. MessageSent q (TaskMessage task) r \<in> set es \<Longrightarrow> q \<in> ?W" for es
    using that
  proof (induction es)
    case (Cons e es)
    have "tally forwarded_ticket es = tally refused_ticket es + tally (accepted_ticket ?W) es"
      using Cons.prems by (intro Cons.IH) auto
    moreover have "tally forwarded_ticket [e] = tally refused_ticket [e] + tally (accepted_ticket ?W) [e]"
    proof (cases e rule: forwarded_ticket.cases)
      case (1 q task r)
      with Cons.prems show ?thesis by (cases r) auto
    qed simp_all
    ultimately show ?case by simp
  qed simp
  have "tally (accepted_ticket ?W) ?O = {#}"
    by (rule accepted_none) (use assms in \<open>fastforce simp: deployed_def list_all_iff\<close>)
  moreover have "tally (delivered_ticket ?W) ?O = {#}"
    by (rule delivered_none) (use task_taker [OF assms, of _ _ _ Outside] in fastforce)
  moreover have "tally (delivered_ticket ?W) (selector_events D) = {#}"
    by (rule delivered_none) (use task_taker [OF assms, of _ _ _ Selecting] assms disjoint in \<open>fastforce simp: deployed_def\<close>)
  moreover have "run_queue r \<in> ?W" if "r \<in> set (dep_workers D)" for r using that by (simp add: work_queues_def)
  ultimately show ?thesis
    using queue_books [OF assms, of ?W] split [OF forwarded_queue [OF assms]] by (simp add: union_assoc cong: map_cong)
qed

section \<open>Properties\<close>


text \<open>C2: A worker is handed the tasks meant for it. In a deployment whose workers have queues of their own,
  every task a worker takes is a task an owner handed in for the selector, unaltered but for the name of
  the device it is assigned to, which is the worker's own; the worker had published its device as online
  and able to run that task. If the worker started as its \<open>main\<close> does and its upkeep is in time, it has
  the device registered, under the queue the task came from.\<close>

theorem deployment_routes_tasks:
  assumes "deployed P C C' Q contents D" and "distinct (map run_queue (dep_workers D))"
    and "i < length (dep_workers D)" and "dep_workers D ! i = (E, config, s, t)"
    and "TaskPolled q k (Inr (task, d)) \<in> set (new_events s t)"
  shows "(\<exists>handed. MessageSent (task_queue D) (TaskMessage handed) (Inr ()) \<in> set (view Outside (dep_history D)) \<and>
      task = handed\<lparr>scheduled_qpu := env_deviceId E\<rparr>) \<and>
    (\<exists>status b. MessageSent (status_queue D) (BackendMessage status) (Inr ()) \<in> set (new_events s t) \<and>
      fromPublishedStatus P status = Inr b \<and> isOnline b \<and> canRun (getSupportedInputFormats C) b task) \<and>
    (started E q config io sq s \<and> upkeep_in_time E (publishInterval (throttle s)) (entryTimeToLive (registry s)) \<longrightarrow>
      (\<exists>b. registry_find (registry t) (env_deviceId E) = Some b \<and> bw_queueName b = q))"
proof -
  have view: "view (Working i) (dep_history D) = new_events s t" and sel: "view Selecting (dep_history D) = selector_events D"
    and broker: "watch broker_step [] (map snd (dep_history D)) = Some (dep_queues D)"
    using assms(1,3,4) by (simp_all add: deployed_def run_events_def)
  have sent: "MessageSent p (TaskMessage x) (Inr ()) \<in> set (map snd (dep_history D))"
    if "TaskPolled p k' (Inr (x, d')) \<in> set (view v (dep_history D))" for p k' x d' v
    using delivery_has_cause(1) [OF broker] that view_mem by blast
  have q: "q = run_queue (dep_workers D ! i)" using task_taker [OF assms(1), of q k _ "Working i"] assms(5) view by fastforce
  then have "q \<in> work_queues D" using assms(3) by (simp add: work_queues_def)
  with task_sender [OF assms(1) sent [of q k task d "Working i"]] assms(5) view
  have "MessageSent q (TaskMessage task) (Inr ()) \<in> set (selector_events D)" by auto
  with assms(1) show ?thesis
  proof (rule forwarded_to_worker)
    fix j E' config' s' t' status b received k' d'
    assume j: "j < length (dep_workers D)" "dep_workers D ! j = (E', config', s', t')" "q = cmp_queue (cfg_compiler config')"
      and status: "MessageSent (status_queue D) (BackendMessage status) (Inr ()) \<in> set (new_events s' t')"
        "fromPublishedStatus P status = Inr b" "isOnline b" "canRun (getSupportedInputFormats C) b task"
      and task: "task = received\<lparr>scheduled_qpu := env_deviceId E'\<rparr>"
      and rec: "TaskPolled (task_queue D) k' (Inr (received, d')) \<in> set (selector_events D)"
    from q j have "map run_queue (dep_workers D) ! j = map run_queue (dep_workers D) ! i" using assms(3) by (simp add: run_queue_def)
    with assms(2,3) j(1) have "j = i" using nth_eq_iff_index_eq by fastforce
    with j(2) assms(4) have same: "E' = E" "config' = config" "s' = s" "t' = t" by simp_all
    have "MessageSent (task_queue D) (TaskMessage received) (Inr ()) \<in> set (view Outside (dep_history D))"
      using task_sender [OF assms(1) sent [of "task_queue D" k' received d' Selecting]] rec sel
        deployed_work_disjoint [OF assms(1)] by simp
    moreover have "turns E (workerTurn E P C' Q config) s t"
      using assms(1,3,4) nth_mem [OF assms(3)] by (auto simp: deployed_def worker_ran_def)
    from worker_device.reached [OF this] have "keeps_device E q s t" using j(3) same by simp
    with kept_device_found [of E s q config io sq t] task status same show ?thesis using calculation by blast
  qed
qed

text \<open>
  A small deployment: the worker announces its device, the selector takes the announcement and then the
  task an owner handed in, and forwards it, before the worker, still in the same turn, asks for a task.
\<close>

definition published_status :: Backend where
  "published_status = (toBackend sample_protocol own_backend)\<lparr>pb_connectivity := []\<rparr>"

definition owner_task :: QuantumTask where
  "owner_task = sample_quake_task\<lparr>circuit_files := [''b'']\<rparr>"

definition informed_env :: "nat environment" where
  "informed_env = selector_env\<lparr>
     env_receiveBackend := (\<lambda>_ _ w. if w < 100 then (Inr (published_status, w), 100 + w)
       else (Inl \<lparr>status_code = StatusTimeout, reason = ''empty''\<rparr>, w)),
     env_receiveTask := (\<lambda>_ _ w. if w < 200 then (Inr (owner_task, w), 100 + w)
       else (Inl \<lparr>status_code = StatusTimeout, reason = ''empty''\<rparr>, w))\<rparr>"

fun polls_task :: "event \<Rightarrow> bool" where
  "polls_task (TaskPolled _ _ _) = True"
| "polls_task _ = False"

definition sample_history :: "event list \<Rightarrow> event list \<Rightarrow> history" where
  "sample_history st wt =
     (Outside, MessageSent ''tasks'' (TaskMessage owner_task) (Inr ())) #
     map (Pair (Working 0)) (takeWhile (\<lambda>e. \<not> polls_task e) wt) @ map (Pair Selecting) st @
     map (Pair (Working 0)) (dropWhile (\<lambda>e. \<not> polls_task e) wt)"

lemma sample_deployment_turns:
  "case (selectorTurn informed_env sample_protocol sample_compiler sample_config (snd (terminationRequested informed_env sample_selector)),
     workerTurn worker_env sample_protocol sample_compiler sample_scheduler sample_config (snd (terminationRequested worker_env sample_daemon))) of
     (Some n, Some t) \<Rightarrow>
       (case watch broker_step [] (map snd (sample_history (trace n) (trace t))) of
          None \<Rightarrow> False
        | Some Q \<Rightarrow> List.map_filter (waiting_ticket {''tasks'', ''compiler.q''}) Q = []) \<and>
       no_shutdown (trace t) \<and> schedulerState t = [] \<and> List.map_filter answered_ticket (trace n) = [] \<and>
       List.map_filter refused_ticket (trace n) = [] \<and> list_ex (\<lambda>e. received_ticket e \<noteq> None) (trace t)
   | _ \<Rightarrow> False"
  by code_simp

lemma sample_deployment:
  obtains n t K where
    "deployed sample_protocol sample_compiler sample_compiler sample_scheduler mset
      \<lparr>dep_selector = (informed_env, sample_config, n), dep_workers = [(worker_env, sample_config, sample_daemon, t)],
       dep_history = sample_history (trace n) (trace t), dep_queues = K\<rparr>"
    "trace sample_daemon = []" "waiting K {''tasks'', ''compiler.q''} = {#}" "FlagRead True \<notin> set (trace t)" "schedulerState t = []"
    "tally answered_ticket (trace n) = {#}" "tally refused_ticket (trace n) = {#}"
    "\<exists>q k task d. TaskPolled q k (Inr (task, d)) \<in> set (trace t)"
proof -
  let ?select = "selectorTurn informed_env sample_protocol sample_compiler sample_config"
    and ?work = "workerTurn worker_env sample_protocol sample_compiler sample_scheduler sample_config"
  obtain n t K where n: "?select (snd (terminationRequested informed_env sample_selector)) = Some n"
    and t: "?work (snd (terminationRequested worker_env sample_daemon)) = Some t"
    and K: "watch broker_step [] (map snd (sample_history (trace n) (trace t))) = Some K"
      "waiting K {''tasks'', ''compiler.q''} = {#}"
    and out: "no_shutdown (trace t)" "schedulerState t = []" "tally answered_ticket (trace n) = {#}"
      "tally refused_ticket (trace n) = {#}" "list_ex (\<lambda>e. received_ticket e \<noteq> None) (trace t)"
    using sample_deployment_turns by (auto simp: waiting_def tally_def split: option.splits)
  have fn: "terminationRequested informed_env sample_selector = (False, snd (terminationRequested informed_env sample_selector))"
    by (simp add: terminationRequested_def ext_call_def informed_env_def selector_env_def sample_selector_def)
  have ft: "terminationRequested worker_env sample_daemon = (False, snd (terminationRequested worker_env sample_daemon))"
    by (simp add: terminationRequested_def ext_call_def worker_env_def sample_env_def)
  have tr: "trace sample_daemon = []" by (simp add: sample_daemon_def)
  have "turns informed_env ?select sample_selector n" using n fn by (blast intro: turns.intros)
  then have select: "selector_ran sample_protocol sample_compiler (informed_env, sample_config, n)"
    by (auto simp: selector_ran_def sample_selector_def intro!: exI [of _ sample_selector])
  have "turns worker_env ?work sample_daemon t" using t ft by (blast intro: turns.intros)
  then have work: "worker_ran sample_protocol sample_compiler sample_scheduler mset (worker_env, sample_config, sample_daemon, t)"
    by (simp add: worker_ran_def sample_daemon_def)
  have views: "view Selecting (sample_history (trace n) (trace t)) = trace n"
    "view (Working 0) (sample_history (trace n) (trace t)) = trace t"
    "view Outside (sample_history (trace n) (trace t)) = [MessageSent ''tasks'' (TaskMessage owner_task) (Inr ())]"
    by (simp_all add: sample_history_def view_def filter_map comp_def)
  have parties: "Working i \<in> fst ` set (sample_history (trace n) (trace t)) \<Longrightarrow> i = 0" for i
    by (auto simp: sample_history_def)
  have "deployed sample_protocol sample_compiler sample_compiler sample_scheduler mset
      \<lparr>dep_selector = (informed_env, sample_config, n), dep_workers = [(worker_env, sample_config, sample_daemon, t)],
       dep_history = sample_history (trace n) (trace t), dep_queues = K\<rparr>"
    unfolding deployed_def using select work views K(1) tr parties
    by (auto simp: selector_events_def run_events_def new_events_def task_queue_def work_queues_def run_queue_def sample_config_def)
  moreover have "FlagRead True \<notin> set (trace t)" using out(1) by (auto simp: no_shutdown_def list_all_iff)
  moreover have "\<exists>q k task d. TaskPolled q k (Inr (task, d)) \<in> set (trace t)"
    using out(5) by (auto simp: list_ex_iff elim!: received_ticket.elims)
  ultimately show thesis using that tr K(2) out by blast
qed


theorem deployment_routes_tasks_witness:
  "\<exists>n t K task q k d. deployed sample_protocol sample_compiler sample_compiler sample_scheduler mset
      \<lparr>dep_selector = (informed_env, sample_config, n), dep_workers = [(worker_env, sample_config, sample_daemon, t)],
       dep_history = sample_history (trace n) (trace t), dep_queues = K\<rparr> \<and>
     TaskPolled q k (Inr (task, d)) \<in> set (trace t) \<and> task = owner_task\<lparr>scheduled_qpu := ''cxxdevice5q''\<rparr>"
proof -
  obtain n t K where D: "deployed sample_protocol sample_compiler sample_compiler sample_scheduler mset
      \<lparr>dep_selector = (informed_env, sample_config, n), dep_workers = [(worker_env, sample_config, sample_daemon, t)],
       dep_history = sample_history (trace n) (trace t), dep_queues = K\<rparr>" (is "deployed _ _ _ _ _ ?D")
    and s: "trace sample_daemon = []" and taken: "\<exists>q k task d. TaskPolled q k (Inr (task, d)) \<in> set (trace t)"
    using sample_deployment .
  from taken obtain q k task d where got: "TaskPolled q k (Inr (task, d)) \<in> set (trace t)" by blast
  with s have "TaskPolled q k (Inr (task, d)) \<in> set (new_events sample_daemon t)" by (simp add: new_events_def)
  from deployment_routes_tasks [OF D _ _ _ this, where i = 0 and E = worker_env and config = sample_config and io = sample_io and sq = "[]"]
  obtain handed where "MessageSent (task_queue ?D) (TaskMessage handed) (Inr ()) \<in> set (view Outside (dep_history ?D))"
    "task = handed\<lparr>scheduled_qpu := env_deviceId worker_env\<rparr>" by auto
  then have "task = owner_task\<lparr>scheduled_qpu := ''cxxdevice5q''\<rparr>"
    by (simp add: sample_history_def view_def filter_map comp_def worker_env_def sample_env_def)
  with D got show ?thesis by blast
qed

section \<open>Standalone daemons that share a queue\<close>

text \<open>
  Any number of standalone daemons, each with its own device, that serve one task queue, with the same
  history and broker; the party \<open>Working i\<close> is the daemon \<open>i\<close>, and there is no selector.
\<close>

definition standalone_ran ::
  "protocol \<Rightarrow> 'c compiler \<Rightarrow> 'q scheduler \<Rightarrow> ('q \<Rightarrow> QuantumTask multiset) \<Rightarrow> string \<Rightarrow> ('w, 'c, 'q) worker_run \<Rightarrow> bool" where
  "standalone_ran P C Q contents tq r \<longleftrightarrow>
     (case r of (E, config, s, t) \<Rightarrow>
        turns E (standaloneTurn E P C Q config) s t \<and> contents (schedulerState s) = {#} \<and> com_qrmciQueue (cfg_common config) = tq)"

definition served ::
  "protocol \<Rightarrow> 'c compiler \<Rightarrow> 'q scheduler \<Rightarrow> ('q \<Rightarrow> QuantumTask multiset) \<Rightarrow> string \<Rightarrow> ('w, 'c, 'q) worker_run list \<Rightarrow>
   history \<Rightarrow> queues \<Rightarrow> bool" where
  "served P C Q contents tq runs H K \<longleftrightarrow>
     (\<forall>r \<in> set runs. standalone_ran P C Q contents tq r) \<and> view Selecting H = [] \<and>
     (\<forall>i < length runs. view (Working i) H = run_events (runs ! i)) \<and>
     (\<forall>i. Working i \<in> fst ` set H \<longrightarrow> i < length runs) \<and>
     (\<forall>k x. TaskPolled tq k (Inr x) \<notin> set (view Outside H)) \<and> watch broker_step [] (map snd H) = Some K"

lemma standalone_ran_books:
  assumes "scheduler_ok Q contents" and "standalone_ran P C Q contents tq r"
  shows "tally answered_ticket (run_events r) + run_held contents r \<subseteq># tally received_ticket (run_events r)"
    and "FlagRead True \<notin> set (run_events r) \<Longrightarrow>
      tally answered_ticket (run_events r) + run_held contents r = tally received_ticket (run_events r)"
    and "tally (delivered_ticket {tq}) (run_events r) = tally received_ticket (run_events r)"
    and "tally (accepted_ticket {tq}) (run_events r) = {#}"
proof -
  obtain E config s t where r: "r = (E, config, s, t)" by (cases r)
  with assms(2) have run: "turns E (standaloneTurn E P C Q config) s t" and empty: "held_tickets contents s = {#}"
    and tq: "com_qrmciQueue (cfg_common config) = tq"
    by (simp_all add: standalone_ran_def held_tickets_def)
  from standalone.reached [OF run, of contents] assms(1)
  have "settles answered_ticket (held_tickets contents) {#} s t" by (simp add: books_kept_def)
  from settles_books [OF this] empty
  show "tally answered_ticket (run_events r) + run_held contents r \<subseteq># tally received_ticket (run_events r)"
    and "FlagRead True \<notin> set (run_events r) \<Longrightarrow>
      tally answered_ticket (run_events r) + run_held contents r = tally received_ticket (run_events r)"
    by (simp_all add: r run_events_def run_held_def)
  show "tally (delivered_ticket {tq}) (run_events r) = tally received_ticket (run_events r)"
    by (rule delivered_received)
      (use takes_new_events [OF standalone_queues.reached [OF run]] in \<open>fastforce simp: r run_events_def tq list_all_iff\<close>)
  show "tally (accepted_ticket {tq}) (run_events r) = {#}"
    by (rule accepted_none)
      (use conversation_sent [OF converses_new_events [OF standalone_protocol.reached [OF run]]] in
        \<open>fastforce simp: r run_events_def answers_only_def\<close>)
qed


text \<open>One of two daemons takes the only task; the other finds the queue empty.\<close>

lemma sample_shared_turns:
  "case (standaloneTurn one_task_env sample_protocol sample_compiler sample_scheduler sample_config (snd (terminationRequested one_task_env sample_daemon)),
     standaloneTurn sample_env sample_protocol sample_compiler sample_scheduler sample_config (snd (terminationRequested sample_env sample_daemon))) of
     (Some t, Some u) \<Rightarrow>
       (case watch broker_step [] (MessageSent ''tasks'' (TaskMessage owner_task) (Inr ()) # trace t @ trace u) of
          None \<Rightarrow> False
        | Some K \<Rightarrow> List.map_filter (waiting_ticket {''tasks''}) K = []) \<and>
       no_shutdown (trace t) \<and> no_shutdown (trace u) \<and> schedulerState t = [] \<and> schedulerState u = []
   | _ \<Rightarrow> False"
  by code_simp


end
