(* ===== verification/Spec2Isabelle.thy ===== *)
theory Spec2Isabelle
  imports Job_Ownership Deployment
begin

text \<open>
  A verification development of QRM&CI, the quantum resource manager and compiler infrastructure of the
  Munich Quantum Software Stack: the library under \<open>src/\<close> and \<open>include/qrmci/\<close> and its three daemons
  under \<open>apps/\<close>.

  \<^bold>\<open>The program.\<close> A task (circuits, a shot count, the queue its owner waits on) arrives on a broker
  queue. A backend is selected for it, its circuits are compiled for that backend, it is scheduled,
  submitted to the device as one job per circuit, and its results, or the reason it failed, are sent to
  its owner. The standalone daemon does all of this in one process. The distributed deployment splits it:
  a selector assigns tasks to backends that workers announce by status messages, and forwards each task
  to the queue of the worker that owns the backend; the worker compiles, submits and collects.

  \<^bold>\<open>The theories\<close>, in the order they build on each other, with the source they model.
    \<^item> \<open>QRM_Prelude\<close>: \<open>std::expected\<close> as a sum with \<open>and_then\<close> and \<open>transform\<close>, 64-bit wrap-around and
      the conversions of durations, decimal text, insertion into a sorted association list.
    \<^item> \<open>QRM_Error\<close> (\<open>Error.h\<close>, \<open>Error.cpp\<close>), \<open>Protocol_Messages\<close> (the fields the code uses of the
      protobuf messages), \<open>Constants_Mapping\<close> (\<open>ConstantsMapping.cpp\<close>), \<open>Circuit_Format_Policy\<close>
      (\<open>CircuitFormatPolicy.cpp\<close>).
    \<^item> \<open>External_Env\<close>: the boundary. Device, jobs, broker, clock and termination flag are the fields of a
      record \<open>environment\<close> over an arbitrary world; a program takes and returns the state \<open>io\<close>, which
      pairs the world with a trace of the external calls and their answers.
    \<^item> \<open>Backend_Wrapper\<close> (\<open>BackendWrapper.cpp\<close>), \<open>Backend_Registry\<close> (\<open>BackendRegistry.cpp\<close>),
      \<open>Publication_Throttle\<close> (\<open>PublicationThrottle.h\<close>).
    \<^item> \<open>Backend_Selection\<close>, \<open>Task_Compilation\<close>, \<open>Task_Submission\<close>, \<open>Task_Execution\<close>: the operations of
      \<open>Runners.cpp\<close> and \<open>TaskSubmission.cpp\<close>.
    \<^item> \<open>Config_Model\<close>, \<open>Config_Loader\<close> (\<open>Config.h\<close>, \<open>Config.cpp\<close>, \<open>ConfigDefaults.h.in\<close>).
    \<^item> \<open>Messaging\<close> (\<open>CommunicationHandler.h\<close>, \<open>DaemonMessaging.h\<close>).
    \<^item> \<open>Logger\<close> (\<open>Logger.h\<close>) and \<open>Termination_Signal\<close> (the signal handlers of \<open>Daemon.h\<close> and the values
      that successive loads of the flag they set return).
    \<^item> \<open>Daemon_Core\<close> (\<open>Daemon.h\<close>, \<open>Daemon.cpp\<close>): the state of a daemon as an extension of \<open>io\<close> (the
      registry; for a daemon that owns a device also throttle, compiler and scheduler), start-up, upkeep
      of the own device, intake, and the work loop.
    \<^item> \<open>Standalone_App\<close>, \<open>Selector_App\<close>, \<open>Worker_App\<close>: the \<open>main\<close> functions, each split into its queue
      handlers, its inner loops, one turn of the work loop, and the whole of \<open>main\<close>.
    \<^item> \<open>External_Protocol\<close>: the abstract specification of how a daemon talks to the outside, as sequences
      of exchanges, that the operations keep to it, and monitors (automata over traces) that accept every
      such sequence. \<open>Daemon_Protocol\<close>: the three daemons keep to it, each in its role.
      \<open>Job_Ownership\<close>: whose jobs they touch. \<open>Queue_Use\<close>: from which queues they take messages.
      \<open>Own_Device\<close>: the own device over the life of a daemon.
    \<^item> \<open>Deployment\<close>: the processes together. The history of a deployment interleaves the external calls of
      the selector, the workers and the outside call by call; the broker accounts for it.
    \<^item> This theory: how selector and worker fit together, and what the configured intervals mean for them.

  \<^bold>\<open>Interfaces\<close> are locales, each interpreted on the model. \<open>backend_directory\<close> is what selection relies
  on of a registry (a lookup and a visiting order that agree); \<open>preference\<close> is what the scan relies on of
  a policy (a strict order); \<open>ledger\<close> is a way of keeping the books of tasks, interpreted for stages that
  hold tasks in a scheduler (\<open>scheduling\<close>) and for the stage that forwards them (\<open>forwarding\<close>);
  \<open>monitor\<close> is an automaton that every exchange takes from rest to rest, interpreted for shutdown,
  deliveries, jobs and the form of messages; \<open>work_loop\<close> is what a turn promises the loop around it,
  interpreted for the three daemons with each of the promises made: books, routing, protocol, own jobs,
  own queues, own device.

  \<^bold>\<open>What is shown.\<close>
    \<^item> Selection picks the best usable backend by the policy, whatever the registration order; the
      registry refines a finite map with time stamps; a dispatch queue, once announced, does not change
      while the backend stays registered; publications respect the configured interval.
    \<^item> A task that selection admits and compilation accepts passes the submission check in a format the
      backend lists; compilation changes all circuits or none; submission yields one job per circuit in
      order or cancels what it had submitted; a result has exactly the counts of the jobs, at full range.
    \<^item> Every configuration the loader accepts satisfies the documented constraints; precedence of the
      layers; the errors and what they name.
    \<^item> Tasks are neither lost nor answered twice: over any number of turns of a daemon's loop the answers
      sent and the tasks still held are the tasks received, exactly, until a shutdown is requested. The
      selector forwards tasks only to queues that workers announced, for backends that can run them.
    \<^item> The deployment as a whole, under every interleaving of the calls of its processes: the tasks that
      were handed in are those waiting in a queue, held by a worker, answered by the selector or a worker,
      or refused by the broker, each once; a worker takes only tasks that were handed in and assigned to
      its own device, which it had announced as able to run them. Standalone daemons can share a queue.
    \<^item> The daemons refine the protocol of \<open>External_Protocol\<close>, so: after a shutdown request was read no
      work is begun, ever; a delivery is acknowledged at once and once; counts are read of jobs just
      reported done; jobs are cancelled only on shutdown; the jobs touched are the daemon's own; requests
      and results are well formed; and each daemon sends only the messages of its role.
    \<^item> Turns end: the worker's for any behaviour of broker and jobs once a job timeout is set, the others
      when the queues they drain are finite; so a daemon asked to stop after some number of turns leaves
      its loop. A shutdown ends the wait for jobs, whatever the timeout.
    \<^item> A daemon installs its signal handlers first and starts even if its log file cannot be opened. One
      that cannot start leaves the broker untouched; one that starts has its device registered and, with
      the intervals it loaded, enough slack to keep it registered at every turn of its life, however
      long its jobs take.
    \<^item> Two durations that the loader accepts overflow the clock's nanoseconds, with the consequences
      proved here and in \<open>Task_Execution\<close>.

  \<^bold>\<open>Loops.\<close> A loop over a list is a structural recursion. A loop that may not end (waiting for a job,
  an indefinite receive, draining a queue, executing ready tasks, the work loop) is a
  \<open>partial_function (option)\<close>, so that not ending is the value \<open>None\<close>; no fuel is used. That such a loop
  returns is a theorem of its own, under the conditions it needs. Because a daemon that is never asked to
  stop has no final state, its properties are stated of every state its loop reaches (\<open>turns\<close>).

  \<^bold>\<open>Parameters.\<close> The submitter, messenger, compiler, scheduler and TOML libraries, the environment
  variables and the file system are not code of this repository. They are records of functions; what the
  code relies on is a named hypothesis (\<open>protocol_ok\<close>, \<open>device_known\<close>, \<open>device_readable\<close>, \<open>steady_env\<close>,
  \<open>distinct_counts\<close>, \<open>scheduler_ok\<close>, \<open>scheduler_eager\<close>, \<open>finite_backlog\<close>, \<open>brisk\<close>, \<open>toml_ok\<close>; of the
  broker, \<open>broker_step\<close>), and a concrete instance of each is used in the witnesses. The termination flag may change between any two
  readings; where it matters, its readings are those \<open>flag_loads\<close> gives for some arrivals of signals.

  \<^bold>\<open>Not modelled.\<close> The lines written to the log (which logger is installed, with which sinks, is
  modelled); moves and destructors of C++ objects; concurrency inside a process (there is none: each
  daemon is one thread); a broker that delivers a message again (the daemons acknowledge every delivery at
  once); tests, documentation, build and container files. A signed overflow in a duration conversion,
  undefined in C++, is modelled as wrap-around.
\<close>

section \<open>The distributed pipeline\<close>

text \<open>C9: An announcement comes back as work. When a worker's refresh returns a status to publish and a
  selector that knows the device under no other queue receives it, both processes hold the same snapshot
  of the device, with the worker's own task queue in it; and a task the selector then assigns to the
  device is forwarded to exactly that queue, naming the device, so that the worker finds it registered
  and able to run the task.\<close>

theorem announcement_routes_tasks_back:
  assumes "protocol_ok P" and "device_known P E" and "q \<noteq> ''''" and "env_deviceId E \<noteq> ''''"
    and "own_registered E q d" and "refreshOwnDeviceStatus E P q d = (Some status, d')"
    and "registry_wf (registry n)" and "dispatch_queue (registry n) (env_deviceId E) \<in> {None, Some q}"
    and "n' = selectorStatus E' P status n"
  shows "\<exists>b. registry_find (registry n') (env_deviceId E) = Some b \<and> registry_find (registry d') (env_deviceId E) = Some b \<and>
    bw_queueName b = q \<and>
    (\<forall>task. chooseBackend (getSupportedInputFormats C) task (registry n') (sel_selectionPolicy (cfg_selector config)) =
         Inr (env_deviceId E) \<longrightarrow>
       selectorTask E' C config task n' = send E' (TaskMessage (task\<lparr>scheduled_qpu := env_deviceId E\<rparr>)) q n' \<and>
       isOnline b \<and> canRun (getSupportedInputFormats C) b task)"
proof -
  from refreshed_status_registered [OF assms(1-6)] obtain b where b: "fromPublishedStatus P status = Inr b"
    "registry_find (registry d') (env_deviceId E) = Some b" "bw_queueName b = q" by blast
  obtain now u where c: "Clock_now E' n = (now, u)" by (cases "Clock_now E' n")
  have "registry u = registry n" using node_frame Clock_now_extends [OF c] by blast
  with assms(9) b(1) c have n': "registry n' = snd (insertOrRefresh b now (registry n))" by (simp add: selectorStatus_def)
  have name: "bw_name b = env_deviceId E"
    using refreshed_status_name [OF assms(6)] b(1) by (simp add: fromPublishedStatus_Inr_iff BackendWrapper_of_def)
  have found: "registry_find (registry n') (env_deviceId E) = Some b"
    using assms(8) b(3) name
    by (auto simp: n' registry_simps spec_insert_apply queue_conflict_def dispatch_queue_def)
  have wf: "registry_wf (registry n')" using assms(7) n' by auto
  have "selectorTask E' C config task n' = send E' (TaskMessage (task\<lparr>scheduled_qpu := env_deviceId E\<rparr>)) q n' \<and>
      isOnline b \<and> canRun (getSupportedInputFormats C) b task"
    if "chooseBackend (getSupportedInputFormats C) task (registry n') (sel_selectionPolicy (cfg_selector config)) =
      Inr (env_deviceId E)" for task
    using chooseBackend_Inr [OF wf that] found that b(3) by (auto simp: selectorTask_def)
  with found b show ?thesis by blast
qed

lemma sample_refresh:
  obtains status t where "refreshOwnDeviceStatus sample_env sample_protocol ''compiler.q'' sample_daemon = (Some status, t)"
proof -
  obtain st t where run: "refreshOwnDeviceStatus sample_env sample_protocol ''compiler.q'' sample_daemon = (st, t)"
    by (cases "refreshOwnDeviceStatus sample_env sample_protocol ''compiler.q'' sample_daemon")
  then obtain status where "st = Some status"
    by (cases rule: refreshOwnDeviceStatus_cases)
      (auto simp: sample_env_readable, simp add: sample_daemon_def PublicationThrottle_new_def claim_def)
  with run that show thesis by blast
qed

theorem announcement_routes_tasks_back_witness:
  "\<exists>status d' b. refreshOwnDeviceStatus sample_env sample_protocol ''compiler.q'' sample_daemon = (Some status, d') \<and>
     registry_find (registry (selectorStatus sample_env sample_protocol status sample_selector)) ''cxxdevice5q'' = Some b \<and>
     registry_find (registry d') ''cxxdevice5q'' = Some b \<and> bw_queueName b = ''compiler.q''"
proof -
  obtain status d' where run: "refreshOwnDeviceStatus sample_env sample_protocol ''compiler.q'' sample_daemon = (Some status, d')"
    using sample_refresh .
  have id: "env_deviceId sample_env = ''cxxdevice5q''" by (simp add: sample_env_def)
  have "registry_wf (registry sample_selector)"
    and "dispatch_queue (registry sample_selector) (env_deviceId sample_env) \<in> {None, Some ''compiler.q''}"
    by (simp_all add: sample_selector_def dispatch_queue_def registry_simps)
  from announcement_routes_tasks_back [OF sample_protocol_ok sample_env_known _ _ sample_daemon_registered run this refl] run
  show ?thesis unfolding id by fastforce
qed



section \<open>Processes side by side\<close>

text \<open>
  The same two facts as in \<open>Deployment\<close>, of runs of the processes side by side with any broker of which only
  the one law is known that each needs.
\<close>

text \<open>The distributed deployment as a whole neither loses nor repeats tasks. Let a selector run from its
  start and any number of workers run, and let the broker hand to the workers no task that the selector
  did not forward, and each at most once. Then the answers sent by the selector and by all workers
  together, with the tasks the workers still hold, are among the tasks the selector received: every task
  is answered at most once, on its own owner's queue, and nobody else is answered. When every forwarded
  task was delivered and no worker was asked to stop, they are exactly those tasks.\<close>

theorem pipeline_conserves_tasks:
  assumes "trace n0 = []" and "registry n0 = BackendRegistry_new ttl" and "turns E (selectorTurn E P C config) n0 n"
    and "scheduler_ok Q contents" and "\<forall>r \<in> set workers. worker_ran P C' Q contents r"
    and "total (\<lambda>r. tally received_ticket (run_events r)) workers \<subseteq># tally forwarded_ticket (trace n)"
  shows "tally answered_ticket (trace n) + total (\<lambda>r. tally answered_ticket (run_events r) + run_held contents r) workers
      \<subseteq># tally received_ticket (trace n) \<and>
    (total (\<lambda>r. tally received_ticket (run_events r)) workers = tally forwarded_ticket (trace n) \<and>
     (\<forall>r \<in> set workers. FlagRead True \<notin> set (run_events r)) \<longrightarrow>
       tally answered_ticket (trace n) + total (\<lambda>r. tally answered_ticket (run_events r) + run_held contents r) workers =
       tally received_ticket (trace n))"
proof -
  let ?out = "\<lambda>r. tally answered_ticket (run_events r) + run_held contents r"
    and ?in = "\<lambda>r. tally received_ticket (run_events r)"
  have "selector_inv P (getSupportedInputFormats C) n"
    using selector.reached [OF assms(3)] selector_inv_start [OF assms(2)] assms(1) by (auto simp: selector_promise_def)
  then have received: "tally received_ticket (trace n) = tally answered_ticket (trace n) + tally forwarded_ticket (trace n)"
    by (simp add: selector_inv_def tally_answered_or_forwarded)
  have "total ?out workers \<subseteq># total ?in workers"
    using assms(5) worker_ran_books(1) [OF assms(4)] by (intro total_mono) blast
  with assms(6) have part: "total ?out workers \<subseteq># tally forwarded_ticket (trace n)" by (rule subset_mset.order_trans [rotated])
  have all: "total ?out workers = total ?in workers" if "\<forall>r \<in> set workers. FlagRead True \<notin> set (run_events r)"
    by (intro arg_cong [where f = sum_list] map_cong refl worker_ran_books(2) [OF assms(4)]) (use that assms(5) in blast)+
  from part all received show ?thesis by auto
qed

text \<open>The sample selector forwards one task, and the sample worker receives it.\<close>

lemma sample_worker_receives:
  "case workerTurn worker_env sample_protocol sample_compiler sample_scheduler sample_config
      (snd (terminationRequested worker_env sample_daemon)) of
     None \<Rightarrow> False
   | Some t \<Rightarrow> List.map_filter received_ticket (trace t) = [ticket sample_quake_task] \<and> no_shutdown (trace t) \<and> schedulerState t = []"
  by code_simp

theorem pipeline_conserves_tasks_witness:
  "\<exists>n t. turns selector_env (selectorTurn selector_env sample_protocol sample_compiler sample_config) sample_selector n \<and>
     turns worker_env (workerTurn worker_env sample_protocol sample_compiler sample_scheduler sample_config) sample_daemon t \<and>
     tally answered_ticket (trace n) + tally answered_ticket (trace t) = tally received_ticket (trace n)"
proof -
  let ?select = "selectorTurn selector_env sample_protocol sample_compiler sample_config"
    and ?work = "workerTurn worker_env sample_protocol sample_compiler sample_scheduler sample_config"
  obtain n where n: "?select (snd (terminationRequested selector_env sample_selector)) = Some n"
    "List.map_filter forwarded_ticket (trace n) = [ticket sample_quake_task]"
    using sample_selector_again by (auto split: option.splits)
  obtain t where t: "?work (snd (terminationRequested worker_env sample_daemon)) = Some t"
    "List.map_filter received_ticket (trace t) = [ticket sample_quake_task]" "no_shutdown (trace t)" "schedulerState t = []"
    using sample_worker_receives by (auto split: option.splits)
  have "terminationRequested selector_env sample_selector = (False, snd (terminationRequested selector_env sample_selector))"
    by (simp add: terminationRequested_def ext_call_def selector_env_def sample_selector_def)
  with n(1) have select: "turns selector_env ?select sample_selector n" by (blast intro: turns.intros)
  have "terminationRequested worker_env sample_daemon = (False, snd (terminationRequested worker_env sample_daemon))"
    by (simp add: terminationRequested_def ext_call_def worker_env_def sample_env_def)
  with t(1) have work: "turns worker_env ?work sample_daemon t" by (blast intro: turns.intros)
  let ?run = "(worker_env, sample_config, sample_daemon, t)"
  have ev: "run_events ?run = trace t" by (simp add: run_events_def new_events_def sample_daemon_def)
  have held: "run_held mset ?run = {#}" using t(4) by (simp add: run_held_def held_tickets_def)
  have ran: "\<forall>r \<in> set [?run]. worker_ran sample_protocol sample_compiler sample_scheduler mset r"
    using work by (simp add: worker_ran_def sample_daemon_def)
  have fed: "total (\<lambda>r. tally received_ticket (run_events r)) [?run] = tally forwarded_ticket (trace n)"
    using n(2) t(2) by (simp add: tally_def ev)
  have "FlagRead True \<notin> set (trace t)" using t(3) by (auto simp: no_shutdown_def list_all_iff)
  moreover have "trace sample_selector = []" "registry sample_selector = BackendRegistry_new 30000000000"
    by (simp_all add: sample_selector_def)
  note pipeline_conserves_tasks [OF this select sample_scheduler_ok ran]
  ultimately have "tally answered_ticket (trace n) + tally answered_ticket (trace t) = tally received_ticket (trace n)"
    using fed by (simp add: ev held)
  with select work show ?thesis by blast
qed

text \<open>A forwarded task reaches a worker that can take it. Let every status the selector received have
  been published by one of the workers. Then each task the selector forwards goes to the queue from which
  one of these workers receives its tasks, and names that worker's device. If that worker started as its
  \<open>main\<close> does and its upkeep is in time, it has the named device registered at every turn of its loop,
  under that same queue.\<close>

theorem forwarded_tasks_reach_their_worker:
  assumes "trace n0 = []" and "registry n0 = BackendRegistry_new ttl" and "turns E (selectorTurn E P C config) n0 n"
    and "\<forall>r \<in> set workers. worker_ran P C' Q contents r"
    and "\<forall>p i status d. BackendPolled p i (Inr (status, d)) \<in> set (trace n) \<longrightarrow>
      (\<exists>r \<in> set workers. \<exists>p' ok. MessageSent p' (BackendMessage status) ok \<in> set (run_events r))"
    and "MessageSent q (TaskMessage task) sent \<in> set (trace n)"
  shows "\<exists>E' config' s t. (E', config', s, t) \<in> set workers \<and> q = cmp_queue (cfg_compiler config') \<and>
    scheduled_qpu task = env_deviceId E' \<and>
    (started E' q config' io sq s \<and> upkeep_in_time E' (publishInterval (throttle s)) (entryTimeToLive (registry s)) \<longrightarrow>
      (\<exists>b. registry_find (registry t) (scheduled_qpu task) = Some b \<and> bw_queueName b = q))"
proof -
  have "selector_inv P (getSupportedInputFormats C) n"
    using selector.reached [OF assms(3)] selector_inv_start [OF assms(2)] assms(1) by (auto simp: selector_promise_def)
  moreover obtain es fs where split: "trace n = es @ MessageSent q (TaskMessage task) sent # fs"
    using assms(6) by (meson split_list)
  ultimately have "well_routed P (getSupportedInputFormats C) es q task" by (auto simp: selector_inv_def routed_def)
  then obtain b p i status d where b: "bw_name b = scheduled_qpu task" "bw_queueName b = q"
    "fromPublishedStatus P status = Inr b" and got: "BackendPolled p i (Inr (status, d)) \<in> set es"
    by (auto simp: well_routed_def announced_def)
  have status: "pb_name status = scheduled_qpu task" "pb_queue_name status = q"
    using b by (auto simp: fromPublishedStatus_Inr_iff BackendWrapper_of_def)
  from got split assms(5) obtain r p' ok where r: "r \<in> set workers"
    "MessageSent p' (BackendMessage status) ok \<in> set (run_events r)" by fastforce
  obtain E' config' s t where rt: "r = (E', config', s, t)" by (cases r)
  with assms(4) r(1) have run: "turns E' (workerTurn E' P C' Q config') s t" by (auto simp: worker_ran_def)
  have "announces E' config' p' (BackendMessage status)"
    using conversation_sent [OF converses_new_events [OF worker_protocol.reached [OF run]]] r(2) rt by (auto simp: run_events_def)
  with status have q: "q = cmp_queue (cfg_compiler config')" "scheduled_qpu task = env_deviceId E'" by (auto simp: announces_def)
  have "keeps_device E' q s t" using worker_device.reached [OF run] q(1) by simp
  with kept_device_found [of E' s q config' io sq t] q r(1) rt show ?thesis
    by (intro exI [of _ E'] exI [of _ config'] exI [of _ s] exI [of _ t]) auto
qed

text \<open>The statuses that go over the broker.\<close>

fun status_received :: "event \<Rightarrow> Backend option" where
  "status_received (BackendPolled _ _ (Inr (status, _))) = Some status"
| "status_received _ = None"

fun status_sent :: "event \<Rightarrow> Backend option" where
  "status_sent (MessageSent _ (BackendMessage status) _) = Some status"
| "status_sent _ = None"

lemma sample_informed_turn:
  "case selectorTurn informed_env sample_protocol sample_compiler sample_config
      (snd (terminationRequested informed_env sample_selector)) of
     None \<Rightarrow> False
   | Some n \<Rightarrow> list_ex (\<lambda>e. forwarded_ticket e \<noteq> None) (trace n) \<and>
       list_all (\<lambda>e. case status_received e of None \<Rightarrow> True | Some status \<Rightarrow> status = published_status) (trace n)"
  by code_simp

lemma sample_publishing_turn:
  "case workerTurn worker_env sample_protocol sample_compiler sample_scheduler sample_config
      (snd (terminationRequested worker_env sample_daemon)) of
     None \<Rightarrow> False | Some t \<Rightarrow> list_ex (\<lambda>e. status_sent e = Some published_status) (trace t)"
  by code_simp

theorem forwarded_tasks_reach_their_worker_witness:
  "\<exists>n task sent. turns informed_env (selectorTurn informed_env sample_protocol sample_compiler sample_config) sample_selector n \<and>
     MessageSent ''compiler.q'' (TaskMessage task) sent \<in> set (trace n) \<and> scheduled_qpu task = ''cxxdevice5q''"
proof -
  let ?select = "selectorTurn informed_env sample_protocol sample_compiler sample_config"
    and ?work = "workerTurn worker_env sample_protocol sample_compiler sample_scheduler sample_config"
  obtain n where n: "?select (snd (terminationRequested informed_env sample_selector)) = Some n"
    "list_ex (\<lambda>e. forwarded_ticket e \<noteq> None) (trace n)"
    "list_all (\<lambda>e. case status_received e of None \<Rightarrow> True | Some status \<Rightarrow> status = published_status) (trace n)"
    using sample_informed_turn by (auto split: option.splits)
  obtain t where t: "?work (snd (terminationRequested worker_env sample_daemon)) = Some t"
    "list_ex (\<lambda>e. status_sent e = Some published_status) (trace t)"
    using sample_publishing_turn by (auto split: option.splits)
  have "terminationRequested informed_env sample_selector = (False, snd (terminationRequested informed_env sample_selector))"
    by (simp add: terminationRequested_def ext_call_def informed_env_def selector_env_def sample_selector_def)
  with n(1) have select: "turns informed_env ?select sample_selector n" by (blast intro: turns.intros)
  have "terminationRequested worker_env sample_daemon = (False, snd (terminationRequested worker_env sample_daemon))"
    by (simp add: terminationRequested_def ext_call_def worker_env_def sample_env_def)
  with t(1) have work: "turns worker_env ?work sample_daemon t" by (blast intro: turns.intros)
  let ?run = "(worker_env, sample_config, sample_daemon, t)"
  have ran: "\<forall>r \<in> set [?run]. worker_ran sample_protocol sample_compiler sample_scheduler mset r"
    using work by (simp add: worker_ran_def sample_daemon_def)
  obtain p' ok where "MessageSent p' (BackendMessage published_status) ok \<in> set (trace t)"
    using t(2) by (auto simp: list_ex_iff elim!: status_sent.elims)
  moreover have "status = published_status" if "BackendPolled p i (Inr (status, d)) \<in> set (trace n)" for p i status d
    using n(3) that by (force simp: list_all_iff)
  ultimately have fed: "\<forall>p i status d. BackendPolled p i (Inr (status, d)) \<in> set (trace n) \<longrightarrow>
      (\<exists>r \<in> set [?run]. \<exists>p' ok. MessageSent p' (BackendMessage status) ok \<in> set (run_events r))"
    by (simp add: run_events_def new_events_def sample_daemon_def) blast
  obtain q task sent where m: "MessageSent q (TaskMessage task) sent \<in> set (trace n)"
    using n(2) by (auto simp: list_ex_iff elim!: forwarded_ticket.elims)
  have "trace sample_selector = []" "registry sample_selector = BackendRegistry_new 30000000000"
    by (simp_all add: sample_selector_def)
  from forwarded_tasks_reach_their_worker [OF this select ran fed m] have "q = ''compiler.q'' \<and> scheduled_qpu task = ''cxxdevice5q''"
    by (auto simp: sample_config_def worker_env_def sample_env_def)
  with select m show ?thesis by blast
qed

section \<open>The configured intervals\<close>

text \<open>C36: A daemon started from a configuration the loader accepted has slack to keep its own device
  registered: when the time-to-live is representable in nanoseconds, the publication interval its
  throttle uses is positive and shorter than the time-to-live its registry uses, although the two are
  configured in different units, and the first refresh is granted at once.\<close>

theorem loaded_intervals_leave_slack:
  assumes "loadConfig T F = Inr config" and "started E q config s sq d"
    and "fits64 (reg_entryTimeToLive (sub_backendRegistry (cfg_submitter config)) * 1000000000)"
  shows "0 < publishInterval (throttle d) \<and> publishInterval (throttle d) < entryTimeToLive (registry d) \<and>
    (\<forall>now. fst (claim now (throttle d)))"
proof -
  let ?ttl = "reg_entryTimeToLive (sub_backendRegistry (cfg_submitter config))"
    and ?ms = "sub_backendStatusPublishInterval (cfg_submitter config)"
  obtain root where "assembleConfig T F root = Inr config"
    using assms(1) unfolding loadConfig_def by (rule loadConfigFrom_Inr)
  then have "valid_config config" by (rule assembleConfig_valid)
  then have v: "0 < ?ttl" "0 < ?ms" "?ms < wrap64 (?ttl * 1000)" by (simp_all add: valid_config_def valid_submitter_def)
  have "fits64 (?ttl * 1000)" using assms(3) v(1) by (simp add: fits64_def)
  with v(3) have ms: "?ms < ?ttl * 1000" by (simp add: wrap64_id)
  with assms(3) v have "fits64 (?ms * 1000000)" by (simp add: fits64_def)
  then have "publishInterval (throttle d) = ?ms * 1000000" "entryTimeToLive (registry d) = ?ttl * 1000000000"
    using assms(2,3) by (simp_all add: started_def PublicationThrottle_new_def nanoseconds_of_ms_exact nanoseconds_exact)
  moreover have "fst (claim now (throttle d))" for now
    using assms(2) by (simp add: started_def claim_def PublicationThrottle_new_def)
  ultimately show ?thesis using v(2) ms by simp
qed

lemma sample_load_ttl:
  "loadConfig sample_toml (sample_platform sample_environment (Some sample_document)) = Inr c \<Longrightarrow>
     reg_entryTimeToLive (sub_backendRegistry (cfg_submitter c)) = 30"
  by (auto simp add: sample_load_simps sample_document_def sample_environment_def sample_port default_texts wrap64_def
      signed_take_bit_int_eq_self)

theorem loaded_intervals_leave_slack_witness:
  "\<exists>config d. loadConfig sample_toml (sample_platform sample_environment (Some sample_document)) = Inr config \<and>
     started halted_env (cmp_queue (cfg_compiler config)) config sample_io [] (d :: (nat, unit, QuantumTask list) daemon) \<and>
     publishInterval (throttle d) < entryTimeToLive (registry d)"
proof -
  let ?F = "sample_platform sample_environment (Some sample_document)"
  obtain t where "workerMain sample_toml ?F halted_env sample_protocol sample_compiler sample_scheduler () [] sample_io =
      Some (EXIT_SUCCESS, t)" using sample_worker_main .
  from deviceMain_outcome [OF this [unfolded workerMain_eq]] obtain config and d :: "(nat, unit, QuantumTask list) daemon"
    where d: "loadConfig sample_toml ?F = Inr config"
      "started halted_env (cmp_queue (cfg_compiler config)) config sample_io [] d" by auto
  then have "fits64 (reg_entryTimeToLive (sub_backendRegistry (cfg_submitter config)) * 1000000000)"
    using sample_load_ttl [of config] by (simp add: fits64_def)
  from loaded_intervals_leave_slack [OF d this] d show ?thesis by blast
qed


end
